(* ===== verification/Dax_Prelude.thy ===== *)
theory Dax_Prelude
  imports Main "HOL-Library.Word" "HOL-Library.Monad_Syntax"
begin

text \<open>
  What all components of the development share: the machine types of the C code, memory
  blocks with checked access, little and big endian encodings, bits of a byte string, C strings
  and the constants of \<^verbatim>\<open>opendax.h\<close> and \<^verbatim>\<open>libcommon.h\<close>.

  A C function is a HOL function to an \<^verbatim>\<open>option\<close>: \<^verbatim>\<open>None\<close> stands for a run whose behaviour C
  leaves undefined (an access outside a block, a null or dangling pointer, a signed overflow)
  or that ends in a failed \<^verbatim>\<open>assert\<close>; \<^verbatim>\<open>Some\<close> holds the result. A C \<^verbatim>\<open>int\<close> is an
  \<^verbatim>\<open>int\<close>, unsigned types are words.
\<close>

unbundle bit_operations_syntax

named_theorems mem_simps \<open>rules that compute reads after writes of memory blocks\<close>
named_theorems err_simps \<open>the numeric values of the error codes\<close>

section \<open>Machine types\<close>

type_synonym byte = "8 word"
type_synonym u16 = "16 word"
type_synonym u32 = "32 word"
type_synonym u64 = "64 word"
type_synonym cint = int

definition int32_ok :: "int \<Rightarrow> bool" where
  "int32_ok x \<longleftrightarrow> - 2147483648 \<le> x \<and> x \<le> 2147483647"

text \<open>Conversions between \<^verbatim>\<open>int\<close> and \<^verbatim>\<open>uint32_t\<close>, as C does them on two's complement.\<close>

definition u32_of :: "int \<Rightarrow> u32" where
  "u32_of x = word_of_int x"

definition int_of_u32 :: "u32 \<Rightarrow> int" where
  "int_of_u32 w = sint w"

lemma int_of_u32_ok [simp]: "int32_ok (int_of_u32 w)"
  using sint_range_size [of w] by (auto simp: int32_ok_def int_of_u32_def word_size)

lemma int_of_u32_of [simp]: "int32_ok x \<Longrightarrow> int_of_u32 (u32_of x) = x"
  by (simp add: int32_ok_def int_of_u32_def u32_of_def signed_take_bit_int_eq_self_iff
      sint_sbintrunc')

lemma u32_of_int_of_u32 [simp]: "u32_of (int_of_u32 w) = w"
  by (simp add: int_of_u32_def u32_of_def)

lemma uint_u32_of: "0 \<le> x \<Longrightarrow> int32_ok x \<Longrightarrow> uint (u32_of x) = x"
  by (simp add: u32_of_def int32_ok_def unsigned_of_int take_bit_int_eq_self_iff)

lemma uint_word_of_int_id: "0 \<le> x \<Longrightarrow> x < 2 ^ 32 \<Longrightarrow> uint (word_of_int x :: u32) = x"
  by (simp add: unsigned_of_int take_bit_int_eq_self)

section \<open>Memory blocks\<close>

text \<open>
  A block is the list of its bytes. \<^verbatim>\<open>mem_get b off n\<close> reads \<^verbatim>\<open>n\<close> bytes from the offset
  \<^verbatim>\<open>off\<close>, \<^verbatim>\<open>mem_put b off src\<close> overwrites the bytes from \<^verbatim>\<open>off\<close> with \<^verbatim>\<open>src\<close>: the two uses
  of \<^verbatim>\<open>memcpy\<close>. Both fail outside the block. \<^verbatim>\<open>arr_get\<close> and \<^verbatim>\<open>arr_set\<close> are the same for
  one element of an array.
\<close>

definition mem_get :: "'a list \<Rightarrow> int \<Rightarrow> int \<Rightarrow> 'a list option" where
  "mem_get b off n =
    (if 0 \<le> off \<and> 0 \<le> n \<and> off + n \<le> int (length b)
     then Some (take (nat n) (drop (nat off) b)) else None)"

definition mem_put :: "'a list \<Rightarrow> int \<Rightarrow> 'a list \<Rightarrow> 'a list option" where
  "mem_put b off src =
    (if 0 \<le> off \<and> off + int (length src) \<le> int (length b)
     then Some (take (nat off) b @ src @ drop (nat off + length src) b) else None)"

definition arr_get :: "'a list \<Rightarrow> int \<Rightarrow> 'a option" where
  "arr_get xs i = (if 0 \<le> i \<and> i < int (length xs) then Some (xs ! nat i) else None)"

definition arr_set :: "'a list \<Rightarrow> int \<Rightarrow> 'a \<Rightarrow> 'a list option" where
  "arr_set xs i x = (if 0 \<le> i \<and> i < int (length xs) then Some (xs[nat i := x]) else None)"

lemma mem_get_length: "mem_get b off n = Some d \<Longrightarrow> int (length d) = n"
  by (auto simp: mem_get_def split: if_splits)

lemma mem_get_Some_iff:
  "mem_get b off n = Some d \<longleftrightarrow>
    0 \<le> off \<and> 0 \<le> n \<and> off + n \<le> int (length b) \<and> d = take (nat n) (drop (nat off) b)"
  by (auto simp: mem_get_def)

lemma mem_get_None_iff:
  "mem_get b off n = None \<longleftrightarrow> off < 0 \<or> n < 0 \<or> int (length b) < off + n"
  by (auto simp: mem_get_def)

lemma mem_get_whole [mem_simps]: "mem_get b 0 (int (length b)) = Some b"
  by (simp add: mem_get_def)

lemma mem_put_length [mem_simps]: "mem_put b off src = Some b' \<Longrightarrow> length b' = length b"
  by (auto simp: mem_put_def split: if_splits)

lemma mem_put_None_iff:
  "mem_put b off src = None \<longleftrightarrow> off < 0 \<or> int (length b) < off + int (length src)"
  by (auto simp: mem_put_def)

text \<open>A read of the range just written returns what was written.\<close>

lemma mem_get_put_same [mem_simps]:
  "mem_put b off src = Some b' \<Longrightarrow> n = int (length src) \<Longrightarrow> mem_get b' off n = Some src"
  by (auto simp: mem_put_def mem_get_def split: if_splits)

text \<open>Byte by byte: the written range holds the source, every other byte is unchanged.\<close>

lemma mem_put_nth:
  assumes "mem_put b off src = Some b'" and "i < length b"
  shows "b' ! i =
    (if nat off \<le> i \<and> i < nat off + length src then src ! (i - nat off) else b ! i)"
proof -
  from assms(1) have off: "0 \<le> off" and fit: "nat off + length src \<le> length b"
    and b': "b' = take (nat off) b @ src @ drop (nat off + length src) b"
    by (auto simp: mem_put_def split: if_splits)
  show ?thesis
    using assms(2) fit by (auto simp: b' nth_append)
qed

text \<open>A read that does not meet the written range sees the old bytes.\<close>

lemma mem_get_put_other [mem_simps]:
  assumes "mem_put b off src = Some b'"
    and "off' + n \<le> off \<or> off + int (length src) \<le> off'"
  shows "mem_get b' off' n = mem_get b off' n"
proof (cases "0 \<le> off' \<and> 0 \<le> n \<and> off' + n \<le> int (length b)")
  case True
  have "take (nat n) (drop (nat off') b') = take (nat n) (drop (nat off') b)"
    using True assms mem_put_length [OF assms(1)]
    by (intro nth_equalityI) (auto simp: mem_put_nth [OF assms(1)] mem_put_def split: if_splits)
  with True show ?thesis
    using mem_put_length [OF assms(1)] by (simp add: mem_get_def)
next
  case False
  then show ?thesis
    using mem_put_length [OF assms(1)] by (auto simp: mem_get_def)
qed

lemma arr_get_Some_iff:
  "arr_get xs i = Some x \<longleftrightarrow> 0 \<le> i \<and> i < int (length xs) \<and> x = xs ! nat i"
  by (auto simp: arr_get_def)

lemma arr_get_nat [simp]: "i < length xs \<Longrightarrow> arr_get xs (int i) = Some (xs ! i)"
  by (simp add: arr_get_def)

lemma arr_get_uint: "arr_get xs (uint i) = Some x \<longleftrightarrow> unat i < length xs \<and> x = xs ! unat i"
proof -
  have "uint i < int (length xs) \<longleftrightarrow> int (unat i) < int (length xs)" by simp
  then have "uint i < int (length xs) \<longleftrightarrow> unat i < length xs" by (simp only: of_nat_less_iff)
  then show ?thesis by (auto simp: arr_get_Some_iff)
qed

lemma arr_set_Some_iff:
  "arr_set xs i x = Some ys \<longleftrightarrow> 0 \<le> i \<and> i < int (length xs) \<and> ys = xs[nat i := x]"
  by (auto simp: arr_set_def)

lemma arr_set_length [mem_simps]: "arr_set xs i x = Some ys \<Longrightarrow> length ys = length xs"
  by (auto simp: arr_set_def split: if_splits)

lemma arr_get_set_same [mem_simps]: "arr_set xs i x = Some ys \<Longrightarrow> arr_get ys i = Some x"
  by (auto simp: arr_set_def arr_get_def split: if_splits)

lemma arr_get_set_other [mem_simps]:
  "arr_set xs i x = Some ys \<Longrightarrow> j \<noteq> i \<Longrightarrow> arr_get ys j = arr_get xs j"
  by (auto simp: arr_set_def arr_get_def nth_list_update split: if_splits)

text \<open>Option computations: inversion of a run, step by step.\<close>

lemma bind_SomeE [elim!]:
  assumes "Option.bind m f = Some y"
  obtains x where "m = Some x" and "f x = Some y"
  using assms by (auto simp: Option.bind_eq_Some_conv)

section \<open>Encodings\<close>

text \<open>
  The integers of a message or of a tag in memory: \<^verbatim>\<open>le_enc n x\<close> is the number \<^verbatim>\<open>x\<close> in \<^verbatim>\<open>n\<close>
  bytes, least significant first, as the server's hosts (little endian) store it. The message
  headers are in network order, \<^verbatim>\<open>be_enc\<close>.
\<close>

primrec le_enc :: "nat \<Rightarrow> nat \<Rightarrow> byte list" where
  "le_enc 0 x = []"
| "le_enc (Suc n) x = of_nat (x mod 256) # le_enc n (x div 256)"

primrec le_dec :: "byte list \<Rightarrow> nat" where
  "le_dec [] = 0"
| "le_dec (b # bs) = unat b + 256 * le_dec bs"

definition be_enc :: "nat \<Rightarrow> nat \<Rightarrow> byte list" where
  "be_enc n x = rev (le_enc n x)"

definition be_dec :: "byte list \<Rightarrow> nat" where
  "be_dec bs = le_dec (rev bs)"

lemma length_le_enc [simp]: "length (le_enc n x) = n"
  by (induction n arbitrary: x) auto

lemma length_be_enc [simp]: "length (be_enc n x) = n"
  by (simp add: be_enc_def)

lemma unat_byte_of_nat: "unat (of_nat x :: byte) = x mod 256"
  by (simp add: unat_of_nat)

lemma le_dec_enc: "le_dec (le_enc n x) = x mod 256 ^ n"
proof (induction n arbitrary: x)
  case (Suc n)
  have "x mod (256 * 256 ^ n) = 256 * (x div 256 mod 256 ^ n) + x mod 256"
    by (rule mod_mult2_eq)
  then show ?case
    by (simp add: Suc.IH unat_byte_of_nat)
qed simp

lemma le_dec_enc_id [simp]: "x < 256 ^ n \<Longrightarrow> le_dec (le_enc n x) = x"
  by (simp add: le_dec_enc)

lemma be_dec_enc_id [simp]: "x < 256 ^ n \<Longrightarrow> be_dec (be_enc n x) = x"
  by (simp add: be_dec_def be_enc_def)

lemma unat_bound: "unat (w :: 'a::len word) < 2 ^ LENGTH('a)"
  by (rule unsigned_less)

lemma unat_byte_less [simp]: "unat (b :: byte) < 256"
  using unat_bound [of b] by simp

lemma le_enc_dec: "le_enc (length bs) (le_dec bs) = bs"
proof (induction bs)
  case (Cons b bs)
  have "(unat b + 256 * le_dec bs) mod 256 = unat b"
    by simp
  moreover have "(unat b + 256 * le_dec bs) div 256 = le_dec bs"
    by simp
  ultimately show ?case
    using Cons.IH by simp
qed simp

lemma le_dec_bound: "le_dec bs < 256 ^ length bs"
proof (induction bs)
  case (Cons b bs)
  have "unat b < 256" by simp
  moreover have "Suc (le_dec bs) \<le> 256 ^ length bs" using Cons.IH by simp
  then have "256 * Suc (le_dec bs) \<le> 256 * 256 ^ length bs" by (rule mult_le_mono2)
  ultimately show ?case by (simp del: unat_byte_less)
qed simp

definition enc16 :: "u16 \<Rightarrow> byte list" where "enc16 w = le_enc 2 (unat w)"
definition enc32 :: "u32 \<Rightarrow> byte list" where "enc32 w = le_enc 4 (unat w)"
definition enc64 :: "u64 \<Rightarrow> byte list" where "enc64 w = le_enc 8 (unat w)"
definition dec16 :: "byte list \<Rightarrow> u16" where "dec16 bs = of_nat (le_dec bs)"
definition dec32 :: "byte list \<Rightarrow> u32" where "dec32 bs = of_nat (le_dec bs)"
definition dec64 :: "byte list \<Rightarrow> u64" where "dec64 bs = of_nat (le_dec bs)"

definition enc_int :: "int \<Rightarrow> byte list" where
  "enc_int x = enc32 (u32_of x)"

definition dec_int :: "byte list \<Rightarrow> int" where
  "dec_int bs = int_of_u32 (dec32 bs)"

lemma length_enc [simp]:
  "length (enc16 a) = 2" "length (enc32 b) = 4" "length (enc64 c) = 8" "length (enc_int x) = 4"
  by (simp_all add: enc16_def enc32_def enc64_def enc_int_def)

lemma dec16_enc16 [simp]: "dec16 (enc16 w) = w"
  using unat_bound [of w] by (simp add: dec16_def enc16_def)

lemma dec32_enc32 [simp]: "dec32 (enc32 w) = w"
  using unat_bound [of w] by (simp add: dec32_def enc32_def)

lemma dec64_enc64 [simp]: "dec64 (enc64 w) = w"
  using unat_bound [of w] by (simp add: dec64_def enc64_def)

lemma dec_int_enc_int [simp]: "int32_ok x \<Longrightarrow> dec_int (enc_int x) = x"
  by (simp add: dec_int_def enc_int_def)

lemma enc32_dec32: "length bs = 4 \<Longrightarrow> enc32 (dec32 bs) = bs"
  using le_dec_bound [of bs] le_enc_dec [of bs]
  by (simp add: enc32_def dec32_def unat_of_nat)

section \<open>Masks and bits of byte strings\<close>

text \<open>The byte a masked write leaves: new bits where the mask is set, old ones elsewhere.\<close>

definition mask_byte :: "byte \<Rightarrow> byte \<Rightarrow> byte \<Rightarrow> byte" where
  "mask_byte new m old = (new AND m) OR (old AND NOT m)"

fun mask_bytes :: "byte list \<Rightarrow> byte list \<Rightarrow> byte list \<Rightarrow> byte list" where
  "mask_bytes (n # ns) (m # ms) (b # bs) = mask_byte n m b # mask_bytes ns ms bs"
| "mask_bytes _ _ bs = bs"

lemma mask_byte_bit: "bit (mask_byte new m old) i = (if bit m i then bit new i else bit old i)"
  by (auto simp: mask_byte_def bit_simps dest: bit_imp_le_length)

lemma mask_byte_ones [simp]: "mask_byte new (- 1) old = new"
  by (simp add: mask_byte_def)

lemma mask_byte_zero [simp]: "mask_byte new 0 old = old"
  by (simp add: mask_byte_def)

lemma length_mask_bytes [simp]: "length (mask_bytes ns ms bs) = length bs"
  by (induction ns ms bs rule: mask_bytes.induct) auto

lemma mask_bytes_nth:
  "length ns = length bs \<Longrightarrow> length ms = length bs \<Longrightarrow> i < length bs \<Longrightarrow>
    mask_bytes ns ms bs ! i = mask_byte (ns ! i) (ms ! i) (bs ! i)"
  by (induction ns ms bs arbitrary: i rule: mask_bytes.induct) (auto simp: nth_Cons split: nat.split)

definition get_bit :: "byte list \<Rightarrow> nat \<Rightarrow> bool" where
  "get_bit bs i = bit (bs ! (i div 8)) (i mod 8)"

lemma mask_bytes_bit:
  "length ns = length bs \<Longrightarrow> length ms = length bs \<Longrightarrow> i < 8 * length bs \<Longrightarrow>
    get_bit (mask_bytes ns ms bs) i = (if get_bit ms i then get_bit ns i else get_bit bs i)"
  by (simp add: get_bit_def mask_bytes_nth mask_byte_bit less_mult_imp_div_less mult.commute)

text \<open>Positions of bits: the byte and the bit within it.\<close>

lemma bit_pos:
  fixes p off :: nat
  shows "off \<le> p div 8 \<longleftrightarrow> 8 * off \<le> p" "p div 8 < n \<longleftrightarrow> p < 8 * n"
    "8 * off \<le> p \<Longrightarrow> (p - 8 * off) div 8 = p div 8 - off" "8 * off \<le> p \<Longrightarrow> (p - 8 * off) mod 8 = p mod 8"
proof -
  show "off \<le> p div 8 \<longleftrightarrow> 8 * off \<le> p" "p div 8 < n \<longleftrightarrow> p < 8 * n"
    by (auto simp: less_eq_div_iff_mult_less_eq div_less_iff_less_mult mult.commute)
  assume "8 * off \<le> p"
  then obtain q where "p = 8 * off + q" using le_Suc_ex by blast
  then show "(p - 8 * off) div 8 = p div 8 - off" "(p - 8 * off) mod 8 = p mod 8" by simp_all
qed

text \<open>The bits of a block after bytes of it have been replaced.\<close>

lemma mem_put_bits:
  assumes "mem_put b (int off) src = Some b'" and "p < 8 * length b"
  shows "get_bit b' p = (if 8 * off \<le> p \<and> p < 8 * (off + length src) then get_bit src (p - 8 * off) else get_bit b p)"
proof -
  have "p div 8 < length b" using assms(2) by (simp add: bit_pos)
  from mem_put_nth [OF assms(1) this] show ?thesis
    by (auto simp: get_bit_def bit_pos simp flip: bit_pos(1,2))
qed

lemma mask_put_bits:
  assumes "mem_put b (int off) (mask_bytes (take n d) (take n m) (take n (drop off b))) = Some b'"
    and "n \<le> length d" and "n \<le> length m" and "off + n \<le> length b" and "p < 8 * length b"
  shows "get_bit b' p =
    (if 8 * off \<le> p \<and> p < 8 * (off + n) \<and> get_bit m (p - 8 * off) then get_bit d (p - 8 * off) else get_bit b p)"
proof -
  have tk: "get_bit (take n xs) q = get_bit xs q" if "q < 8 * n" for xs q
    using that by (simp add: get_bit_def bit_pos)
  have dr: "get_bit (drop off b) q = get_bit b (8 * off + q)" if "8 * off + q < 8 * length b" for q
    using that by (simp add: get_bit_def)
  have "get_bit (mask_bytes (take n d) (take n m) (take n (drop off b))) (p - 8 * off) =
      (if get_bit m (p - 8 * off) then get_bit d (p - 8 * off) else get_bit b p)" if "8 * off \<le> p" "p < 8 * (off + n)"
    using that assms(2-5) by (subst mask_bytes_bit) (auto simp: tk dr)
  then show ?thesis using mem_put_bits [OF assms(1,5)] assms(2-4) by auto
qed

lemma set_bit_at:
  assumes "q < 8 * length d" and "p < 8 * length d"
  shows "get_bit (d[q div 8 := d ! (q div 8) OR push_bit (q mod 8) 1]) p \<longleftrightarrow> get_bit d p \<or> p = q"
proof (cases "p div 8 = q div 8")
  case True
  have "p mod 8 < 8" by simp
  moreover have "p mod 8 = q mod 8 \<longleftrightarrow> p = q" using True by (metis div_mod_decomp)
  ultimately show ?thesis using True assms by (auto simp: get_bit_def bit_pos bit_simps nth_list_update)
next
  case False
  then show ?thesis using assms by (auto simp: get_bit_def bit_pos nth_list_update)
qed

lemma get_bit_zeros [simp]: "p < 8 * n \<Longrightarrow> \<not> get_bit (replicate n 0) p"
  by (simp add: get_bit_def bit_pos)

section \<open>Error codes\<close>

text \<open>\<^verbatim>\<open>src/opendax.h\<close>, the codes the functions return.\<close>

abbreviation ERR_GENERIC :: int where "ERR_GENERIC \<equiv> - 1"
abbreviation ERR_NO_SOCKET :: int where "ERR_NO_SOCKET \<equiv> - 2"
abbreviation ERR_2BIG :: int where "ERR_2BIG \<equiv> - 3"
abbreviation ERR_ARG :: int where "ERR_ARG \<equiv> - 4"
abbreviation ERR_NOTFOUND :: int where "ERR_NOTFOUND \<equiv> - 5"
abbreviation ERR_MSG_SEND :: int where "ERR_MSG_SEND \<equiv> - 6"
abbreviation ERR_MSG_RECV :: int where "ERR_MSG_RECV \<equiv> - 7"
abbreviation ERR_TAG_BAD :: int where "ERR_TAG_BAD \<equiv> - 8"
abbreviation ERR_TAG_DUPL :: int where "ERR_TAG_DUPL \<equiv> - 9"
abbreviation ERR_ALLOC :: int where "ERR_ALLOC \<equiv> - 10"
abbreviation ERR_MSG_BAD :: int where "ERR_MSG_BAD \<equiv> - 11"
abbreviation ERR_DUPL :: int where "ERR_DUPL \<equiv> - 12"
abbreviation ERR_NO_INIT :: int where "ERR_NO_INIT \<equiv> - 13"
abbreviation ERR_TIMEOUT :: int where "ERR_TIMEOUT \<equiv> - 14"
abbreviation ERR_ILLEGAL :: int where "ERR_ILLEGAL \<equiv> - 15"
abbreviation ERR_INUSE :: int where "ERR_INUSE \<equiv> - 16"
abbreviation ERR_PARSE :: int where "ERR_PARSE \<equiv> - 17"
abbreviation ERR_ARBITRARY :: int where "ERR_ARBITRARY \<equiv> - 18"
abbreviation ERR_NOTNUMBER :: int where "ERR_NOTNUMBER \<equiv> - 19"
abbreviation ERR_EMPTY :: int where "ERR_EMPTY \<equiv> - 20"
abbreviation ERR_BADTYPE :: int where "ERR_BADTYPE \<equiv> - 21"
abbreviation ERR_BADINDEX :: int where "ERR_BADINDEX \<equiv> - 22"
abbreviation ERR_AUTH :: int where "ERR_AUTH \<equiv> - 23"
abbreviation ERR_OVERFLOW :: int where "ERR_OVERFLOW \<equiv> - 24"
abbreviation ERR_UNDERFLOW :: int where "ERR_UNDERFLOW \<equiv> - 25"
abbreviation ERR_DELETED :: int where "ERR_DELETED \<equiv> - 26"
abbreviation ERR_READONLY :: int where "ERR_READONLY \<equiv> - 27"
abbreviation ERR_WRITEONLY :: int where "ERR_WRITEONLY \<equiv> - 28"
abbreviation ERR_NOTIMPLEMENTED :: int where "ERR_NOTIMPLEMENTED \<equiv> - 29"

section \<open>Data types and attributes\<close>

text \<open>\<^verbatim>\<open>src/opendax.h\<close>: the low four bits of a base type are the logarithm of its size in bits.\<close>

abbreviation DAX_BOOL :: u32 where "DAX_BOOL \<equiv> 0x10"
abbreviation DAX_BYTE :: u32 where "DAX_BYTE \<equiv> 0x03"
abbreviation DAX_SINT :: u32 where "DAX_SINT \<equiv> 0x13"
abbreviation DAX_CHAR :: u32 where "DAX_CHAR \<equiv> 0x23"
abbreviation DAX_WORD :: u32 where "DAX_WORD \<equiv> 0x04"
abbreviation DAX_INT :: u32 where "DAX_INT \<equiv> 0x14"
abbreviation DAX_UINT :: u32 where "DAX_UINT \<equiv> 0x24"
abbreviation DAX_DWORD :: u32 where "DAX_DWORD \<equiv> 0x05"
abbreviation DAX_DINT :: u32 where "DAX_DINT \<equiv> 0x15"
abbreviation DAX_UDINT :: u32 where "DAX_UDINT \<equiv> 0x25"
abbreviation DAX_REAL :: u32 where "DAX_REAL \<equiv> 0x35"
abbreviation DAX_LWORD :: u32 where "DAX_LWORD \<equiv> 0x06"
abbreviation DAX_LINT :: u32 where "DAX_LINT \<equiv> 0x16"
abbreviation DAX_ULINT :: u32 where "DAX_ULINT \<equiv> 0x26"
abbreviation DAX_TIME :: u32 where "DAX_TIME \<equiv> 0x36"
abbreviation DAX_LREAL :: u32 where "DAX_LREAL \<equiv> 0x46"
abbreviation DAX_CUSTOM :: u32 where "DAX_CUSTOM \<equiv> 0x80000000"
abbreviation DAX_QUEUE :: u32 where "DAX_QUEUE \<equiv> 0x40000000"

abbreviation TAG_ATTR_READONLY :: u16 where "TAG_ATTR_READONLY \<equiv> 0x0001"
abbreviation TAG_ATTR_VIRTUAL :: u16 where "TAG_ATTR_VIRTUAL \<equiv> 0x0002"
abbreviation TAG_ATTR_RETAIN :: u16 where "TAG_ATTR_RETAIN \<equiv> 0x0004"
abbreviation TAG_ATTR_OVR_SET :: u16 where "TAG_ATTR_OVR_SET \<equiv> 0x0008"
abbreviation TAG_ATTR_SPECIAL :: u16 where "TAG_ATTR_SPECIAL \<equiv> 0x0010"
abbreviation TAG_ATTR_OWNED :: u16 where "TAG_ATTR_OWNED \<equiv> 0x0020"
abbreviation TAG_ATTR_MAPPING :: u16 where "TAG_ATTR_MAPPING \<equiv> 0x1000"
abbreviation TAG_ATTR_EVENT :: u16 where "TAG_ATTR_EVENT \<equiv> 0x2000"
abbreviation TAG_ATTR_OVERRIDE :: u16 where "TAG_ATTR_OVERRIDE \<equiv> 0x4000"

definition TYPESIZE :: "u32 \<Rightarrow> nat" where
  "TYPESIZE t = 2 ^ unat (t AND 0x0F)"

definition IS_CUSTOM :: "u32 \<Rightarrow> bool" where
  "IS_CUSTOM t \<longleftrightarrow> t AND DAX_CUSTOM \<noteq> 0"

definition IS_QUEUE :: "u32 \<Rightarrow> bool" where
  "IS_QUEUE t \<longleftrightarrow> t AND DAX_QUEUE \<noteq> 0"

text \<open>\<^verbatim>\<open>src/libcommon.h\<close>: a compound data type is its index in the table with the top bit set.\<close>

definition CDT_TO_INDEX :: "u32 \<Rightarrow> u32" where
  "CDT_TO_INDEX t = t AND NOT DAX_CUSTOM"

definition CDT_TO_TYPE :: "u32 \<Rightarrow> u32" where
  "CDT_TO_TYPE i = i OR DAX_CUSTOM"

definition base_types :: "u32 list" where
  "base_types = [DAX_BOOL, DAX_BYTE, DAX_SINT, DAX_CHAR, DAX_WORD, DAX_INT, DAX_UINT,
    DAX_DWORD, DAX_DINT, DAX_UDINT, DAX_TIME, DAX_REAL, DAX_LWORD, DAX_LINT, DAX_ULINT, DAX_LREAL]"

lemma IS_CUSTOM_bit: "IS_CUSTOM t \<longleftrightarrow> bit t 31"
proof -
  have "(t AND DAX_CUSTOM \<noteq> 0) = (t AND push_bit 31 1 \<noteq> 0)" by simp
  also have "\<dots> = bit t 31" by (simp add: bit_iff_and_push_bit_not_eq_0)
  finally show ?thesis by (simp add: IS_CUSTOM_def)
qed

lemma IS_CUSTOM_to_type [simp]: "IS_CUSTOM (CDT_TO_TYPE i)"
  by (simp add: IS_CUSTOM_def CDT_TO_TYPE_def bit.conj_disj_distrib2)

lemma CDT_TO_INDEX_TYPE:
  assumes "i < DAX_CUSTOM" shows "CDT_TO_INDEX (CDT_TO_TYPE i) = i"
proof -
  have "CDT_TO_INDEX (CDT_TO_TYPE i) = i AND NOT DAX_CUSTOM"
    by (simp add: CDT_TO_INDEX_def CDT_TO_TYPE_def bit.conj_disj_distrib2)
  also have "NOT DAX_CUSTOM = mask 31"
    by (simp add: mask_eq_exp_minus_1)
  also have "i AND mask 31 = i"
    using assms by (intro less_mask_eq) simp
  finally show ?thesis .
qed

end
