(* ===== verification/C_Strings.thy ===== *)
theory C_Strings
  imports Dax_Prelude
begin

text \<open>
  The string functions of the C library that the server and the client library call, on
  strings without their terminating zero: comparison, tokens, \<^verbatim>\<open>strtol\<close> and the printing of
  integers. Characters are compared by their codes, as \<^verbatim>\<open>strcmp\<close> does on unsigned bytes.
\<close>

section \<open>Comparison\<close>

definition ccode :: "char \<Rightarrow> nat" where
  "ccode c = of_char c"

lemma ccode_eq [simp]: "ccode a = ccode b \<longleftrightarrow> a = b"
  by (simp add: ccode_def)

fun strcmp :: "string \<Rightarrow> string \<Rightarrow> int" where
  "strcmp [] [] = 0"
| "strcmp [] (b # bs) = - 1"
| "strcmp (a # as) [] = 1"
| "strcmp (a # as) (b # bs) =
    (if a = b then strcmp as bs else if ccode a < ccode b then - 1 else 1)"

lemma strcmp_refl [simp]: "strcmp a a = 0"
  by (induction a) auto

lemma strcmp_0_iff [simp]: "strcmp a b = 0 \<longleftrightarrow> a = b"
  by (induction a b rule: strcmp.induct) auto

lemma strcmp_antisym: "strcmp b a = - strcmp a b"
proof (induction a b rule: strcmp.induct)
  case (4 a as b bs)
  have "a \<noteq> b \<Longrightarrow> ccode a \<noteq> ccode b" by simp
  with 4 show ?case by auto
qed auto

text \<open>The order of the sorted name index.\<close>

definition str_less :: "string \<Rightarrow> string \<Rightarrow> bool" where
  "str_less a b \<longleftrightarrow> strcmp a b < 0"

lemma strcmp_trans: "strcmp a b < 0 \<Longrightarrow> strcmp b c < 0 \<Longrightarrow> strcmp a c < 0"
proof (induction a b arbitrary: c rule: strcmp.induct)
  case (2 b bs)
  then show ?case by (cases c) auto
next
  case (4 a as b bs)
  then show ?case by (cases c) (auto split: if_splits)
qed auto

lemma str_less_trans: "str_less a b \<Longrightarrow> str_less b c \<Longrightarrow> str_less a c"
  unfolding str_less_def by (rule strcmp_trans)

lemma str_less_irrefl [simp]: "\<not> str_less a a"
  by (simp add: str_less_def)

lemma str_less_linear: "str_less a b \<or> a = b \<or> str_less b a"
proof -
  have "strcmp b a = - strcmp a b" by (rule strcmp_antisym)
  moreover have "strcmp a b = 0 \<longrightarrow> a = b" by simp
  ultimately show ?thesis unfolding str_less_def by linarith
qed

lemma strcmp_gt_iff: "0 < strcmp a b \<longleftrightarrow> str_less b a"
  using strcmp_antisym [of a b] by (auto simp: str_less_def)

definition tolower :: "char \<Rightarrow> char" where
  "tolower c = (if 65 \<le> ccode c \<and> ccode c \<le> 90 then char_of (ccode c + 32) else c)"

definition strcasecmp :: "string \<Rightarrow> string \<Rightarrow> int" where
  "strcasecmp a b = strcmp (map tolower a) (map tolower b)"

lemma strcasecmp_refl [simp]: "strcasecmp a a = 0"
  by (simp add: strcasecmp_def)

lemma strcasecmp_sym: "strcasecmp a b = 0 \<longleftrightarrow> strcasecmp b a = 0"
  by (auto simp: strcasecmp_def)

lemma strcasecmp_trans: "strcasecmp a b = 0 \<Longrightarrow> strcasecmp b c = 0 \<Longrightarrow> strcasecmp a c = 0"
  by (simp add: strcasecmp_def)

section \<open>Character classes\<close>

lemmas str_eval = tolower_def ccode_def char_of_def bit_0

definition isalpha :: "char \<Rightarrow> bool" where
  "isalpha c \<longleftrightarrow> 65 \<le> ccode c \<and> ccode c \<le> 90 \<or> 97 \<le> ccode c \<and> ccode c \<le> 122"

definition isdigit :: "char \<Rightarrow> bool" where
  "isdigit c \<longleftrightarrow> 48 \<le> ccode c \<and> ccode c \<le> 57"

definition isspace :: "char \<Rightarrow> bool" where
  "isspace c \<longleftrightarrow> ccode c = 32 \<or> 9 \<le> ccode c \<and> ccode c \<le> 13"

section \<open>Tokens\<close>

text \<open>
  The tokens that successive calls of \<^verbatim>\<open>strtok_r\<close> with a one character delimiter return:
  the maximal runs of other characters.
\<close>

function strtok_all :: "char \<Rightarrow> string \<Rightarrow> string list" where
  "strtok_all d s =
    (case dropWhile (\<lambda>x. x = d) s of
       [] \<Rightarrow> []
     | c # cs \<Rightarrow> (c # takeWhile (\<lambda>x. x \<noteq> d) cs) # strtok_all d (dropWhile (\<lambda>x. x \<noteq> d) cs))"
  by pat_completeness auto
termination
proof (relation "measure (\<lambda>(d, s). length s)")
  fix d s c cs
  assume eq: "dropWhile (\<lambda>x. x = d) s = c # cs"
  have "length (dropWhile (\<lambda>x. x \<noteq> d) cs) \<le> length cs" by (rule length_dropWhile_le)
  also have "length cs < length (dropWhile (\<lambda>x. x = d) s)" using eq by simp
  also have "\<dots> \<le> length s" by (rule length_dropWhile_le)
  finally show "((d, dropWhile (\<lambda>x. x \<noteq> d) cs), (d, s)) \<in> measure (\<lambda>(d, s). length s)" by simp
qed simp

declare strtok_all.simps [simp del]

lemma strtok_all_Nil [simp]: "strtok_all d [] = []"
  by (simp add: strtok_all.simps)

lemma strtok_all_delim [simp]: "strtok_all d (d # s) = strtok_all d s"
  by (subst (1 2) strtok_all.simps) simp

text \<open>A token that is not empty and holds no delimiter, up to the end or the next delimiter.\<close>

lemma strtok_all_single:
  assumes "t \<noteq> []" and "d \<notin> set t"
  shows "strtok_all d t = [t]"
proof -
  from assms obtain c cs where t: "t = c # cs" "c \<noteq> d" "d \<notin> set cs"
    by (cases t) auto
  have "\<forall>x\<in>set cs. x \<noteq> d" using t(3) by auto
  then have "takeWhile (\<lambda>x. x \<noteq> d) cs = cs" "dropWhile (\<lambda>x. x \<noteq> d) cs = []"
    by (simp_all add: takeWhile_eq_all_conv)
  with t show ?thesis by (subst strtok_all.simps) (simp del: dropWhile_eq_Nil_conv)
qed

lemma strtok_all_Cons:
  assumes "t \<noteq> []" and "d \<notin> set t"
  shows "strtok_all d (t @ d # s) = t # strtok_all d s"
proof -
  from assms obtain c cs where t: "t = c # cs" "c \<noteq> d" "d \<notin> set cs"
    by (cases t) auto
  then have "takeWhile (\<lambda>x. x \<noteq> d) (cs @ d # s) = cs"
    and "dropWhile (\<lambda>x. x \<noteq> d) (cs @ d # s) = d # s"
    by (auto simp: takeWhile_append dropWhile_append)
  with t show ?thesis by (subst strtok_all.simps) simp
qed

lemma strtok_all_concat:
  assumes "t \<noteq> []" and "d \<notin> set t" and "\<forall>u\<in>set ts. u \<noteq> [] \<and> d \<notin> set u"
  shows "strtok_all d (t @ concat (map (\<lambda>u. d # u) ts)) = t # ts"
  using assms
proof (induction ts arbitrary: t)
  case Nil
  then show ?case by (simp add: strtok_all_single)
next
  case (Cons u ts)
  then show ?case by (simp add: strtok_all_Cons)
qed

section \<open>Numbers\<close>

text \<open>
  \<^verbatim>\<open>strtol(s, NULL, 0)\<close>: spaces, a sign, the prefix \<^verbatim>\<open>0x\<close> or \<^verbatim>\<open>0\<close>, then as many digits of the
  base as there are; the value is clamped to a 64 bit \<^verbatim>\<open>long\<close>.
\<close>

definition digit_val :: "char \<Rightarrow> nat" where
  "digit_val c =
    (if isdigit c then ccode c - 48
     else if 97 \<le> ccode c \<and> ccode c \<le> 122 then ccode c - 87
     else if 65 \<le> ccode c \<and> ccode c \<le> 90 then ccode c - 55 else 99)"

fun digits_val :: "nat \<Rightarrow> nat \<Rightarrow> string \<Rightarrow> nat" where
  "digits_val base acc [] = acc"
| "digits_val base acc (c # cs) =
    (if digit_val c < base then digits_val base (acc * base + digit_val c) cs else acc)"

definition clamp_long :: "int \<Rightarrow> int" where
  "clamp_long x = max (- 9223372036854775808) (min 9223372036854775807 x)"

definition strtol_mag :: "string \<Rightarrow> nat" where
  "strtol_mag s =
    (case s of
       a # b # c # cs \<Rightarrow>
         if ccode a = 48 \<and> (ccode b = 120 \<or> ccode b = 88) \<and> digit_val c < 16
         then digits_val 16 0 (c # cs)
         else if ccode a = 48 then digits_val 8 0 s else digits_val 10 0 s
     | a # _ \<Rightarrow> if ccode a = 48 then digits_val 8 0 s else digits_val 10 0 s
     | [] \<Rightarrow> 0)"

definition strtol0 :: "string \<Rightarrow> int" where
  "strtol0 s =
    clamp_long
     (case dropWhile isspace s of
        [] \<Rightarrow> 0
      | c # cs \<Rightarrow>
          if ccode c = 45 then - int (strtol_mag cs)
          else if ccode c = 43 then int (strtol_mag cs)
          else int (strtol_mag (c # cs)))"

text \<open>Decimal printing, \<^verbatim>\<open>%d\<close>.\<close>

definition digit_char :: "nat \<Rightarrow> char" where
  "digit_char n = char_of (48 + n)"

fun show_nat :: "nat \<Rightarrow> string" where
  "show_nat n = (if n < 10 then [digit_char n] else show_nat (n div 10) @ [digit_char (n mod 10)])"

declare show_nat.simps [simp del]

definition show_int :: "int \<Rightarrow> string" where
  "show_int x = (if x < 0 then CHR ''-'' # show_nat (nat (- x)) else show_nat (nat x))"

lemma ccode_digit_char [simp]: "n < 10 \<Longrightarrow> ccode (digit_char n) = 48 + n"
  by (simp add: ccode_def digit_char_def)

lemma digit_val_digit_char [simp]: "n < 10 \<Longrightarrow> digit_val (digit_char n) = n"
  by (simp add: digit_val_def isdigit_def)

lemma isdigit_digit_char [simp]: "n < 10 \<Longrightarrow> isdigit (digit_char n)"
  by (simp add: isdigit_def)

lemma show_nat_digits: "\<forall>c\<in>set (show_nat n). isdigit c"
proof (induction n rule: show_nat.induct)
  case (1 n)
  then show ?case by (subst show_nat.simps) auto
qed

lemma show_nat_ne [simp]: "show_nat n \<noteq> []"
  by (subst show_nat.simps) simp

lemma digits_val_append:
  "\<forall>c\<in>set a. digit_val c < base \<Longrightarrow>
    digits_val base acc (a @ b) = digits_val base (digits_val base acc a) b"
  by (induction a arbitrary: acc) auto

lemma digit_val_isdigit: "isdigit c \<Longrightarrow> digit_val c < 10"
  by (auto simp: digit_val_def isdigit_def)

lemma digits_val_show_nat: "digits_val 10 0 (show_nat n) = n"
proof (induction n rule: show_nat.induct)
  case (1 n)
  show ?case
  proof (cases "n < 10")
    case True
    then show ?thesis by (subst show_nat.simps) simp
  next
    case False
    have "\<forall>c\<in>set (show_nat (n div 10)). digit_val c < 10"
      using show_nat_digits [of "n div 10"] digit_val_isdigit by blast
    with False 1 show ?thesis
      by (subst show_nat.simps) (simp add: digits_val_append)
  qed
qed

text \<open>A positive number has no leading zero, so \<^verbatim>\<open>strtol\<close> does not take it for octal.\<close>

lemma show_nat_hd: "0 < n \<Longrightarrow> ccode (hd (show_nat n)) \<noteq> 48"
proof (induction n rule: show_nat.induct)
  case (1 n)
  show ?case
  proof (cases "n < 10")
    case True
    with 1(2) show ?thesis by (subst show_nat.simps) simp
  next
    case False
    with 1(1) have "ccode (hd (show_nat (n div 10))) \<noteq> 48" by simp
    with False show ?thesis by (subst show_nat.simps) (simp add: hd_append)
  qed
qed

lemma strtol_mag_dec: "s \<noteq> [] \<Longrightarrow> ccode (hd s) \<noteq> 48 \<Longrightarrow> strtol_mag s = digits_val 10 0 s"
  by (auto simp: strtol_mag_def split: list.split)

lemma strtol_mag_show_nat: "strtol_mag (show_nat n) = n"
proof (cases "n = 0")
  case True
  then show ?thesis
    by (simp add: show_nat.simps [of 0] strtol_mag_def)
next
  case False
  then show ?thesis
    using show_nat_hd [of n] by (simp add: strtol_mag_dec digits_val_show_nat)
qed

lemma strtol0_show_nat: "n < 2 ^ 63 \<Longrightarrow> strtol0 (show_nat n) = int n"
proof -
  assume n: "n < 2 ^ 63"
  obtain c cs where cs: "show_nat n = c # cs" by (cases "show_nat n") auto
  then have c: "isdigit c" using show_nat_digits [of n] by auto
  then have "\<not> isspace c" "ccode c \<noteq> 45" "ccode c \<noteq> 43"
    by (auto simp: isspace_def isdigit_def)
  then have "strtol0 (show_nat n) = clamp_long (int (strtol_mag (show_nat n)))"
    by (simp add: strtol0_def cs)
  with n show ?thesis by (simp add: strtol_mag_show_nat clamp_long_def)
qed

end
