(* ===== verification/Server_State.thy ===== *)
theory Server_State
  imports C_Strings
begin

text \<open>
  The state of the tag server: the structures of \<^verbatim>\<open>tagbase.h\<close>, \<^verbatim>\<open>daxtypes.h\<close>,
  \<^verbatim>\<open>virtualtag.h\<close> and \<^verbatim>\<open>opendax.h\<close> as records, the file-level variables of the server's
  files as one record \<^verbatim>\<open>server\<close>, and what the operations take from their surroundings
  (allocator, clock, sockets, contents of memory nobody wrote) as the record \<^verbatim>\<open>env\<close>.
  A linked list is a HOL list, a pointer that may be null an option.
\<close>

section \<open>Structures\<close>

text \<open>\<^verbatim>\<open>struct tag_handle\<close>: a part of a tag.\<close>

record tag_handle =
  h_index :: int
  h_byte :: u32
  h_bit :: byte
  h_count :: u32
  h_size :: u32
  h_type :: u32

text \<open>Compound data types, \<^verbatim>\<open>struct cdt_member\<close> and \<^verbatim>\<open>struct datatype\<close>.\<close>

record cdt_member =
  m_name :: string
  m_type :: u32
  m_count :: u32

record cdt =
  d_name :: string
  d_flags :: byte
  d_refcount :: u32
  d_members :: "cdt_member list"

text \<open>Modules are objects that events point to: a pointer to one is a number.\<close>

type_synonym mod_ptr = nat

record dax_event =
  e_id :: int
  e_byte :: int
  e_bit :: byte
  e_count :: int
  e_size :: u32
  e_options :: u32
  e_datatype :: u32
  e_eventtype :: int
  e_data :: "byte list option"
  e_test :: "byte list option"
  e_notify :: mod_ptr

record dax_datamap =
  p_id :: int
  p_source :: tag_handle
  p_dest :: tag_handle
  p_mask :: "byte list option"

text \<open>
  A tag queue. The array holds pointers to item blocks; a pointer can be null, point to a block
  of \<^verbatim>\<open>q_mem\<close>, or be memory that was never written after a \<^verbatim>\<open>realloc\<close>. The blocks are kept
  apart from the pointers because two pointers may name the same block.
\<close>

datatype slot = Null | Ptr nat | Uninit

record tag_queue =
  q_type :: u32
  q_count :: u32
  q_size :: u32
  q_qsize :: int
  q_qcount :: int
  q_qread :: int
  q_queue :: "slot list"
  q_mem :: "byte list list"

text \<open>The functions a virtual tag can point to, and what the data pointer of a tag refers to.\<close>

datatype vfunction = VF_null | VF_server_time | VF_get_module_tag_name | VF_read_queue | VF_write_queue

datatype tag_data =
    D_null
  | D_block "byte list"
  | D_virt vfunction vfunction "tag_queue option"

record tag_db =
  t_type :: u32
  t_attr :: u16
  t_count :: u32
  t_name :: "string option"
  t_fd :: int
  t_nextevent :: int
  t_nextmap :: int
  t_events :: "dax_event list"
  t_mappings :: "dax_datamap list"
  t_data :: tag_data
  t_omask :: "byte list option"
  t_odata :: "byte list option"

text \<open>A zeroed entry, as \<^verbatim>\<open>xmalloc\<close> leaves it.\<close>

definition tag_zero :: tag_db where
  "tag_zero = \<lparr>t_type = 0, t_attr = 0, t_count = 0, t_name = None, t_fd = 0, t_nextevent = 0,
     t_nextmap = 0, t_events = [], t_mappings = [], t_data = D_null, t_omask = None, t_odata = None\<rparr>"

text \<open>Tag groups and modules, \<^verbatim>\<open>daxtypes.h\<close>.\<close>

record tag_group =
  g_flags :: byte
  g_size :: u32
  g_count :: byte
  g_members :: "tag_handle list option"

record dax_module =
  mod_name :: string
  mod_host :: u32
  mod_flags :: u32
  mod_fd :: int
  mod_tagindex :: int
  mod_timeout :: u32
  mod_event_count :: int
  mod_tag_groups :: "tag_group list option"
  mod_groups_size :: u32

text \<open>A call of the tag retention store (\<^verbatim>\<open>retain.c\<close>), which lies outside the model.\<close>

datatype ret_call = Ret_add int | Ret_del int | Ret_write int

section \<open>The server\<close>

text \<open>
  The file-level variables. \<^verbatim>\<open>cdts\<close> lists the entries below \<^verbatim>\<open>_datatype_index\<close>.
  \<^verbatim>\<open>modules\<close> is the circular list of modules read along the \<^verbatim>\<open>next\<close> pointers from
  \<^verbatim>\<open>_current_mod\<close> (theory \<^verbatim>\<open>Module_Ring\<close> has the pointers themselves); \<^verbatim>\<open>mod_heap\<close> maps a
  module pointer to the live object. \<^verbatim>\<open>sent\<close> logs what was written to the sockets.
\<close>

record server =
  db :: "tag_db list"
  name_index :: "(string \<times> int) list"
  indexcount :: int
  tagnextindex :: int
  tagcount :: int
  ovrdinstalled :: int
  ovrdset :: int
  dbsize :: int
  cdts :: "cdt list"
  datatype_size :: nat
  module_tag_type :: u32
  modules :: "mod_ptr list"
  mod_heap :: "mod_ptr \<Rightarrow> dax_module option"
  module_count :: int
  mod_uuid :: int
  sent :: "(int \<times> byte list) list"
  retained :: "ret_call list"

section \<open>The surroundings\<close>

text \<open>
  Each call site of an allocator can succeed or fail. \<^verbatim>\<open>junk\<close> are the bytes of memory that was
  allocated or read beyond a string but never written, \<^verbatim>\<open>junk_tag\<close> the entries of the half of
  the tag array that \<^verbatim>\<open>realloc\<close> adds, \<^verbatim>\<open>fsub32\<close>, \<^verbatim>\<open>fsub64\<close>, \<^verbatim>\<open>fadd32\<close> and
  \<^verbatim>\<open>fadd64\<close> subtraction and addition of the floating point unit on the encodings of \<^verbatim>\<open>float\<close> and \<^verbatim>\<open>double\<close>.
\<close>

datatype alloc_site =
    A_db | A_index | A_datatypes | A_grow_index | A_grow_db | A_index_name | A_tag_data | A_tag_realloc
  | A_queue | A_queue_array | A_queue_vf | A_queue_grow | A_queue_item
  | A_virt | A_cdt_str | A_cdt_name | A_cdt_member | A_cdt_grow | A_serialize
  | A_odata | A_omask | A_event | A_event_data | A_event_test
  | A_map | A_map_mask | A_map_data | A_module | A_groups | A_groups_grow | A_group_members

record env =
  alloc :: "alloc_site \<Rightarrow> bool"
  junk :: "nat \<Rightarrow> byte"
  junk_tag :: "nat \<Rightarrow> tag_db"
  clock :: u64
  xwrite_ok :: "int \<Rightarrow> bool"
  peer_host :: "int \<Rightarrow> u32"
  tag_exclude :: "string list"
  fsub32 :: "u32 \<Rightarrow> u32 \<Rightarrow> u32"
  fsub64 :: "u64 \<Rightarrow> u64 \<Rightarrow> u64"
  fadd32 :: "u32 \<Rightarrow> u32 \<Rightarrow> u32"
  fadd64 :: "u64 \<Rightarrow> u64 \<Rightarrow> u64"

text \<open>Surroundings in which every allocation and every write succeeds.\<close>

definition alloc_all :: "env \<Rightarrow> bool" where
  "alloc_all E \<longleftrightarrow> (\<forall>a. alloc E a)"

definition env0 :: env where
  "env0 = \<lparr>alloc = (\<lambda>_. True), junk = (\<lambda>_. 0), junk_tag = (\<lambda>_. tag_zero), clock = 0,
     xwrite_ok = (\<lambda>_. True), peer_host = (\<lambda>_. 0), tag_exclude = [],
     fsub32 = (-), fsub64 = (-), fadd32 = (+), fadd64 = (+)\<rparr>"

lemma alloc_all_env0 [simp]: "alloc_all env0"
  by (simp add: alloc_all_def env0_def)

lemma alloc_allD [simp]: "alloc_all E \<Longrightarrow> alloc E a"
  by (simp add: alloc_all_def)

text \<open>A server before initialization, with an array of \<open>n\<close> zeroed tags.\<close>

definition server_empty :: "nat \<Rightarrow> server" where
  "server_empty n = \<lparr>db = replicate n tag_zero, name_index = replicate n ([], 0), indexcount = 0,
     tagnextindex = 0, tagcount = 0, ovrdinstalled = 0, ovrdset = 0, dbsize = int n,
     cdts = [], datatype_size = 10, module_tag_type = 0, modules = [], mod_heap = (\<lambda>_. None),
     module_count = 0, mod_uuid = 0, sent = [], retained = []\<rparr>"

text \<open>\<^verbatim>\<open>xwrite\<close>: everything is written, or the socket fails and \<^verbatim>\<open>-1\<close> is returned.\<close>

definition xwrite :: "env \<Rightarrow> server \<Rightarrow> int \<Rightarrow> byte list \<Rightarrow> int \<times> server" where
  "xwrite E s fd buff =
    (if xwrite_ok E fd then (int (length buff), s\<lparr>sent := sent s @ [(fd, buff)]\<rparr>) else (- 1, s))"

section \<open>Access to one tag\<close>

text \<open>
  \<^verbatim>\<open>_db[i]\<close>: undefined outside the array. The whole array of \<^verbatim>\<open>_dbsize\<close> entries is there, also
  the entries no tag uses yet.
\<close>

definition get_tag :: "server \<Rightarrow> int \<Rightarrow> tag_db option" where
  "get_tag s i = arr_get (db s) i"

definition set_tag :: "server \<Rightarrow> int \<Rightarrow> tag_db \<Rightarrow> server" where
  "set_tag s i t = s\<lparr>db := (db s)[nat i := t]\<rparr>"

definition attr_set :: "u16 \<Rightarrow> u16 \<Rightarrow> bool" where
  "attr_set a f \<longleftrightarrow> a AND f \<noteq> 0"

lemma get_tag_set_same [simp]:
  "0 \<le> i \<Longrightarrow> i < int (length (db s)) \<Longrightarrow> get_tag (set_tag s i t) i = Some t"
  by (simp add: get_tag_def set_tag_def arr_get_def)

lemma get_tag_set_other [simp]:
  "0 \<le> i \<Longrightarrow> j \<noteq> i \<Longrightarrow> get_tag (set_tag s i t) j = get_tag s j"
  by (auto simp: get_tag_def set_tag_def arr_get_def nth_list_update)

lemma get_tag_Some_range: "get_tag s i = Some t \<Longrightarrow> 0 \<le> i \<and> i < int (length (db s))"
  by (auto simp: get_tag_def arr_get_Some_iff)

lemma set_tag_fields [simp]:
  "name_index (set_tag s i t) = name_index s" "indexcount (set_tag s i t) = indexcount s"
  "tagnextindex (set_tag s i t) = tagnextindex s" "tagcount (set_tag s i t) = tagcount s"
  "ovrdinstalled (set_tag s i t) = ovrdinstalled s" "ovrdset (set_tag s i t) = ovrdset s"
  "dbsize (set_tag s i t) = dbsize s" "cdts (set_tag s i t) = cdts s"
  "datatype_size (set_tag s i t) = datatype_size s"
  "module_tag_type (set_tag s i t) = module_tag_type s" "modules (set_tag s i t) = modules s"
  "mod_heap (set_tag s i t) = mod_heap s" "module_count (set_tag s i t) = module_count s"
  "mod_uuid (set_tag s i t) = mod_uuid s" "sent (set_tag s i t) = sent s"
  "retained (set_tag s i t) = retained s" "length (db (set_tag s i t)) = length (db s)"
  by (simp_all add: set_tag_def)

lemma xwrite_fields [simp]:
  "db (snd (xwrite E s fd b)) = db s" "name_index (snd (xwrite E s fd b)) = name_index s"
  "indexcount (snd (xwrite E s fd b)) = indexcount s"
  "tagnextindex (snd (xwrite E s fd b)) = tagnextindex s"
  "tagcount (snd (xwrite E s fd b)) = tagcount s"
  "ovrdinstalled (snd (xwrite E s fd b)) = ovrdinstalled s"
  "ovrdset (snd (xwrite E s fd b)) = ovrdset s" "dbsize (snd (xwrite E s fd b)) = dbsize s"
  "cdts (snd (xwrite E s fd b)) = cdts s"
  "datatype_size (snd (xwrite E s fd b)) = datatype_size s"
  "module_tag_type (snd (xwrite E s fd b)) = module_tag_type s"
  "modules (snd (xwrite E s fd b)) = modules s" "mod_heap (snd (xwrite E s fd b)) = mod_heap s"
  "module_count (snd (xwrite E s fd b)) = module_count s"
  "mod_uuid (snd (xwrite E s fd b)) = mod_uuid s" "retained (snd (xwrite E s fd b)) = retained s"
  by (simp_all add: xwrite_def)

end
