(* ===== verification/Data_Types.thy ===== *)
theory Data_Types
  imports Server_State
begin

text \<open>
  The data types of the server (\<^verbatim>\<open>tagbase.c\<close>): which type codes are valid, the size of a type,
  the compound data types a client creates from a definition string and their serialization.
\<close>

section \<open>Names and type codes\<close>

text \<open>\<^verbatim>\<open>_validate_name\<close>\<close>

definition DAX_TAGNAME_SIZE :: nat where
  "DAX_TAGNAME_SIZE = 32"

definition name_char :: "char \<Rightarrow> bool" where
  "name_char c \<longleftrightarrow> isalpha c \<or> c = CHR ''_'' \<or> isdigit c"

definition validate_name :: "string \<Rightarrow> int" where
  "validate_name name =
    (if DAX_TAGNAME_SIZE < length name then ERR_2BIG
     else case name of
       [] \<Rightarrow> ERR_ARG
     | c # cs \<Rightarrow>
         if \<not> isalpha c \<and> c \<noteq> CHR ''_'' then ERR_ARG
         else if list_all name_char cs then 0 else ERR_ARG)"

text \<open>\<^verbatim>\<open>_checktype\<close>: the queue bit is ignored.\<close>

definition drop_queue :: "u32 \<Rightarrow> u32" where
  "drop_queue t = t AND NOT DAX_QUEUE"

definition checktype :: "cdt list \<Rightarrow> u32 \<Rightarrow> int" where
  "checktype dts t0 =
    (let t = drop_queue t0
     in if t \<in> set base_types then 0
        else if IS_CUSTOM t \<and> unat (CDT_TO_INDEX t) < length dts then 0
        else ERR_NOTFOUND)"

text \<open>The names of the base types, in the order \<^verbatim>\<open>cdt_get_type\<close> compares them.\<close>

definition base_names :: "(string \<times> u32) list" where
  "base_names =
    [(''BOOL'', DAX_BOOL), (''BYTE'', DAX_BYTE), (''SINT'', DAX_SINT), (''CHAR'', DAX_CHAR),
     (''WORD'', DAX_WORD), (''INT'', DAX_INT), (''UINT'', DAX_UINT), (''DWORD'', DAX_DWORD),
     (''DINT'', DAX_DINT), (''UDINT'', DAX_UDINT), (''TIME'', DAX_TIME), (''REAL'', DAX_REAL),
     (''LWORD'', DAX_LWORD), (''LINT'', DAX_LINT), (''ULINT'', DAX_ULINT), (''LREAL'', DAX_LREAL)]"

fun find_cdt :: "nat \<Rightarrow> cdt list \<Rightarrow> string \<Rightarrow> nat option" where
  "find_cdt n [] name = None"
| "find_cdt n (d # ds) name =
    (if strcasecmp name (d_name d) = 0 then Some n else find_cdt (Suc n) ds name)"

definition cdt_get_type :: "cdt list \<Rightarrow> string \<Rightarrow> u32" where
  "cdt_get_type dts name =
    (case find (\<lambda>(b, t). strcasecmp name b = 0) base_names of
       Some (b, t) \<Rightarrow> t
     | None \<Rightarrow> (case find_cdt 0 dts name of Some n \<Rightarrow> CDT_TO_TYPE (of_nat n) | None \<Rightarrow> 0))"

definition cdt_get_name :: "cdt list \<Rightarrow> u32 \<Rightarrow> string option" where
  "cdt_get_name dts t =
    (if IS_CUSTOM t then map_option d_name (arr_get dts (int_of_u32 (CDT_TO_INDEX t)))
     else map_option fst (find (\<lambda>(b, u). u = t) base_names))"

text \<open>\<^verbatim>\<open>cdt_get_entry\<close>: the entry of the table (of \<^verbatim>\<open>cap\<close> allocated entries) it points to.
  An index of 0 is taken for an error.\<close>

definition cdt_get_entry :: "nat \<Rightarrow> u32 \<Rightarrow> nat option" where
  "cdt_get_entry cap t =
    (let i = unat (CDT_TO_INDEX t)
     in if IS_CUSTOM t \<and> 0 < i \<and> i < cap then Some i else None)"

section \<open>The size of a type\<close>

text \<open>
  \<^verbatim>\<open>type_size\<close> walks the members and keeps the bit position in an \<^verbatim>\<open>unsigned int\<close>: BOOLs
  are packed, everything else starts at the next byte. The recursion over member types is
  bounded by fuel; \<^verbatim>\<open>type_size_fuel_enough\<close> shows that the number of types is enough, since a
  member's type was created before the type it belongs to.
\<close>

definition align8 :: "u32 \<Rightarrow> u32" where
  "align8 pos = (if pos mod 8 \<noteq> 0 then (pos OR 7) + 1 else pos)"

fun members_pos :: "(u32 \<Rightarrow> int option) \<Rightarrow> u32 \<Rightarrow> cdt_member list \<Rightarrow> u32 option" where
  "members_pos f pos [] = Some pos"
| "members_pos f pos (m # ms) =
    (if m_type m = DAX_BOOL then members_pos f (pos + m_count m) ms
     else if IS_CUSTOM (m_type m) then
       (case f (m_type m) of
          Some r \<Rightarrow>
            if 0 < r then members_pos f (align8 pos + (u32_of r * m_count m) * 8) ms else None
        | None \<Rightarrow> None)
     else members_pos f (align8 pos + of_nat (TYPESIZE (m_type m)) * m_count m) ms)"

primrec type_size_fuel :: "nat \<Rightarrow> cdt list \<Rightarrow> u32 \<Rightarrow> int option" where
  "type_size_fuel 0 dts t = None"
| "type_size_fuel (Suc k) dts t =
    (if checktype dts t \<noteq> 0 then Some (checktype dts t)
     else if IS_CUSTOM t then
       do {
         d \<leftarrow> arr_get dts (uint (CDT_TO_INDEX t));
         pos \<leftarrow> members_pos (type_size_fuel k dts) 0 (d_members d);
         Some (if pos \<noteq> 0 then int_of_u32 ((pos - 1) div 8 + 1) else 0)
       }
     else Some (int (TYPESIZE t div 8)))"

definition type_size :: "cdt list \<Rightarrow> u32 \<Rightarrow> int option" where
  "type_size dts t = type_size_fuel (Suc (length dts)) dts t"

section \<open>Creating and serializing compound types\<close>

text \<open>\<^verbatim>\<open>cdt_append\<close>: parse one \<^verbatim>\<open>name,type,count\<close> and append the member.\<close>

definition cdt_append :: "env \<Rightarrow> cdt list \<Rightarrow> cdt_member list \<Rightarrow> string \<Rightarrow> int + cdt_member list" where
  "cdt_append E dts ms str =
    (case strtok_all CHR '','' str of
       name # typestr # countstr # _ \<Rightarrow>
         if validate_name name \<noteq> 0 then Inl (validate_name name)
         else if cdt_get_type dts typestr = 0 then Inl ERR_ARG
         else if list_ex (\<lambda>m. strcasecmp name (m_name m) = 0) ms then Inl ERR_DUPL
         else if \<not> alloc E A_cdt_member then Inl ERR_ALLOC
         else Inr (ms @ [\<lparr>m_name = name, m_type = cdt_get_type dts typestr,
                          m_count = u32_of (strtol0 countstr)\<rparr>])
     | _ \<Rightarrow> Inl ERR_ARG)"

fun cdt_append_all ::
  "env \<Rightarrow> cdt list \<Rightarrow> cdt_member list \<Rightarrow> string list \<Rightarrow> int + cdt_member list" where
  "cdt_append_all E dts ms [] = Inr ms"
| "cdt_append_all E dts ms (str # strs) =
    (case cdt_append E dts ms str of
       Inl e \<Rightarrow> Inl e
     | Inr ms' \<Rightarrow> cdt_append_all E dts ms' strs)"

text \<open>\<^verbatim>\<open>cdt_add_member\<close>: the same with the type given by its code.\<close>

definition cdt_add_member ::
  "env \<Rightarrow> cdt list \<Rightarrow> cdt \<Rightarrow> string \<Rightarrow> u32 \<Rightarrow> u32 \<Rightarrow> int \<times> cdt" where
  "cdt_add_member E dts d name type count =
    (if validate_name name \<noteq> 0 then (validate_name name, d)
     else if checktype dts type \<noteq> 0 then (ERR_ARG, d)
     else if list_ex (\<lambda>m. strcasecmp name (m_name m) = 0) (d_members d) then (ERR_DUPL, d)
     else if \<not> alloc E A_cdt_member then (ERR_ALLOC, d)
     else (0, d\<lparr>d_members := d_members d @ [\<lparr>m_name = name, m_type = type, m_count = count\<rparr>]\<rparr>))"

text \<open>\<^verbatim>\<open>serialize_datatype\<close>: the size it returns counts the terminating zero.\<close>

fun serialize_members :: "cdt list \<Rightarrow> cdt_member list \<Rightarrow> string option" where
  "serialize_members dts [] = Some []"
| "serialize_members dts (m # ms) =
    do {
      tn \<leftarrow> cdt_get_name dts (m_type m);
      rest \<leftarrow> serialize_members dts ms;
      Some (CHR '':'' # m_name m @ CHR '','' # tn @ CHR '','' # show_int (int_of_u32 (m_count m)) @ rest)
    }"

definition serialize_datatype :: "env \<Rightarrow> cdt list \<Rightarrow> u32 \<Rightarrow> (int + string) option" where
  "serialize_datatype E dts t =
    (let i = CDT_TO_INDEX t
     in if length dts \<le> unat i then Some (Inl ERR_ARG)
        else do {
          rest \<leftarrow> serialize_members dts (d_members (dts ! unat i));
          Some (if alloc E A_serialize then Inr (d_name (dts ! unat i) @ rest) else Inl ERR_ALLOC)
        })"

text \<open>
  \<^verbatim>\<open>cdt_create\<close>: the type code (0 on failure), what is stored through \<^verbatim>\<open>error\<close> (nothing when an
  identical type exists) and the new table and capacity. When \<^verbatim>\<open>serialize_datatype\<close> fails
  the string pointer it should have set is used all the same; a string without a token makes
  \<^verbatim>\<open>strtok_r\<close> return the null pointer that \<^verbatim>\<open>_validate_name\<close> then reads.
\<close>

definition DAX_DATATYPE_SIZE :: nat where
  "DAX_DATATYPE_SIZE = 10"

definition cdt_install :: "env \<Rightarrow> server \<Rightarrow> string \<Rightarrow> cdt_member list \<Rightarrow> u32 \<times> int option \<times> server" where
  "cdt_install E s name ms =
    (if length (cdts s) = datatype_size s \<and> \<not> alloc E A_cdt_grow then (0, Some ERR_ALLOC, s)
     else
       (CDT_TO_TYPE (of_nat (length (cdts s))), Some 0,
        s\<lparr>cdts := cdts s @ [\<lparr>d_name = name, d_flags = 0, d_refcount = 0, d_members = ms\<rparr>],
          datatype_size := (if length (cdts s) = datatype_size s
            then datatype_size s + DAX_DATATYPE_SIZE else datatype_size s)\<rparr>))"

definition cdt_create ::
  "env \<Rightarrow> server \<Rightarrow> string \<Rightarrow> (u32 \<times> int option \<times> server) option" where
  "cdt_create E s str =
    (if \<not> alloc E A_cdt_str then Some (0, Some ERR_ALLOC, s)
     else case strtok_all CHR '':'' str of
       [] \<Rightarrow> None
     | name # strs \<Rightarrow>
         if validate_name name \<noteq> 0 then Some (0, Some (validate_name name), s)
         else if cdt_get_type (cdts s) name \<noteq> 0 then
           (case serialize_datatype E (cdts s) (cdt_get_type (cdts s) name) of
              Some (Inr serial) \<Rightarrow>
                if serial \<noteq> str then Some (0, Some ERR_DUPL, s)
                else Some (cdt_get_type (cdts s) name, None, s)
            | _ \<Rightarrow> None)
         else if \<not> alloc E A_cdt_name then Some (0, Some ERR_ALLOC, s)
         else
           (case cdt_append_all E (cdts s) [] strs of
              Inl e \<Rightarrow> Some (0, Some e, s)
            | Inr ms \<Rightarrow> Some (cdt_install E s name ms)))"

text \<open>\<^verbatim>\<open>_cdt_inc_refcount\<close> and \<^verbatim>\<open>_cdt_dec_refcount\<close>\<close>

definition cdt_inc_refcount :: "server \<Rightarrow> u32 \<Rightarrow> server option" where
  "cdt_inc_refcount s t =
    do {
      d \<leftarrow> arr_get (cdts s) (uint (CDT_TO_INDEX t));
      Some (s\<lparr>cdts := (cdts s)[unat (CDT_TO_INDEX t) := d\<lparr>d_refcount := d_refcount d + 1\<rparr>]\<rparr>)
    }"

definition cdt_dec_refcount :: "server \<Rightarrow> u32 \<Rightarrow> server option" where
  "cdt_dec_refcount s t =
    do {
      d \<leftarrow> arr_get (cdts s) (uint (CDT_TO_INDEX t));
      Some (if d_refcount d \<noteq> 0
            then s\<lparr>cdts := (cdts s)[unat (CDT_TO_INDEX t) := d\<lparr>d_refcount := d_refcount d - 1\<rparr>]\<rparr>
            else s)
    }"

section \<open>Well-formed tables\<close>

definition lname :: "string \<Rightarrow> string" where
  "lname s = map tolower s"

lemma strcasecmp_lname [simp]: "strcasecmp a b = 0 \<longleftrightarrow> lname a = lname b"
  by (simp add: strcasecmp_def lname_def)

definition cdt_ref_ok :: "nat \<Rightarrow> u32 \<Rightarrow> bool" where
  "cdt_ref_ok n t \<longleftrightarrow> t \<in> set base_types \<or> (\<exists>j<n. t = CDT_TO_TYPE (of_nat j))"

definition wf_cdt :: "nat \<Rightarrow> cdt \<Rightarrow> bool" where
  "wf_cdt n d \<longleftrightarrow>
    validate_name (d_name d) = 0 \<and> lname (d_name d) \<notin> set (map (lname \<circ> fst) base_names) \<and>
    (\<forall>m\<in>set (d_members d). validate_name (m_name m) = 0 \<and> cdt_ref_ok n (m_type m)) \<and>
    distinct (map (lname \<circ> m_name) (d_members d))"

definition MAX_CDTS :: nat where
  "MAX_CDTS = 1073741824"

definition wf_cdts :: "cdt list \<Rightarrow> bool" where
  "wf_cdts dts \<longleftrightarrow>
    length dts \<le> MAX_CDTS \<and> (\<forall>i<length dts. wf_cdt i (dts ! i)) \<and>
    distinct (map (lname \<circ> d_name) dts)"

lemma wf_cdtsD:
  "wf_cdts dts \<Longrightarrow> i < length dts \<Longrightarrow> wf_cdt i (dts ! i)"
  "wf_cdts dts \<Longrightarrow> length dts \<le> MAX_CDTS"
  "wf_cdts dts \<Longrightarrow> distinct (map (lname \<circ> d_name) dts)"
  by (simp_all add: wf_cdts_def)

lemma base_types_not_custom: "t \<in> set base_types \<Longrightarrow> \<not> IS_CUSTOM t"
  by (auto simp: base_types_def IS_CUSTOM_def)

lemma base_types_names: "snd ` set base_names = set base_types"
  by (auto simp: base_names_def base_types_def)

lemma base_types_and_queue: "t \<in> set base_types \<Longrightarrow> drop_queue t = t"
  by (auto simp: base_types_def drop_queue_def)

lemma checktype_base: "t \<in> set base_types \<Longrightarrow> checktype dts t = 0"
  by (simp add: checktype_def base_types_and_queue Let_def)

text \<open>Indices of compound types stay clear of the queue bit.\<close>

lemma CDT_index_of_nat:
  assumes "j < MAX_CDTS"
  shows "unat (CDT_TO_INDEX (CDT_TO_TYPE (of_nat j))) = j"
    and "drop_queue (CDT_TO_TYPE (of_nat j)) = CDT_TO_TYPE (of_nat j)"
proof -
  have u: "unat (of_nat j :: u32) = j"
    using assms by (simp add: unat_of_nat MAX_CDTS_def)
  then have "(of_nat j :: u32) < DAX_CUSTOM"
    using assms by (simp add: word_less_nat_alt MAX_CDTS_def)
  then show "unat (CDT_TO_INDEX (CDT_TO_TYPE (of_nat j))) = j"
    by (simp add: CDT_TO_INDEX_TYPE u)
  have "(of_nat j :: u32) < 2 ^ 30"
    using assms u by (simp add: word_less_nat_alt MAX_CDTS_def)
  then have j: "of_nat j AND mask 30 = (of_nat j :: u32)"
    by (rule less_mask_eq)
  have "(of_nat j :: u32) AND NOT DAX_QUEUE = (of_nat j AND mask 30) AND NOT DAX_QUEUE"
    by (simp only: j)
  also have "\<dots> = of_nat j AND (mask 30 AND NOT DAX_QUEUE)"
    by (simp only: and.assoc)
  also have "mask 30 AND NOT DAX_QUEUE = mask 30"
    by (simp add: mask_eq_exp_minus_1)
  finally have "(of_nat j :: u32) AND NOT DAX_QUEUE = of_nat j"
    by (simp only: j)
  then show "drop_queue (CDT_TO_TYPE (of_nat j)) = CDT_TO_TYPE (of_nat j)"
    by (simp add: drop_queue_def CDT_TO_TYPE_def bit.conj_disj_distrib2)
qed

lemma checktype_cdt: "j < length dts \<Longrightarrow> length dts \<le> MAX_CDTS \<Longrightarrow>
    checktype dts (CDT_TO_TYPE (of_nat j)) = 0"
  by (simp add: checktype_def Let_def CDT_index_of_nat)

text \<open>A type code that names nothing but its index: valid and without the queue bit.\<close>

lemma valid_type_cases:
  assumes "cdt_ref_ok n t" and "n \<le> length dts" and "length dts \<le> MAX_CDTS"
  shows "checktype dts t = 0"
  using assms by (auto simp: cdt_ref_ok_def checktype_base checktype_cdt)

section \<open>The recursion of \<open>type_size\<close> ends\<close>

lemma members_pos_cong:
  "(\<And>m. m \<in> set ms \<Longrightarrow> IS_CUSTOM (m_type m) \<Longrightarrow> f (m_type m) = g (m_type m)) \<Longrightarrow>
    members_pos f pos ms = members_pos g pos ms"
  by (induction ms arbitrary: pos) (auto split: option.split)

lemma type_size_fuel_base:
  "t \<in> set base_types \<Longrightarrow> type_size_fuel (Suc k) dts t = Some (int (TYPESIZE t div 8))"
  by (simp add: checktype_base base_types_not_custom)

lemma type_size_fuel_cdt:
  assumes "j < length dts" and "length dts \<le> MAX_CDTS"
  shows "type_size_fuel (Suc k) dts (CDT_TO_TYPE (of_nat j)) =
    map_option (\<lambda>pos. if pos \<noteq> 0 then int_of_u32 ((pos - 1) div 8 + 1) else 0)
      (members_pos (type_size_fuel k dts) 0 (d_members (dts ! j)))"
proof -
  have "uint (CDT_TO_INDEX (CDT_TO_TYPE (of_nat j))) = int j"
    using assms CDT_index_of_nat(1) [of j] by (simp add: uint_nat)
  with assms show ?thesis
    by (auto simp: checktype_cdt map_option_case split: option.split)
qed

declare type_size_fuel.simps [simp del]

lemma wf_member_custom:
  assumes "wf_cdts dts" and "j < length dts" and "m \<in> set (d_members (dts ! j))"
    and "IS_CUSTOM (m_type m)"
  obtains i where "i < j" and "m_type m = CDT_TO_TYPE (of_nat i)"
proof -
  from assms(1-3) have "cdt_ref_ok j (m_type m)"
    by (auto simp: wf_cdts_def wf_cdt_def)
  with assms(4) show ?thesis
    using that by (auto simp: cdt_ref_ok_def dest: base_types_not_custom)
qed

lemma type_size_fuel_stable:
  assumes "wf_cdts dts" and "j < length dts" and "j \<le> k" and "j \<le> k'"
  shows "type_size_fuel (Suc k) dts (CDT_TO_TYPE (of_nat j)) =
    type_size_fuel (Suc k') dts (CDT_TO_TYPE (of_nat j))"
  using assms(2-4)
proof (induction j arbitrary: k k' rule: less_induct)
  case (less j)
  have "members_pos (type_size_fuel k dts) 0 (d_members (dts ! j)) =
      members_pos (type_size_fuel k' dts) 0 (d_members (dts ! j))"
  proof (rule members_pos_cong)
    fix m
    assume m: "m \<in> set (d_members (dts ! j))" and c: "IS_CUSTOM (m_type m)"
    from wf_member_custom [OF assms(1) less.prems(1) m c]
    obtain i where i: "i < j" "m_type m = CDT_TO_TYPE (of_nat i)" .
    obtain l l' where "k = Suc l" "k' = Suc l'" "i \<le> l" "i \<le> l'"
      using i(1) less.prems(2,3) by (cases k; cases k') auto
    with less.IH [of i l l'] i less.prems(1)
    show "type_size_fuel k dts (m_type m) = type_size_fuel k' dts (m_type m)"
      by simp
  qed
  then show ?case
    using assms(1) less.prems(1) by (simp add: type_size_fuel_cdt wf_cdts_def)
qed

lemma type_size_base: "t \<in> set base_types \<Longrightarrow> type_size dts t = Some (int (TYPESIZE t div 8))"
  unfolding type_size_def by (rule type_size_fuel_base)

lemma type_size_cdt:
  assumes "wf_cdts dts" and "j < length dts"
  shows "type_size dts (CDT_TO_TYPE (of_nat j)) =
    map_option (\<lambda>pos. if pos \<noteq> 0 then int_of_u32 ((pos - 1) div 8 + 1) else 0)
      (members_pos (type_size dts) 0 (d_members (dts ! j)))"
proof -
  have "members_pos (type_size_fuel (length dts) dts) 0 (d_members (dts ! j)) =
      members_pos (type_size dts) 0 (d_members (dts ! j))"
  proof (rule members_pos_cong)
    fix m
    assume m: "m \<in> set (d_members (dts ! j))" and c: "IS_CUSTOM (m_type m)"
    from wf_member_custom [OF assms m c]
    obtain i where i: "i < j" "m_type m = CDT_TO_TYPE (of_nat i)" .
    obtain l where l: "length dts = Suc l" "i \<le> l"
      using i(1) assms(2) by (cases "length dts") auto
    then show "type_size_fuel (length dts) dts (m_type m) = type_size dts (m_type m)"
      using type_size_fuel_stable [OF assms(1), of i l "length dts"] i assms(2)
      by (simp add: type_size_def)
  qed
  with assms show ?thesis
    unfolding type_size_def [of dts "CDT_TO_TYPE (of_nat j)"]
    by (simp add: type_size_fuel_cdt wf_cdts_def)
qed

section \<open>The size without wrap-around\<close>

text \<open>
  The layout on unbounded numbers: BOOLs take one bit each, every other member starts at a byte.
  \<open>ideal_end\<close> is the bit after the last member, \<open>ideal_size\<close> the size in bytes rounded up.
\<close>

definition round8 :: "nat \<Rightarrow> nat" where
  "round8 p = 8 * ((p + 7) div 8)"

definition member_bits :: "(u32 \<Rightarrow> nat) \<Rightarrow> cdt_member \<Rightarrow> nat" where
  "member_bits f m =
    unat (m_count m) * (if m_type m = DAX_BOOL then 1
      else if IS_CUSTOM (m_type m) then 8 * f (m_type m) else TYPESIZE (m_type m))"

definition member_start :: "nat \<Rightarrow> cdt_member \<Rightarrow> nat" where
  "member_start p m = (if m_type m = DAX_BOOL then p else round8 p)"

fun ideal_end :: "(u32 \<Rightarrow> nat) \<Rightarrow> nat \<Rightarrow> cdt_member list \<Rightarrow> nat" where
  "ideal_end f p [] = p"
| "ideal_end f p (m # ms) = ideal_end f (member_start p m + member_bits f m) ms"

primrec ideal_size_fuel :: "nat \<Rightarrow> cdt list \<Rightarrow> u32 \<Rightarrow> nat" where
  "ideal_size_fuel 0 dts t = 0"
| "ideal_size_fuel (Suc k) dts t =
    (if IS_CUSTOM t
     then (ideal_end (ideal_size_fuel k dts) 0 (d_members (dts ! unat (CDT_TO_INDEX t))) + 7) div 8
     else TYPESIZE t div 8)"

definition ideal_size :: "cdt list \<Rightarrow> u32 \<Rightarrow> nat" where
  "ideal_size dts t = ideal_size_fuel (Suc (length dts)) dts t"

definition ideal_bits :: "cdt list \<Rightarrow> nat \<Rightarrow> nat" where
  "ideal_bits dts j = ideal_end (ideal_size dts) 0 (d_members (dts ! j))"

text \<open>Every type of the table fits the 32 bit position, and no type used as a member is empty.\<close>

definition cdts_fit :: "cdt list \<Rightarrow> bool" where
  "cdts_fit dts \<longleftrightarrow>
    (\<forall>j<length dts. ideal_bits dts j < 2 ^ 32 \<and>
      (\<forall>m\<in>set (d_members (dts ! j)). IS_CUSTOM (m_type m) \<longrightarrow> 0 < ideal_size dts (m_type m)))"

lemma round8_props: "p \<le> round8 p" "round8 p < p + 8" "round8 p mod 8 = 0"
  unfolding round8_def by (linarith, linarith, simp)

lemma round8_aligned: "p mod 8 = 0 \<Longrightarrow> round8 p = p"
  unfolding round8_def by presburger

lemma round8_unaligned: "n mod 8 \<noteq> 0 \<Longrightarrow> round8 n = 8 * (n div 8) + 7 + 1"
proof -
  assume "n mod 8 \<noteq> 0"
  moreover obtain a b where n: "n = 8 * a + b" "b < 8"
    using that [of "n div 8" "n mod 8"] by simp
  ultimately have "1 \<le> b" by simp
  with n have "(n + 7) div 8 = a + 1" by (intro div_nat_eqI) auto
  with n show ?thesis by (simp add: round8_def)
qed

lemma ideal_end_ge: "p \<le> ideal_end f p ms"
proof (induction ms arbitrary: p)
  case (Cons m ms)
  have "p \<le> member_start p m" by (simp add: member_start_def round8_props)
  also have "\<dots> \<le> member_start p m + member_bits f m" by simp
  also have "\<dots> \<le> ideal_end f (member_start p m + member_bits f m) ms" by (rule Cons.IH)
  finally show ?case by simp
qed simp

lemma or_7_nat: "(n :: nat) OR 7 = 8 * (n div 8) + 7"
proof -
  have "n OR 7 = n OR mask 3" by (simp add: mask_eq_exp_minus_1)
  also have "\<dots> = push_bit 3 (drop_bit 3 n) OR mask 3"
    by (rule bit_eqI) (auto simp: bit_simps)
  also have "\<dots> = push_bit 3 (drop_bit 3 n) + mask 3"
    by (rule disjunctive_add [symmetric]) (auto simp: bit_simps)
  finally show ?thesis
    by (simp add: push_bit_eq_mult drop_bit_eq_div mask_eq_exp_minus_1)
qed

lemma of_nat_unat_id: "of_nat (unat w) = (w :: u32)"
  by simp

lemma align8_of_nat:
  assumes "n < 2 ^ 32" and "round8 n < 2 ^ 32"
  shows "align8 (of_nat n) = of_nat (round8 n)"
proof -
  have u: "unat (of_nat n :: u32) = n" using assms(1) by (simp add: unat_of_nat)
  have m: "unat ((of_nat n :: u32) mod 8) = n mod 8" by (simp add: unat_mod u)
  show ?thesis
  proof (cases "n mod 8 = 0")
    case True
    with m have "(of_nat n :: u32) mod 8 = 0" by (simp add: unat_eq_zero)
    with True show ?thesis by (simp add: align8_def round8_aligned)
  next
    case False
    then have "unat ((of_nat n :: u32) mod 8) \<noteq> unat (0 :: u32)" by (simp only: m unat_0 not_False_eq_True)
    then have "(of_nat n :: u32) mod 8 \<noteq> 0" by (rule contrapos_nn) (simp only:)
    moreover have "unat ((of_nat n :: u32) OR 7) = 8 * (n div 8) + 7"
      by (simp add: unsigned_or_eq u or_7_nat)
    then have "(of_nat n :: u32) OR 7 = of_nat (8 * (n div 8) + 7)"
      using of_nat_unat_id [of "of_nat n OR 7"] by (simp only:)
    moreover from False have "round8 n = 8 * (n div 8) + 7 + 1"
      by (rule round8_unaligned)
    ultimately show ?thesis by (simp add: align8_def)
  qed
qed

lemma u32_of_nat [simp]: "u32_of (int n) = of_nat n"
  by (simp add: u32_of_def)

lemma int_of_u32_nat: "n < 2 ^ 31 \<Longrightarrow> int_of_u32 (of_nat n) = int n"
  using int_of_u32_of [of "int n"] by (simp add: int32_ok_def)

lemma members_pos_ideal:
  assumes "\<And>m. m \<in> set ms \<Longrightarrow> IS_CUSTOM (m_type m) \<Longrightarrow>
      f (m_type m) = Some (int (g (m_type m))) \<and> 0 < g (m_type m)"
    and "ideal_end g n ms < 2 ^ 32"
  shows "members_pos f (of_nat n) ms = Some (of_nat (ideal_end g n ms))"
  using assms
proof (induction ms arbitrary: n)
  case (Cons m ms)
  let ?n = "member_start n m + member_bits g m"
  from Cons.prems(2) have end_lt: "ideal_end g ?n ms < 2 ^ 32" by simp
  with ideal_end_ge [of ?n g ms] have n': "?n < 2 ^ 32" by linarith
  then have st: "member_start n m < 2 ^ 32" by linarith
  have "n \<le> member_start n m" by (simp add: member_start_def round8_props)
  with st have n: "n < 2 ^ 32" by linarith
  have al: "m_type m \<noteq> DAX_BOOL \<Longrightarrow> align8 (of_nat n) = of_nat (member_start n m)"
    using align8_of_nat [OF n] st by (simp add: member_start_def)
  have ih: "members_pos f (of_nat ?n) ms = Some (of_nat (ideal_end g ?n ms))"
    using Cons.prems(1) end_lt by (intro Cons.IH) auto
  have c: "m_count m = of_nat (unat (m_count m))" by simp
  consider (bool) "m_type m = DAX_BOOL" | (cust) "m_type m \<noteq> DAX_BOOL" "IS_CUSTOM (m_type m)"
    | (base) "m_type m \<noteq> DAX_BOOL" "\<not> IS_CUSTOM (m_type m)" by blast
  then show ?case
  proof cases
    case bool
    then have "?n = n + unat (m_count m)" by (simp add: member_start_def member_bits_def)
    with ih have "members_pos f (of_nat n + m_count m) ms =
        Some (of_nat (ideal_end g (n + unat (m_count m)) ms))"
      by (simp only: of_nat_add of_nat_unat_id)
    with bool \<open>?n = n + unat (m_count m)\<close> show ?thesis by simp
  next
    case cust
    then have b: "member_bits g m = (g (m_type m) * unat (m_count m)) * 8"
      by (simp add: member_bits_def)
    have "(of_nat ?n :: u32) =
        align8 (of_nat n) + (of_nat (g (m_type m)) * m_count m) * 8"
      unfolding b al [OF cust(1)] by simp
    with ih cust Cons.prems(1) [of m] show ?thesis by simp
  next
    case base
    then have b: "member_bits g m = TYPESIZE (m_type m) * unat (m_count m)"
      by (simp add: member_bits_def)
    have "(of_nat ?n :: u32) = align8 (of_nat n) + of_nat (TYPESIZE (m_type m)) * m_count m"
      unfolding b al [OF base(1)] by simp
    with ih base show ?thesis by simp
  qed
qed simp

lemma bytes_of_bits:
  assumes "n < 2 ^ 32"
  shows "(if (of_nat n :: u32) \<noteq> 0 then int_of_u32 ((of_nat n - 1) div 8 + 1) else 0) =
    int ((n + 7) div 8)"
proof (cases "n = 0")
  case False
  then obtain k where k: "n = Suc k" by (cases n) auto
  have u: "unat (of_nat n :: u32) = n" using assms by (simp add: unat_of_nat)
  with False have nz: "(of_nat n :: u32) \<noteq> 0" by auto
  have "(of_nat n - 1 :: u32) = of_nat k" by (simp add: k)
  moreover have "(of_nat k :: u32) div 8 = of_nat (k div 8)"
    using assms k by (simp add: word_arith_nat_div unat_of_nat)
  moreover have "(n + 7) div 8 = k div 8 + 1" by (simp add: k)
  ultimately have "(of_nat n - 1 :: u32) div 8 + 1 = u32_of (int ((n + 7) div 8))"
    by (simp add: u32_of_def)
  moreover have "(n + 7) div 8 < 2 ^ 31"
    using assms by simp
  ultimately show ?thesis using nz int_of_u32_nat [of "(n + 7) div 8"] by simp
qed simp

lemma ideal_end_cong:
  "(\<And>m. m \<in> set ms \<Longrightarrow> IS_CUSTOM (m_type m) \<Longrightarrow> f (m_type m) = g (m_type m)) \<Longrightarrow>
    ideal_end f p ms = ideal_end g p ms"
  by (induction ms arbitrary: p) (auto simp: member_bits_def)

lemma ideal_size_fuel_stable:
  assumes "wf_cdts dts" and "j < length dts" and "j \<le> k" and "j \<le> k'"
  shows "ideal_size_fuel (Suc k) dts (CDT_TO_TYPE (of_nat j)) =
    ideal_size_fuel (Suc k') dts (CDT_TO_TYPE (of_nat j))"
  using assms(2-4)
proof (induction j arbitrary: k k' rule: less_induct)
  case (less j)
  have "ideal_end (ideal_size_fuel k dts) 0 (d_members (dts ! j)) =
      ideal_end (ideal_size_fuel k' dts) 0 (d_members (dts ! j))"
  proof (rule ideal_end_cong)
    fix m
    assume m: "m \<in> set (d_members (dts ! j))" and c: "IS_CUSTOM (m_type m)"
    from wf_member_custom [OF assms(1) less.prems(1) m c]
    obtain i where i: "i < j" "m_type m = CDT_TO_TYPE (of_nat i)" .
    obtain l l' where "k = Suc l" "k' = Suc l'" "i \<le> l" "i \<le> l'"
      using i(1) less.prems(2,3) by (cases k; cases k') auto
    with less.IH [of i l l'] i less.prems(1)
    show "ideal_size_fuel k dts (m_type m) = ideal_size_fuel k' dts (m_type m)"
      by simp
  qed
  moreover have "j < MAX_CDTS" using assms(1) less.prems(1) by (simp add: wf_cdts_def)
  ultimately show ?case by (simp add: CDT_index_of_nat)
qed

lemma ideal_size_cdt:
  assumes "wf_cdts dts" and "j < length dts"
  shows "ideal_size dts (CDT_TO_TYPE (of_nat j)) = (ideal_bits dts j + 7) div 8"
proof -
  have "ideal_end (ideal_size_fuel (length dts) dts) 0 (d_members (dts ! j)) = ideal_bits dts j"
    unfolding ideal_bits_def
  proof (rule ideal_end_cong)
    fix m
    assume m: "m \<in> set (d_members (dts ! j))" and c: "IS_CUSTOM (m_type m)"
    from wf_member_custom [OF assms m c]
    obtain i where i: "i < j" "m_type m = CDT_TO_TYPE (of_nat i)" .
    obtain l where l: "length dts = Suc l" "i \<le> l"
      using i(1) assms(2) by (cases "length dts") auto
    then show "ideal_size_fuel (length dts) dts (m_type m) = ideal_size dts (m_type m)"
      using ideal_size_fuel_stable [OF assms(1), of i l "length dts"] i assms(2)
      by (simp add: ideal_size_def del: ideal_size_fuel.simps)
  qed
  moreover have "j < MAX_CDTS" using assms by (simp add: wf_cdts_def)
  ultimately show ?thesis by (simp add: ideal_size_def CDT_index_of_nat)
qed

text \<open>The 32 bit computation of the code agrees with the layout on unbounded numbers.\<close>

lemma type_size_ideal:
  assumes "wf_cdts dts" and "cdts_fit dts" and "j < length dts"
  shows "type_size dts (CDT_TO_TYPE (of_nat j)) = Some (int (ideal_size dts (CDT_TO_TYPE (of_nat j))))"
  using assms(3)
proof (induction j rule: less_induct)
  case (less j)
  have fit: "ideal_bits dts j < 2 ^ 32"
    using assms(2) less.prems by (simp add: cdts_fit_def)
  have "members_pos (type_size dts) (of_nat 0) (d_members (dts ! j)) =
      Some (of_nat (ideal_end (ideal_size dts) 0 (d_members (dts ! j))))"
  proof (rule members_pos_ideal)
    fix m
    assume m: "m \<in> set (d_members (dts ! j))" and c: "IS_CUSTOM (m_type m)"
    from wf_member_custom [OF assms(1) less.prems m c]
    obtain i where i: "i < j" "m_type m = CDT_TO_TYPE (of_nat i)" .
    have "0 < ideal_size dts (m_type m)"
      using assms(2) less.prems m c by (simp add: cdts_fit_def)
    with less.IH [of i] i less.prems
    show "type_size dts (m_type m) = Some (int (ideal_size dts (m_type m))) \<and>
        0 < ideal_size dts (m_type m)" by simp
  qed (use fit in \<open>simp add: ideal_bits_def\<close>)
  then have pos: "members_pos (type_size dts) 0 (d_members (dts ! j)) = Some (of_nat (ideal_bits dts j))"
    by (simp add: ideal_bits_def)
  show ?case
    unfolding type_size_cdt [OF assms(1) less.prems] ideal_size_cdt [OF assms(1) less.prems] pos
    by (simp only: option.map bytes_of_bits [OF fit])
qed

end
