(* ===== verification/Type_Table.thy ===== *)
theory Type_Table
  imports Data_Types
begin

text \<open>
  The table of compound data types: types are found by name, creation keeps the table well
  formed and only appends, and a type can be rebuilt from its serialization.
\<close>

section \<open>Looking types up by name\<close>

lemma find_cdt_Some:
  "find_cdt n ds name = Some k \<Longrightarrow>
    n \<le> k \<and> k < n + length ds \<and> lname (d_name (ds ! (k - n))) = lname name"
  by (induction n ds name rule: find_cdt.induct) (auto split: if_splits simp: nth_Cons')

lemma find_cdt_None: "find_cdt n ds name = None \<longleftrightarrow> lname name \<notin> set (map (lname \<circ> d_name) ds)"
  by (induction n ds name rule: find_cdt.induct) auto

lemma find_cdt_distinct:
  assumes "distinct (map (lname \<circ> d_name) ds)" and "j < length ds"
  shows "find_cdt 0 ds (d_name (ds ! j)) = Some j"
proof (cases "find_cdt 0 ds (d_name (ds ! j))")
  case None
  with assms(2) show ?thesis by (simp add: find_cdt_None)
next
  case (Some k)
  from find_cdt_Some [OF this] have "k < length ds" "lname (d_name (ds ! k)) = lname (d_name (ds ! j))"
    by simp_all
  with assms have "k = j"
    using nth_eq_iff_index_eq [OF assms(1), of k j] by simp
  with Some show ?thesis by simp
qed

lemma CDT_TO_TYPE_nonzero [simp]: "CDT_TO_TYPE i \<noteq> 0"
proof
  assume "CDT_TO_TYPE i = 0"
  then have "\<not> IS_CUSTOM (CDT_TO_TYPE i)" by (simp add: IS_CUSTOM_def)
  then show False by simp
qed

lemma base_name_find_None:
  "find (\<lambda>(b, t). strcasecmp name b = 0) base_names = None \<longleftrightarrow>
    lname name \<notin> set (map (lname \<circ> fst) base_names)"
  by (force simp: find_None_iff)

lemma base_name_find_Some:
  "find (\<lambda>(b, t). strcasecmp name b = 0) base_names = Some (b, t) \<Longrightarrow> t \<in> set base_types \<and> t \<noteq> 0"
proof -
  assume "find (\<lambda>(b, t). strcasecmp name b = 0) base_names = Some (b, t)"
  then have "(b, t) \<in> set base_names" by (auto simp: find_Some_iff) (metis nth_mem)
  then have "snd (b, t) \<in> snd ` set base_names" by (rule imageI)
  then have "t \<in> set base_types" by (simp add: base_types_names)
  moreover have "0 \<notin> set base_types" by (simp add: base_types_def)
  ultimately show ?thesis by auto
qed

lemma cdt_get_type_eq_0:
  "cdt_get_type dts name = 0 \<longleftrightarrow>
    lname name \<notin> set (map (lname \<circ> fst) base_names) \<and> lname name \<notin> set (map (lname \<circ> d_name) dts)"
  unfolding cdt_get_type_def base_name_find_None [symmetric] find_cdt_None [of 0, symmetric]
  by (auto split: option.split dest: base_name_find_Some simp del: strcasecmp_lname)

lemma cdt_get_type_ref:
  assumes "cdt_get_type dts name \<noteq> 0"
  shows "cdt_ref_ok (length dts) (cdt_get_type dts name)"
  using assms unfolding cdt_get_type_def cdt_ref_ok_def
  by (auto split: option.splits dest!: base_name_find_Some find_cdt_Some simp del: strcasecmp_lname)

lemma cdt_get_type_cdt:
  assumes "wf_cdts dts" and "j < length dts"
  shows "cdt_get_type dts (d_name (dts ! j)) = CDT_TO_TYPE (of_nat j)"
proof -
  from assms have "lname (d_name (dts ! j)) \<notin> set (map (lname \<circ> fst) base_names)"
    by (simp add: wf_cdts_def wf_cdt_def)
  then have "find (\<lambda>(b, t). strcasecmp (d_name (dts ! j)) b = 0) base_names = None"
    by (simp only: base_name_find_None not_False_eq_True)
  with assms show ?thesis
    by (simp add: cdt_get_type_def find_cdt_distinct wf_cdts_def del: strcasecmp_lname)
qed

lemma cdt_get_name_cdt:
  assumes "wf_cdts dts" and "j < length dts"
  shows "cdt_get_name dts (CDT_TO_TYPE (of_nat j)) = Some (d_name (dts ! j))"
proof -
  have j: "j < MAX_CDTS" using assms by (simp add: wf_cdts_def)
  then have "CDT_TO_INDEX (CDT_TO_TYPE (of_nat j)) = of_nat j"
    using CDT_index_of_nat(1) [of j] of_nat_unat_id [of "CDT_TO_INDEX (CDT_TO_TYPE (of_nat j))"]
    by (simp only:)
  with j assms show ?thesis
    by (simp add: cdt_get_name_def int_of_u32_nat MAX_CDTS_def)
qed

lemma base_lnames:
  "map (lname \<circ> fst) base_names =
    [''bool'', ''byte'', ''sint'', ''char'', ''word'', ''int'', ''uint'', ''dword'', ''dint'',
     ''udint'', ''time'', ''real'', ''lword'', ''lint'', ''ulint'', ''lreal'']"
  by (simp add: base_names_def lname_def str_eval)

lemma base_names_distinct: "distinct (map (lname \<circ> fst) base_names)" "distinct (map snd base_names)"
  unfolding base_lnames by simp (simp add: base_names_def)

lemma find_distinct:
  assumes "distinct (map f xs)" and "x \<in> set xs"
  shows "find (\<lambda>y. f x = f y) xs = Some x"
  using assms by (induction xs) (auto simp: image_iff)

lemma base_names_find:
  assumes "(b, t) \<in> set base_names"
  shows "find (\<lambda>(b', t'). strcasecmp b b' = 0) base_names = Some (b, t)"
    and "find (\<lambda>(b', u). u = t) base_names = Some (b, t)"
proof -
  have "find (\<lambda>(b', t'). strcasecmp b b' = 0) base_names =
      find (\<lambda>y. (lname \<circ> fst) (b, t) = (lname \<circ> fst) y) base_names"
    by (rule find_cong) auto
  also have "\<dots> = Some (b, t)"
    by (rule find_distinct [OF base_names_distinct(1) assms])
  finally show "find (\<lambda>(b', t'). strcasecmp b b' = 0) base_names = Some (b, t)" .
  have "find (\<lambda>(b', u). u = t) base_names = find (\<lambda>y. snd (b, t) = snd y) base_names"
    by (rule find_cong) auto
  also have "\<dots> = Some (b, t)"
    by (rule find_distinct [OF base_names_distinct(2) assms])
  finally show "find (\<lambda>(b', u). u = t) base_names = Some (b, t)" .
qed

text \<open>The name of a base type is found again.\<close>

lemma base_name_roundtrip:
  assumes "t \<in> set base_types"
  obtains b where "cdt_get_name dts t = Some b" "cdt_get_type dts b = t" "(b, t) \<in> set base_names"
proof -
  from assms have "t \<in> snd ` set base_names" by (simp add: base_types_names)
  then obtain b where b: "(b, t) \<in> set base_names" by auto
  show ?thesis
  proof
    show "cdt_get_name dts t = Some b"
      using b base_names_find(2) [OF b] base_types_not_custom [OF assms]
      by (simp add: cdt_get_name_def)
    show "cdt_get_type dts b = t"
      using base_names_find(1) [OF b] by (simp add: cdt_get_type_def)
  qed (rule b)
qed

section \<open>Creating types\<close>

lemma valid_name_props:
  assumes "validate_name n = 0"
  shows "n \<noteq> []" "list_all name_char n" "length n \<le> DAX_TAGNAME_SIZE"
  using assms by (auto simp: validate_name_def name_char_def split: list.splits if_splits)

lemma name_char_not_sep: "\<not> name_char CHR '','' " "\<not> name_char CHR '':''"
  by (simp_all add: name_char_def isalpha_def isdigit_def ccode_def)

lemma valid_name_sep:
  assumes "validate_name n = 0"
  shows "CHR '','' \<notin> set n" "CHR '':'' \<notin> set n"
  using valid_name_props(2) [OF assms] name_char_not_sep by (auto simp: list_all_iff)

lemma cdt_append_err: "cdt_append E dts ms str = Inl e \<Longrightarrow> e \<noteq> 0"
  by (auto simp: cdt_append_def split: list.splits if_splits)

lemma cdt_append_all_err: "cdt_append_all E dts ms strs = Inl e \<Longrightarrow> e \<noteq> 0"
  by (induction strs arbitrary: ms) (auto split: sum.splits dest: cdt_append_err)

lemma cdt_append_ok:
  assumes "cdt_append E dts ms str = Inr ms'" and "wf_cdts dts"
    and "\<forall>m\<in>set ms. validate_name (m_name m) = 0 \<and> cdt_ref_ok (length dts) (m_type m)"
    and "distinct (map (lname \<circ> m_name) ms)"
  shows "(\<forall>m\<in>set ms'. validate_name (m_name m) = 0 \<and> cdt_ref_ok (length dts) (m_type m)) \<and>
    distinct (map (lname \<circ> m_name) ms')"
  using assms cdt_get_type_ref [of dts]
  by (auto simp: cdt_append_def list_ex_iff split: list.splits if_splits)

lemma cdt_append_all_ok:
  assumes "cdt_append_all E dts ms strs = Inr ms'" and "wf_cdts dts"
    and "\<forall>m\<in>set ms. validate_name (m_name m) = 0 \<and> cdt_ref_ok (length dts) (m_type m)"
    and "distinct (map (lname \<circ> m_name) ms)"
  shows "(\<forall>m\<in>set ms'. validate_name (m_name m) = 0 \<and> cdt_ref_ok (length dts) (m_type m)) \<and>
    distinct (map (lname \<circ> m_name) ms')"
  using assms
proof (induction strs arbitrary: ms)
  case (Cons str strs)
  from Cons.prems(1) obtain ms1 where ms1: "cdt_append E dts ms str = Inr ms1"
      "cdt_append_all E dts ms1 strs = Inr ms'"
    by (auto split: sum.splits)
  from cdt_append_ok [OF ms1(1) Cons.prems(2-4)] show ?case
    using Cons.IH [OF ms1(2) Cons.prems(2)] by blast
qed auto

lemma wf_cdts_snoc:
  assumes "wf_cdts dts" and "length dts < MAX_CDTS" and "wf_cdt (length dts) d"
    and "lname (d_name d) \<notin> set (map (lname \<circ> d_name) dts)"
  shows "wf_cdts (dts @ [d])"
  using assms by (auto simp: wf_cdts_def nth_append less_Suc_eq)

text \<open>A creation changes the table only by appending the new type, and then reports no error.\<close>

lemma cdt_install_cases:
  "cdt_install E s name ms = (0, Some ERR_ALLOC, s) \<or>
   (\<exists>sz. cdt_install E s name ms =
     (CDT_TO_TYPE (of_nat (length (cdts s))), Some 0,
      s\<lparr>cdts := cdts s @ [\<lparr>d_name = name, d_flags = 0, d_refcount = 0, d_members = ms\<rparr>],
        datatype_size := sz\<rparr>))"
proof (cases "length (cdts s) = datatype_size s \<and> \<not> alloc E A_cdt_grow")
  case True
  then show ?thesis by (simp add: cdt_install_def)
next
  case False
  then show ?thesis unfolding cdt_install_def by (simp only: if_False) blast
qed

lemma cdt_create_new:
  assumes "cdt_create E s str = Some (t, Some 0, s')"
  obtains name strs ms sz where "strtok_all CHR '':'' str = name # strs" "validate_name name = 0"
      "cdt_get_type (cdts s) name = 0" "cdt_append_all E (cdts s) [] strs = Inr ms"
      "t = CDT_TO_TYPE (of_nat (length (cdts s)))"
      "s' = s\<lparr>cdts := cdts s @ [\<lparr>d_name = name, d_flags = 0, d_refcount = 0, d_members = ms\<rparr>],
              datatype_size := sz\<rparr>"
proof -
  have al: "alloc E A_cdt_str" using assms by (simp add: cdt_create_def split: if_splits)
  with assms obtain name strs where tok: "strtok_all CHR '':'' str = name # strs"
    by (cases "strtok_all CHR '':'' str") (simp_all add: cdt_create_def)
  with al assms have v: "validate_name name = 0"
    by (cases "validate_name name = 0") (simp_all add: cdt_create_def)
  have g: "cdt_get_type (cdts s) name = 0"
  proof (rule ccontr)
    assume "cdt_get_type (cdts s) name \<noteq> 0"
    with al tok v assms show False
      by (simp add: cdt_create_def split: option.splits sum.splits if_splits)
  qed
  from al tok v g assms have al2: "alloc E A_cdt_name"
    by (cases "alloc E A_cdt_name") (simp_all add: cdt_create_def)
  obtain ms where ms: "cdt_append_all E (cdts s) [] strs = Inr ms"
    using al al2 tok v g assms cdt_append_all_err [of E "cdts s" "[]" strs]
    by (cases "cdt_append_all E (cdts s) [] strs") (simp_all add: cdt_create_def)
  with al al2 tok v g assms have "cdt_install E s name ms = (t, Some 0, s')"
    by (simp add: cdt_create_def)
  with cdt_install_cases [of E s name ms] tok v g ms that show ?thesis by auto
qed

lemma cdt_create_same:
  assumes "cdt_create E s str = Some (t, e, s')" and "e \<noteq> Some 0"
  shows "s' = s \<and> (t \<noteq> 0 \<longrightarrow> e = None \<and> serialize_datatype E (cdts s) t = Some (Inr str))"
proof (cases "alloc E A_cdt_str")
  case False
  with assms show ?thesis by (simp add: cdt_create_def)
next
  case al: True
  with assms obtain name strs where tok: "strtok_all CHR '':'' str = name # strs"
    by (cases "strtok_all CHR '':'' str") (simp_all add: cdt_create_def)
  show ?thesis
  proof (cases "validate_name name = 0 \<and> cdt_get_type (cdts s) name = 0 \<and> alloc E A_cdt_name")
    case True
    show ?thesis
    proof (cases "cdt_append_all E (cdts s) [] strs")
      case (Inl e')
      with True al tok assms show ?thesis by (simp add: cdt_create_def)
    next
      case (Inr ms)
      with True al tok assms(1) have "cdt_install E s name ms = (t, e, s')"
        by (simp add: cdt_create_def)
      with cdt_install_cases [of E s name ms] assms(2) show ?thesis by auto
    qed
  next
    case False
    show ?thesis
    proof (cases "validate_name name = 0 \<and> cdt_get_type (cdts s) name \<noteq> 0")
      case True
      with al tok assms(1) show ?thesis
        by (cases "serialize_datatype E (cdts s) (cdt_get_type (cdts s) name)")
          (auto simp: cdt_create_def split: sum.splits if_splits)
    next
      case ff: False
      with False al tok assms show ?thesis
        by (cases "validate_name name = 0") (simp_all add: cdt_create_def)
    qed
  qed
qed

lemma cdt_create_wf_table:
  assumes "cdt_create E s str = Some (t, e, s')" and "wf_cdts (cdts s)"
    and "length (cdts s) < MAX_CDTS"
  shows "wf_cdts (cdts s')"
proof (cases "e = Some 0")
  case False
  with cdt_create_same [OF assms(1)] assms(2) show ?thesis by simp
next
  case True
  with assms(1) obtain name strs ms sz where n: "validate_name name = 0"
      "cdt_get_type (cdts s) name = 0" "cdt_append_all E (cdts s) [] strs = Inr ms"
      "s' = s\<lparr>cdts := cdts s @ [\<lparr>d_name = name, d_flags = 0, d_refcount = 0, d_members = ms\<rparr>],
              datatype_size := sz\<rparr>"
    by (auto elim: cdt_create_new)
  from cdt_append_all_ok [OF n(3) assms(2)] n(1,2)
  have "wf_cdt (length (cdts s)) \<lparr>d_name = name, d_flags = 0, d_refcount = 0, d_members = ms\<rparr>"
    by (simp add: wf_cdt_def cdt_get_type_eq_0)
  with wf_cdts_snoc [OF assms(2,3)] n(2,4) show ?thesis
    by (simp add: cdt_get_type_eq_0)
qed

section \<open>Serialization\<close>

lemma strtol0_show_int: "int32_ok x \<Longrightarrow> strtol0 (show_int x) = x"
proof (cases "x < 0")
  case True
  moreover assume "int32_ok x"
  ultimately show ?thesis
    by (simp add: show_int_def strtol0_def isspace_def ccode_def strtol_mag_show_nat clamp_long_def
        int32_ok_def)
next
  case False
  moreover assume "int32_ok x"
  ultimately show ?thesis
    by (simp add: show_int_def strtol0_show_nat int32_ok_def)
qed

lemma show_int_sep:
  "show_int x \<noteq> []" "CHR '','' \<notin> set (show_int x)" "CHR '':'' \<notin> set (show_int x)"
proof -
  have "\<not> isdigit CHR '',''" "\<not> isdigit CHR '':''" by (simp_all add: isdigit_def ccode_def)
  then have "CHR '','' \<notin> set (show_nat n)" "CHR '':'' \<notin> set (show_nat n)" for n
    using show_nat_digits [of n] by auto
  then show "show_int x \<noteq> []" "CHR '','' \<notin> set (show_int x)" "CHR '':'' \<notin> set (show_int x)"
    by (auto simp: show_int_def)
qed

definition type_name :: "cdt list \<Rightarrow> u32 \<Rightarrow> string" where
  "type_name dts t = (case cdt_get_name dts t of Some n \<Rightarrow> n | None \<Rightarrow> [])"

definition member_str :: "cdt list \<Rightarrow> cdt_member \<Rightarrow> string" where
  "member_str dts m =
    m_name m @ CHR '','' # type_name dts (m_type m) @ CHR '','' # show_int (int_of_u32 (m_count m))"

definition cdt_str :: "cdt list \<Rightarrow> cdt \<Rightarrow> string" where
  "cdt_str dts d = d_name d @ concat (map (\<lambda>m. CHR '':'' # member_str dts m) (d_members d))"

lemma type_name_props:
  assumes "cdt_ref_ok n t" and "n \<le> length dts" and "wf_cdts dts"
  shows "cdt_get_name dts t = Some (type_name dts t)" and "cdt_get_type dts (type_name dts t) = t"
    and "type_name dts t \<noteq> []" and "CHR '','' \<notin> set (type_name dts t)"
    and "CHR '':'' \<notin> set (type_name dts t)"
proof -
  have "\<exists>tn. cdt_get_name dts t = Some tn \<and> cdt_get_type dts tn = t \<and> validate_name tn = 0"
  proof (cases "t \<in> set base_types")
    case True
    then obtain b where b: "cdt_get_name dts t = Some b" "cdt_get_type dts b = t"
        "(b, t) \<in> set base_names"
      by (rule base_name_roundtrip)
    moreover have "\<forall>x\<in>set base_names. validate_name (fst x) = 0"
      by (simp add: base_names_def validate_name_def name_char_def isalpha_def isdigit_def
          ccode_def DAX_TAGNAME_SIZE_def)
    ultimately show ?thesis by force
  next
    case False
    with assms(1) obtain j where "j < n" "t = CDT_TO_TYPE (of_nat j)"
      by (auto simp: cdt_ref_ok_def)
    with assms(2) have "j < length dts" "t = CDT_TO_TYPE (of_nat j)" by simp_all
    with assms(3) show ?thesis
      using wf_cdtsD(1) [OF assms(3), of j]
      by (auto simp: cdt_get_name_cdt cdt_get_type_cdt wf_cdt_def)
  qed
  then obtain tn where tn: "cdt_get_name dts t = Some tn" "cdt_get_type dts tn = t"
      "validate_name tn = 0" by blast
  then have eq: "type_name dts t = tn" by (simp add: type_name_def)
  show "cdt_get_name dts t = Some (type_name dts t)" "cdt_get_type dts (type_name dts t) = t"
    using tn by (simp_all add: eq)
  show "type_name dts t \<noteq> []" "CHR '','' \<notin> set (type_name dts t)"
      "CHR '':'' \<notin> set (type_name dts t)"
    using valid_name_props(1) [OF tn(3)] valid_name_sep [OF tn(3)] by (simp_all add: eq)
qed

lemma serialize_members_str:
  assumes "wf_cdts dts" and "\<forall>m\<in>set ms. cdt_ref_ok (length dts) (m_type m)"
  shows "serialize_members dts ms = Some (concat (map (\<lambda>m. CHR '':'' # member_str dts m) ms))"
  using assms(2)
proof (induction ms)
  case (Cons m ms)
  then have "cdt_get_name dts (m_type m) = Some (type_name dts (m_type m))"
    using type_name_props(1) [OF _ order_refl assms(1)] by simp
  with Cons show ?case by (simp add: member_str_def)
qed simp

lemma cdt_ref_ok_mono: "cdt_ref_ok i t \<Longrightarrow> i \<le> j \<Longrightarrow> cdt_ref_ok j t"
  using less_le_trans unfolding cdt_ref_ok_def by blast

lemma serialize_cdt:
  assumes "wf_cdts dts" and "i < length dts" and "alloc E A_serialize"
  shows "serialize_datatype E dts (CDT_TO_TYPE (of_nat i)) = Some (Inr (cdt_str dts (dts ! i)))"
proof -
  have "\<forall>m\<in>set (d_members (dts ! i)). cdt_ref_ok (length dts) (m_type m)"
    using wf_cdtsD(1) [OF assms(1,2)] assms(2)
    by (auto simp: wf_cdt_def intro: cdt_ref_ok_mono)
  moreover have "unat (CDT_TO_INDEX (CDT_TO_TYPE (of_nat i))) = i"
    using assms wf_cdtsD(2) [OF assms(1)] by (intro CDT_index_of_nat(1)) simp
  ultimately show ?thesis
    using assms by (simp add: serialize_datatype_def serialize_members_str cdt_str_def)
qed

section \<open>Parsing a serialization\<close>

lemma cdt_append_member_str:
  assumes "wf_cdts dts" and "cdt_ref_ok (length dts) (m_type m)" and "validate_name (m_name m) = 0"
    and "alloc E A_cdt_member" and "lname (m_name m) \<notin> set (map (lname \<circ> m_name) ms)"
  shows "cdt_append E dts ms (member_str dts m) = Inr (ms @ [m])"
proof -
  note tn = type_name_props [OF assms(2) order_refl assms(1)]
  let ?c = "show_int (int_of_u32 (m_count m))"
  have "strtok_all CHR '','' (member_str dts m) = [m_name m, type_name dts (m_type m), ?c]"
    using strtok_all_concat [of "m_name m" "CHR '',''" "[type_name dts (m_type m), ?c]"]
      valid_name_props(1) [OF assms(3)] valid_name_sep(1) [OF assms(3)] tn(3,4) show_int_sep
    by (simp add: member_str_def)
  moreover have "m_type m \<noteq> 0"
    using assms(2) by (auto simp: cdt_ref_ok_def base_types_def)
  ultimately show ?thesis
    using assms tn(2) by (auto simp: cdt_append_def list_ex_iff strtol0_show_int)
qed

lemma cdt_append_all_members:
  assumes "wf_cdts dts" and "alloc E A_cdt_member"
    and "\<forall>m\<in>set ns. cdt_ref_ok (length dts) (m_type m) \<and> validate_name (m_name m) = 0"
    and "distinct (map (lname \<circ> m_name) (ms @ ns))"
  shows "cdt_append_all E dts ms (map (member_str dts) ns) = Inr (ms @ ns)"
  using assms(3,4)
proof (induction ns arbitrary: ms)
  case (Cons n ns)
  then have "cdt_append E dts ms (member_str dts n) = Inr (ms @ [n])"
    using assms(1,2) by (intro cdt_append_member_str) auto
  with Cons.IH [of "ms @ [n]"] Cons.prems show ?case by simp
qed simp

lemma member_str_sep:
  assumes "wf_cdts dts" and "cdt_ref_ok (length dts) (m_type m)" and "validate_name (m_name m) = 0"
  shows "member_str dts m \<noteq> []" and "CHR '':'' \<notin> set (member_str dts m)"
  using type_name_props [OF assms(2) order_refl assms(1)] valid_name_sep [OF assms(3)]
    valid_name_props(1) [OF assms(3)] show_int_sep
  by (auto simp: member_str_def)

lemma strtok_cdt_str:
  assumes "wf_cdts dts" and "validate_name (d_name d) = 0"
    and "\<forall>m\<in>set (d_members d). cdt_ref_ok (length dts) (m_type m) \<and> validate_name (m_name m) = 0"
  shows "strtok_all CHR '':'' (cdt_str dts d) = d_name d # map (member_str dts) (d_members d)"
  using strtok_all_concat [of "d_name d" "CHR '':''" "map (member_str dts) (d_members d)"]
    valid_name_props(1) [OF assms(2)] valid_name_sep(2) [OF assms(2)] assms(3)
    member_str_sep [OF assms(1)]
  by (auto simp: cdt_str_def comp_def)

section \<open>Rebuilding a table\<close>

text \<open>
  \<^verbatim>\<open>_create_types\<close> of \<^verbatim>\<open>retain.c\<close>: at start the definitions that were stored are created again, in
  the order of their ids; a definition that fails is only logged.
\<close>

fun create_types :: "env \<Rightarrow> server \<Rightarrow> string list \<Rightarrow> server option" where
  "create_types E s [] = Some s"
| "create_types E s (def # defs) =
    (case cdt_create E s def of
       Some (t, e, s') \<Rightarrow> create_types E s' defs
     | None \<Rightarrow> None)"

definition cdt_fresh :: "cdt \<Rightarrow> cdt" where
  "cdt_fresh d = d\<lparr>d_flags := 0, d_refcount := 0\<rparr>"

lemma cdt_fresh_simps [simp]:
  "d_name (cdt_fresh d) = d_name d" "d_members (cdt_fresh d) = d_members d"
  by (simp_all add: cdt_fresh_def)

lemma wf_cdts_prefix:
  assumes "wf_cdts dts"
  shows "wf_cdts (take i (map cdt_fresh dts))"
proof -
  have "map (lname \<circ> d_name) (take i (map cdt_fresh dts)) = take i (map (lname \<circ> d_name) dts)"
    by (simp add: take_map)
  then have "distinct (map (lname \<circ> d_name) (take i (map cdt_fresh dts)))"
    using assms by (simp only: wf_cdts_def distinct_take)
  with assms show ?thesis
    by (auto simp: wf_cdts_def wf_cdt_def)
qed

lemma type_name_prefix:
  assumes "wf_cdts dts" and "i \<le> length dts" and "cdt_ref_ok i t"
  shows "type_name (take i (map cdt_fresh dts)) t = type_name dts t"
proof (cases "t \<in> set base_types")
  case True
  then show ?thesis
    using base_types_not_custom [OF True] by (simp add: type_name_def cdt_get_name_def)
next
  case False
  with assms(3) obtain j where j: "j < i" "t = CDT_TO_TYPE (of_nat j)"
    by (auto simp: cdt_ref_ok_def)
  then show ?thesis
    using assms cdt_get_name_cdt [OF assms(1), of j]
      cdt_get_name_cdt [OF wf_cdts_prefix [OF assms(1), of i], of j]
    by (simp add: type_name_def)
qed

lemma cdt_str_prefix:
  assumes "wf_cdts dts" and "i < k" and "k \<le> length dts"
  shows "cdt_str (take k (map cdt_fresh dts)) (dts ! i) = cdt_str dts (dts ! i)"
proof -
  have "\<forall>m\<in>set (d_members (dts ! i)). cdt_ref_ok k (m_type m)"
    using wf_cdtsD(1) [OF assms(1), of i] assms(2,3)
    by (auto simp: wf_cdt_def intro: cdt_ref_ok_mono)
  then have "map (member_str (take k (map cdt_fresh dts))) (d_members (dts ! i)) =
      map (member_str dts) (d_members (dts ! i))"
    using type_name_prefix [OF assms(1,3)] by (simp add: member_str_def)
  then have "map (\<lambda>m. CHR '':'' # member_str (take k (map cdt_fresh dts)) m) (d_members (dts ! i)) =
      map (\<lambda>m. CHR '':'' # member_str dts m) (d_members (dts ! i))"
    by simp
  then show ?thesis by (simp only: cdt_str_def)
qed

lemma cdt_create_existing:
  assumes "wf_cdts (cdts s)" and "i < length (cdts s)" and "alloc_all E"
  shows "cdt_create E s (cdt_str (cdts s) (cdts s ! i)) = Some (CDT_TO_TYPE (of_nat i), None, s)"
proof -
  let ?d = "cdts s ! i"
  have wf: "wf_cdt i ?d" using assms(1,2) by (rule wf_cdtsD)
  then have ms: "\<forall>m\<in>set (d_members ?d). cdt_ref_ok (length (cdts s)) (m_type m) \<and>
      validate_name (m_name m) = 0"
    using assms(2) by (auto simp: wf_cdt_def intro: cdt_ref_ok_mono)
  have v: "validate_name (d_name ?d) = 0" using wf by (simp add: wf_cdt_def)
  show ?thesis
    using strtok_cdt_str [OF assms(1) v ms] cdt_get_type_cdt [OF assms(1,2)]
      serialize_cdt [OF assms(1,2), of E] assms(3) v
    by (simp add: cdt_create_def)
qed

lemma cdt_create_next:
  assumes "wf_cdts dts" and "i < length dts" and "cdts s = take i (map cdt_fresh dts)"
    and "alloc_all E"
  obtains t sz where "cdt_create E s (cdt_str dts (dts ! i)) =
    Some (t, Some 0, s\<lparr>cdts := take (Suc i) (map cdt_fresh dts), datatype_size := sz\<rparr>)"
proof -
  let ?pre = "take i (map cdt_fresh dts)" and ?d = "dts ! i"
  note wfp = wf_cdts_prefix [OF assms(1), of i]
  have len: "length ?pre = i" using assms(2) by simp
  have wf: "wf_cdt i ?d" using assms(1,2) by (rule wf_cdtsD)
  then have ms: "\<forall>m\<in>set (d_members ?d). cdt_ref_ok (length ?pre) (m_type m) \<and>
      validate_name (m_name m) = 0"
    unfolding len by (auto simp: wf_cdt_def)
  have v: "validate_name (d_name ?d) = 0" using wf by (simp add: wf_cdt_def)
  have str: "cdt_str dts ?d = cdt_str ?pre ?d"
  proof -
    have "map (member_str ?pre) (d_members ?d) = map (member_str dts) (d_members ?d)"
      using ms type_name_prefix [OF assms(1), of i] assms(2) by (simp add: member_str_def len)
    then have "map (\<lambda>m. CHR '':'' # member_str ?pre m) (d_members ?d) =
        map (\<lambda>m. CHR '':'' # member_str dts m) (d_members ?d)" by simp
    then show ?thesis by (simp only: cdt_str_def)
  qed
  have new: "cdt_get_type ?pre (d_name ?d) = 0"
  proof -
    have "distinct (take (Suc i) (map (lname \<circ> d_name) dts))"
      using wf_cdtsD(3) [OF assms(1)] by (rule distinct_take)
    then have "lname (d_name ?d) \<notin> set (map (lname \<circ> d_name) ?pre)"
      using assms(2) by (simp add: take_Suc_conv_app_nth take_map comp_def)
    with wf show ?thesis by (simp add: cdt_get_type_eq_0 wf_cdt_def)
  qed
  have app: "cdt_append_all E ?pre [] (map (member_str ?pre) (d_members ?d)) = Inr (d_members ?d)"
    using cdt_append_all_members [OF wfp, of E "d_members ?d" "[]"] ms assms(4) wf
    by (simp add: wf_cdt_def)
  have snoc: "?pre @ [\<lparr>d_name = d_name ?d, d_flags = 0, d_refcount = 0, d_members = d_members ?d\<rparr>] =
      take (Suc i) (map cdt_fresh dts)"
    using assms(2) by (simp add: take_Suc_conv_app_nth cdt_fresh_def)
  have "cdt_create E s (cdt_str dts ?d) = Some (cdt_install E s (d_name ?d) (d_members ?d))"
    using strtok_cdt_str [OF wfp v ms] new app assms(3,4) v
    by (simp add: cdt_create_def str)
  moreover have "cdt_install E s (d_name ?d) (d_members ?d) =
      (CDT_TO_TYPE (of_nat (length (cdts s))), Some 0,
       s\<lparr>cdts := take (Suc i) (map cdt_fresh dts), datatype_size :=
         (if length (cdts s) = datatype_size s then datatype_size s + DAX_DATATYPE_SIZE
          else datatype_size s)\<rparr>)"
    using assms(4) by (simp only: cdt_install_def snoc [folded assms(3)] alloc_allD simp_thms if_False)
  ultimately show ?thesis using that by (simp only:)
qed

lemma create_types_from:
  assumes "wf_cdts dts" and "alloc_all E" and "k \<le> length dts"
    and "cdts s = take k (map cdt_fresh dts)" and "j \<le> k"
  shows "\<exists>s'. create_types E s (map (\<lambda>i. cdt_str dts (dts ! i)) [j..<length dts]) = Some s' \<and>
    cdts s' = map cdt_fresh dts"
  using assms(3-5)
proof (induction "length dts - j" arbitrary: j k s)
  case 0
  then show ?case by simp
next
  case (Suc n)
  then have j: "j < length dts" by simp
  then have up: "[j..<length dts] = j # [Suc j..<length dts]" by (rule upt_conv_Cons)
  show ?case
  proof (cases "j < k")
    case True
    have "cdt_str dts (dts ! j) = cdt_str (cdts s) (cdts s ! j)"
      using cdt_str_prefix [OF assms(1) True Suc.prems(1)] Suc.prems True
      by (simp add: cdt_str_def)
    then have "cdt_create E s (cdt_str dts (dts ! j)) = Some (CDT_TO_TYPE (of_nat j), None, s)"
      using cdt_create_existing [of s j E] wf_cdts_prefix [OF assms(1), of k] Suc.prems True assms(2)
      by simp
    with Suc.hyps(1) [of "Suc j" k s] Suc.hyps(2) Suc.prems True up show ?thesis by simp
  next
    case False
    with Suc.prems have k: "k = j" by simp
    from cdt_create_next [OF assms(1) j _ assms(2), of s] Suc.prems k
    obtain t sz where c: "cdt_create E s (cdt_str dts (dts ! j)) =
      Some (t, Some 0, s\<lparr>cdts := take (Suc j) (map cdt_fresh dts), datatype_size := sz\<rparr>)"
      by blast
    with Suc.hyps(1) [of "Suc j" "Suc j"
        "s\<lparr>cdts := take (Suc j) (map cdt_fresh dts), datatype_size := sz\<rparr>"] Suc.hyps(2) j up
    show ?thesis by simp
  qed
qed

end
