(* ===== verification/Tag_Index.thy ===== *)
theory Tag_Index
  imports Server_State
begin

text \<open>
  The index of tag names (\<^verbatim>\<open>tagbase.c\<close>: \<^verbatim>\<open>_get_by_name\<close>, \<^verbatim>\<open>_add_index\<close>, \<^verbatim>\<open>_del_index\<close>): an
  array sorted by name, searched by bisection. It implements a finite map from names to tag
  indices; the interface \<open>name_map\<close> states that contract and is interpreted on the array.
\<close>

section \<open>The code on the array\<close>

text \<open>
  The array of \<^verbatim>\<open>_dbsize\<close> entries, the number \<^verbatim>\<open>_indexcount\<close> of entries in use and \<^verbatim>\<open>_dbsize\<close>.
  The bisection is the same loop in the three functions: \<^verbatim>\<open>Inr\<close> is the position of the name,
  \<^verbatim>\<open>Inl\<close> the value of \<^verbatim>\<open>min\<close> when the loop ends without finding it.
\<close>

record name_idx =
  ix_arr :: "(string \<times> int) list"
  ix_count :: int
  ix_size :: int

function idx_search :: "(string \<times> int) list \<Rightarrow> string \<Rightarrow> int \<Rightarrow> int \<Rightarrow> (int + int) option" where
  "idx_search ix name mn mx =
    (if mn \<le> mx then
       let try = mn + (mx - mn) div 2
       in case arr_get ix try of
            None \<Rightarrow> None
          | Some e \<Rightarrow>
              let i = strcmp name (fst e)
              in if 0 < i then idx_search ix name (try + 1) mx
                 else if i < 0 then idx_search ix name mn (try - 1)
                 else Some (Inr try)
     else Some (Inl mn))"
  by pat_completeness auto
termination
  by (relation "measure (\<lambda>(ix, name, mn, mx). nat (mx - mn + 1))") auto

declare idx_search.simps [simp del]

definition idx_lookup :: "name_idx \<Rightarrow> string \<Rightarrow> int option" where
  "idx_lookup i name =
    (case idx_search (ix_arr i) name 0 (ix_count i - 1) of
       Some (Inr t) \<Rightarrow> map_option snd (arr_get (ix_arr i) t)
     | _ \<Rightarrow> None)"

text \<open>The insertion of \<^verbatim>\<open>_add_index\<close>; a name that is already there fails its assertion.\<close>

definition idx_insert :: "name_idx \<Rightarrow> string \<Rightarrow> int \<Rightarrow> name_idx option" where
  "idx_insert i name index =
    do {
      (n, ix) \<leftarrow>
        (if ix_count i = 0 then Some (0, ix_arr i)
         else
           (case idx_search (ix_arr i) name 0 (ix_count i - 1) of
              Some (Inl n) \<Rightarrow>
                do {
                  src \<leftarrow> mem_get (ix_arr i) n (ix_size i - n - 1);
                  ix \<leftarrow> mem_put (ix_arr i) (n + 1) src;
                  Some (n, ix)
                }
            | _ \<Rightarrow> None));
      ix' \<leftarrow> arr_set ix n (name, index);
      Some (i\<lparr>ix_arr := ix', ix_count := ix_count i + 1\<rparr>)
    }"

text \<open>The removal of \<^verbatim>\<open>_del_index\<close>; a name that is not there leaves the position at -1.\<close>

definition idx_delete :: "name_idx \<Rightarrow> string \<Rightarrow> name_idx option" where
  "idx_delete i name =
    do {
      r \<leftarrow> idx_search (ix_arr i) name 0 (ix_count i - 1);
      let n = (case r of Inr t \<Rightarrow> t | Inl _ \<Rightarrow> - 1);
      src \<leftarrow> mem_get (ix_arr i) (n + 1) (ix_size i - n - 1);
      ix \<leftarrow> mem_put (ix_arr i) n src;
      Some (i\<lparr>ix_arr := ix, ix_count := ix_count i - 1\<rparr>)
    }"

section \<open>The functions of the server\<close>

definition idx_of :: "server \<Rightarrow> name_idx" where
  "idx_of s = \<lparr>ix_arr = name_index s, ix_count = indexcount s, ix_size = dbsize s\<rparr>"

text \<open>\<^verbatim>\<open>_get_by_name\<close>: the tag's index or an error; reading past the array is undefined.\<close>

definition get_by_name :: "server \<Rightarrow> string \<Rightarrow> int option" where
  "get_by_name s name =
    do {
      r \<leftarrow> idx_search (name_index s) name 0 (indexcount s - 1);
      (case r of
         Inr t \<Rightarrow> map_option snd (arr_get (name_index s) t)
       | Inl _ \<Rightarrow> Some ERR_NOTFOUND)
    }"

definition add_index :: "env \<Rightarrow> server \<Rightarrow> string \<Rightarrow> int \<Rightarrow> (int \<times> server) option" where
  "add_index E s name index =
    (if \<not> alloc E A_index_name then Some (ERR_ALLOC, s)
     else
       do {
         i \<leftarrow> idx_insert (idx_of s) name index;
         t \<leftarrow> get_tag s index;
         Some (0, (set_tag s index (t\<lparr>t_name := Some name\<rparr>))
                   \<lparr>name_index := ix_arr i, indexcount := ix_count i\<rparr>)
       })"

definition del_index :: "server \<Rightarrow> string \<Rightarrow> server option" where
  "del_index s name =
    do {
      i \<leftarrow> idx_delete (idx_of s) name;
      Some (s\<lparr>name_index := ix_arr i, indexcount := ix_count i\<rparr>)
    }"

section \<open>The bisection\<close>

definition idx_entries :: "name_idx \<Rightarrow> (string \<times> int) list" where
  "idx_entries i = take (nat (ix_count i)) (ix_arr i)"

definition idx_inv :: "name_idx \<Rightarrow> bool" where
  "idx_inv i \<longleftrightarrow>
    0 \<le> ix_count i \<and> ix_count i \<le> ix_size i \<and> ix_size i = int (length (ix_arr i)) \<and>
    sorted_wrt str_less (map fst (idx_entries i))"

definition idx_room :: "name_idx \<Rightarrow> bool" where
  "idx_room i \<longleftrightarrow> ix_count i < ix_size i"

definition split_at :: "(string \<times> int) list \<Rightarrow> string \<Rightarrow> int + int \<Rightarrow> bool" where
  "split_at xs name r =
    (case r of
       Inr t \<Rightarrow> 0 \<le> t \<and> nat t < length xs \<and> fst (xs ! nat t) = name
     | Inl p \<Rightarrow> 0 \<le> p \<and> nat p \<le> length xs \<and> (\<forall>k<nat p. str_less (fst (xs ! k)) name) \<and>
         (\<forall>k. nat p \<le> k \<and> k < length xs \<longrightarrow> str_less name (fst (xs ! k))))"

lemma sorted_nth_less:
  assumes "sorted_wrt str_less (map fst xs)" and "j < k" and "k < length xs"
  shows "str_less (fst (xs ! j)) (fst (xs ! k))"
  using sorted_wrt_nth_less [OF assms(1,2)] assms by simp

lemma idx_search_correct:
  assumes "sorted_wrt str_less (map fst xs)" and "xs = take n ix" and "n \<le> length ix"
    and "0 \<le> mn" and "mn \<le> mx + 1" and "mx < int n"
    and "\<forall>k<nat mn. str_less (fst (xs ! k)) name"
    and "\<forall>k. mx < int k \<and> k < n \<longrightarrow> str_less name (fst (xs ! k))"
  shows "\<exists>r. idx_search ix name mn mx = Some r \<and> split_at xs name r"
  using assms(4-8)
proof (induction "nat (mx - mn + 1)" arbitrary: mn mx rule: less_induct)
  case less
  have len: "length xs = n" using assms(2,3) by simp
  show ?case
  proof (cases "mn \<le> mx")
    case False
    then have "mn = mx + 1" using less.prems(2) by simp
    then have "split_at xs name (Inl mn)"
      using less.prems len by (auto simp: split_at_def)
    moreover have "idx_search ix name mn mx = Some (Inl mn)"
      using False by (subst idx_search.simps) simp
    ultimately show ?thesis by blast
  next
    case True
    define t where "t = mn + (mx - mn) div 2"
    have t: "mn \<le> t" "t \<le> mx" using True by (simp_all add: t_def)
    have tn: "0 \<le> t" "nat t < n" using t less.prems(1,3) by simp_all
    then have get: "arr_get ix t = Some (xs ! nat t)"
      using assms(2,3) by (simp add: arr_get_def)
    have step: "idx_search ix name mn mx =
      (if 0 < strcmp name (fst (xs ! nat t)) then idx_search ix name (t + 1) mx
       else if strcmp name (fst (xs ! nat t)) < 0 then idx_search ix name mn (t - 1)
       else Some (Inr t))"
      using True get by (subst idx_search.simps) (simp add: t_def [symmetric] Let_def)
    consider (gt) "0 < strcmp name (fst (xs ! nat t))" | (lt) "strcmp name (fst (xs ! nat t)) < 0"
      | (eq) "strcmp name (fst (xs ! nat t)) = 0" by linarith
    then show ?thesis
    proof cases
      case gt
      then have less_t: "str_less (fst (xs ! nat t)) name" by (simp add: strcmp_gt_iff)
      have "\<forall>k<nat (t + 1). str_less (fst (xs ! k)) name"
      proof (intro allI impI)
        fix k assume "k < nat (t + 1)"
        then have "k < nat t \<or> k = nat t" using tn by linarith
        then show "str_less (fst (xs ! k)) name"
          using less_t sorted_nth_less [OF assms(1), of k "nat t"] tn len str_less_trans by blast
      qed
      with less.hyps [of mx "t + 1"] less.prems t gt step show ?thesis by simp
    next
      case lt
      then have t_less: "str_less name (fst (xs ! nat t))" by (simp add: str_less_def)
      have "\<forall>k. t - 1 < int k \<and> k < n \<longrightarrow> str_less name (fst (xs ! k))"
      proof (intro allI impI)
        fix k assume "t - 1 < int k \<and> k < n"
        then have "(nat t < k \<or> k = nat t) \<and> k < n" using tn by linarith
        then show "str_less name (fst (xs ! k))"
          using t_less sorted_nth_less [OF assms(1), of "nat t" k] len str_less_trans by blast
      qed
      with less.hyps [of "t - 1" mn] less.prems t lt step show ?thesis by simp
    next
      case eq
      then have "split_at xs name (Inr t)" using tn len by (simp add: split_at_def)
      with eq step show ?thesis by simp
    qed
  qed
qed

lemma idx_search_entries:
  assumes "idx_inv i"
  obtains r where "idx_search (ix_arr i) name 0 (ix_count i - 1) = Some r"
    and "split_at (idx_entries i) name r"
proof -
  have "\<exists>r. idx_search (ix_arr i) name 0 (ix_count i - 1) = Some r \<and> split_at (idx_entries i) name r"
    using assms by (intro idx_search_correct) (auto simp: idx_inv_def idx_entries_def)
  then show ?thesis using that by blast
qed

text \<open>Looking up a name is looking it up in the list of entries.\<close>

lemma sorted_distinct_names: "sorted_wrt str_less (map fst xs) \<Longrightarrow> distinct (map fst xs)"
  by (induction xs) (auto simp: image_iff)

lemma split_at_Inl_not_in: "split_at xs name (Inl p) \<Longrightarrow> name \<notin> fst ` set xs"
proof
  assume sp: "split_at xs name (Inl p)" and "name \<in> fst ` set xs"
  then obtain k where k: "k < length xs" "fst (xs ! k) = name"
    by (auto simp: in_set_conv_nth)
  show False
  proof (cases "k < nat p")
    case True
    with sp k show ?thesis by (auto simp: split_at_def)
  next
    case False
    with sp k(1) have "str_less name (fst (xs ! k))" by (auto simp: split_at_def)
    with k(2) show ?thesis by simp
  qed
qed

lemma idx_lookup_map_of:
  assumes "idx_inv i"
  shows "idx_lookup i name = map_of (idx_entries i) name"
proof -
  from assms obtain r where r: "idx_search (ix_arr i) name 0 (ix_count i - 1) = Some r"
    and sp: "split_at (idx_entries i) name r" by (rule idx_search_entries)
  show ?thesis
  proof (cases r)
    case (Inl p)
    then have "map_of (idx_entries i) name = None"
      using split_at_Inl_not_in sp by (simp add: map_of_eq_None_iff)
    with Inl r show ?thesis by (simp add: idx_lookup_def)
  next
    case (Inr t)
    with sp have t: "0 \<le> t" "nat t < length (idx_entries i)" "fst (idx_entries i ! nat t) = name"
      by (simp_all add: split_at_def)
    then have "arr_get (ix_arr i) t = Some (idx_entries i ! nat t)"
      by (auto simp: arr_get_def idx_entries_def nat_less_iff)
    moreover have "distinct (map fst (idx_entries i))"
      using assms by (simp add: idx_inv_def sorted_distinct_names)
    then have "map_of (idx_entries i) name = Some (snd (idx_entries i ! nat t))"
      using t by (intro map_of_is_SomeI) (auto simp: in_set_conv_nth prod_eq_iff)
    ultimately show ?thesis using Inr r by (simp add: idx_lookup_def)
  qed
qed

section \<open>Insertion and removal\<close>

lemma idx_entries_upd [simp]: "idx_entries (i\<lparr>ix_arr := a, ix_count := c\<rparr>) = take (nat c) a"
  by (simp add: idx_entries_def)

lemma idx_insert_entries:
  assumes "idx_inv i" and "idx_room i" and "name \<notin> fst ` set (idx_entries i)"
  obtains i' p where "idx_insert i name v = Some i'" and "ix_size i' = ix_size i"
    and "ix_count i' = ix_count i + 1" and "length (ix_arr i') = length (ix_arr i)"
    and "p \<le> length (idx_entries i)"
    and "split_at (idx_entries i) name (Inl (int p))"
    and "idx_entries i' = take p (idx_entries i) @ (name, v) # drop p (idx_entries i)"
proof -
  define xs arr where "xs = idx_entries i" and "arr = ix_arr i"
  from assms(1,2) have c: "0 \<le> ix_count i" "ix_count i < int (length arr)" "ix_size i = int (length arr)"
    by (simp_all add: idx_inv_def idx_room_def arr_def)
  then have xs: "xs = take (nat (ix_count i)) arr" "length xs = nat (ix_count i)"
    by (simp_all add: xs_def arr_def idx_entries_def)
  show ?thesis
  proof (cases "ix_count i = 0")
    case True
    let ?i = "i\<lparr>ix_arr := arr[0 := (name, v)], ix_count := 1\<rparr>"
    have ins: "idx_insert i name v = Some ?i"
      using True c by (simp add: idx_insert_def arr_set_def arr_def)
    have "take (nat 1) (arr[0 := (name, v)]) = [(name, v)]"
      using c True by (cases arr) simp_all
    then have e: "idx_entries ?i = take 0 xs @ (name, v) # drop 0 xs"
      using True xs by (simp only: idx_entries_upd) simp
    show ?thesis
    proof (rule that)
      show "idx_insert i name v = Some ?i" by (rule ins)
      show "split_at (idx_entries i) name (Inl (int 0))"
        using True xs by (simp add: split_at_def xs_def)
    qed (use True e in \<open>simp_all only: xs_def\<close>, simp_all add: arr_def)
  next
    case False
    from assms(1) obtain r where r: "idx_search arr name 0 (ix_count i - 1) = Some r"
      and sp: "split_at xs name r" unfolding arr_def xs_def by (rule idx_search_entries)
    from sp assms(3) obtain m where m: "r = Inl m"
      by (cases r) (auto simp: split_at_def xs_def dest: nth_mem)
    define p where "p = nat m"
    have p: "m = int p" "p \<le> length xs" "p < length arr"
      using sp c xs by (auto simp: m split_at_def p_def)
    let ?arr = "take p arr @ (name, v) # take (length arr - p - 1) (drop p arr)"
    have g: "mem_get arr m (ix_size i - m - 1) = Some (take (length arr - p - 1) (drop p arr))"
      using c(3) p(3) unfolding p(1) by (simp add: mem_get_def nat_diff_distrib')
    have q: "mem_put arr (m + 1) (take (length arr - p - 1) (drop p arr)) =
        Some (take (p + 1) arr @ take (length arr - p - 1) (drop p arr))"
      using p by (simp add: mem_put_def nat_add_distrib)
    have a: "arr_set (take (p + 1) arr @ take (length arr - p - 1) (drop p arr)) m (name, v) = Some ?arr"
      using p by (simp add: arr_set_def list_update_append take_Suc_conv_app_nth)
    have ins: "idx_insert i name v = Some (i\<lparr>ix_arr := ?arr, ix_count := ix_count i + 1\<rparr>)"
      using False r m g q a by (simp add: idx_insert_def arr_def)
    have "take (nat (ix_count i + 1)) ?arr = take p xs @ (name, v) # drop p xs"
    proof -
      have "nat (ix_count i + 1) = p + Suc (length xs - p)"
        using c xs p by (simp add: nat_add_distrib)
      moreover have "length xs - p \<le> length arr - Suc p"
        using c xs p by simp
      moreover have "take (length xs - p) (drop p arr) = drop p xs"
        using xs p by (simp add: take_drop)
      moreover have "take p xs = take p arr" using xs p by (simp add: min_def)
      moreover have "Suc (length xs) - p = Suc (length xs - p)" using p by simp
      ultimately show ?thesis using p by (simp add: min_def)
    qed
    then have e: "idx_entries (i\<lparr>ix_arr := ?arr, ix_count := ix_count i + 1\<rparr>) =
        take p xs @ (name, v) # drop p xs" by (simp only: idx_entries_upd)
    show ?thesis
    proof (rule that)
      show "idx_insert i name v = Some (i\<lparr>ix_arr := ?arr, ix_count := ix_count i + 1\<rparr>)" by (rule ins)
      show "length (ix_arr (i\<lparr>ix_arr := ?arr, ix_count := ix_count i + 1\<rparr>)) = length (ix_arr i)"
        using p by (simp add: arr_def [symmetric])
      show "split_at (idx_entries i) name (Inl (int p))" using sp m p by (simp add: xs_def)
    qed (use p(2) e in \<open>simp_all only: xs_def\<close>, simp_all)
  qed
qed

lemma sorted_insert_at:
  assumes "sorted_wrt str_less (map fst xs)" and "split_at xs name (Inl (int p))"
  shows "sorted_wrt str_less (map fst (take p xs @ (name, v) # drop p xs))"
proof -
  have xs: "sorted_wrt str_less (map fst (take p xs) @ map fst (drop p xs))"
    using assms(1) by (simp flip: map_append)
  have lo: "str_less (fst x) name" if "x \<in> set (take p xs)" for x
  proof -
    from that obtain k where "k < p" "k < length xs" "x = xs ! k" by (auto simp: in_set_conv_nth)
    with assms(2) show ?thesis by (simp add: split_at_def)
  qed
  have hi: "str_less name (fst x)" if "x \<in> set (drop p xs)" for x
  proof -
    from that obtain k where "k < length xs - p" "x = xs ! (p + k)" by (auto simp: in_set_conv_nth)
    with assms(2) show ?thesis by (auto simp: split_at_def)
  qed
  from xs lo hi show ?thesis by (auto simp: sorted_wrt_append)
qed

lemma map_of_insert_at:
  assumes "k \<notin> fst ` set xs"
  shows "map_of (take p xs @ (k, v) # drop p xs) = (map_of xs)(k \<mapsto> v)"
proof
  fix x
  have "map_of xs x = map_of (take p xs @ drop p xs) x" by simp
  then have "map_of xs x = (map_of (drop p xs) ++ map_of (take p xs)) x"
    by (simp only: map_of_append)
  moreover have "map_of (take p xs) k = None"
    using assms by (auto simp: map_of_eq_None_iff dest: in_set_takeD)
  ultimately show "map_of (take p xs @ (k, v) # drop p xs) x = ((map_of xs)(k \<mapsto> v)) x"
    by (auto simp: map_add_def split: option.split)
qed

lemma idx_delete_entries:
  assumes "idx_inv i" and "name \<in> fst ` set (idx_entries i)"
  obtains i' p where "idx_delete i name = Some i'" and "ix_size i' = ix_size i"
    and "ix_count i' = ix_count i - 1" and "length (ix_arr i') = length (ix_arr i)"
    and "p < length (idx_entries i)" and "fst (idx_entries i ! p) = name"
    and "idx_entries i' = take p (idx_entries i) @ drop (p + 1) (idx_entries i)"
proof -
  define xs arr where "xs = idx_entries i" and "arr = ix_arr i"
  from assms(1) have c: "0 \<le> ix_count i" "ix_count i \<le> int (length arr)" "ix_size i = int (length arr)"
    by (simp_all add: idx_inv_def arr_def)
  then have xs: "xs = take (nat (ix_count i)) arr" "length xs = nat (ix_count i)"
    by (simp_all add: xs_def arr_def idx_entries_def)
  from assms(1) obtain r where r: "idx_search arr name 0 (ix_count i - 1) = Some r"
    and sp: "split_at xs name r" unfolding arr_def xs_def by (rule idx_search_entries)
  obtain t where t: "r = Inr t"
    using sp assms(2) split_at_Inl_not_in by (cases r) (auto simp: xs_def)
  define p where "p = nat t"
  have p: "t = int p" "p < length xs" "p < length arr" "fst (xs ! p) = name"
    using sp c xs by (auto simp: t split_at_def p_def)
  let ?arr = "take p arr @ drop (p + 1) arr @ drop (length arr - 1) arr"
  have g: "mem_get arr (t + 1) (ix_size i - t - 1) = Some (drop (p + 1) arr)"
    using p c by (simp add: mem_get_def nat_add_distrib nat_diff_distrib')
  have q: "mem_put arr t (drop (p + 1) arr) = Some ?arr"
    using p by (simp add: mem_put_def)
  have del: "idx_delete i name = Some (i\<lparr>ix_arr := ?arr, ix_count := ix_count i - 1\<rparr>)"
    using r t g q by (simp add: idx_delete_def arr_def)
  have "take (nat (ix_count i - 1)) ?arr = take p xs @ drop (p + 1) xs"
  proof -
    have "nat (ix_count i - 1) = p + (length xs - 1 - p)"
      using c xs p by (simp add: nat_diff_distrib')
    moreover have "take (length xs - 1 - p) (drop (p + 1) arr) = drop (p + 1) xs"
      using xs p by (simp add: take_drop)
    moreover have "take p xs = take p arr" using xs p by (simp add: min_def)
    moreover have "length xs - 1 - p \<le> length (drop (p + 1) arr)" using xs p c by simp
    moreover have "length xs - Suc 0 \<le> p \<Longrightarrow> length xs - Suc 0 = p" using p by simp
    ultimately show ?thesis using p by (auto simp: min_def)
  qed
  then have e: "idx_entries (i\<lparr>ix_arr := ?arr, ix_count := ix_count i - 1\<rparr>) =
      take p xs @ drop (p + 1) xs" by (simp only: idx_entries_upd)
  show ?thesis
  proof (rule that)
    show "idx_delete i name = Some (i\<lparr>ix_arr := ?arr, ix_count := ix_count i - 1\<rparr>)" by (rule del)
    show "length (ix_arr (i\<lparr>ix_arr := ?arr, ix_count := ix_count i - 1\<rparr>)) = length (ix_arr i)"
      using p by (simp add: arr_def [symmetric])
  qed (use p(2,4) e in \<open>simp_all only: xs_def\<close>, simp_all)
qed

lemma idx_insert_inv:
  assumes "idx_inv i" and "idx_room i" and "idx_lookup i name = None"
  shows "\<exists>i'. idx_insert i name v = Some i' \<and> idx_inv i' \<and>
    idx_lookup i' = (idx_lookup i)(name \<mapsto> v)"
proof -
  have ni: "name \<notin> fst ` set (idx_entries i)"
    using assms(3) by (simp add: idx_lookup_map_of [OF assms(1)] map_of_eq_None_iff)
  from idx_insert_entries [OF assms(1,2) ni, of v]
  obtain i' p where i': "idx_insert i name v = Some i'" "ix_size i' = ix_size i"
      "ix_count i' = ix_count i + 1" "length (ix_arr i') = length (ix_arr i)"
      "split_at (idx_entries i) name (Inl (int p))"
      "idx_entries i' = take p (idx_entries i) @ (name, v) # drop p (idx_entries i)"
    by blast
  have inv: "idx_inv i'"
    using assms(1,2) i' sorted_insert_at [OF _ i'(5), of v]
    unfolding idx_inv_def idx_room_def by simp
  have "idx_lookup i' = map_of (idx_entries i')"
    using idx_lookup_map_of [OF inv] by blast
  also have "\<dots> = (map_of (idx_entries i))(name \<mapsto> v)"
    unfolding i'(6) by (rule map_of_insert_at [OF ni])
  also have "map_of (idx_entries i) = idx_lookup i"
    using idx_lookup_map_of [OF assms(1)] by (simp add: fun_eq_iff)
  finally show ?thesis using i'(1) inv by blast
qed

lemma map_of_delete_at:
  assumes "distinct (map fst xs)" and "p < length xs"
  shows "map_of (take p xs @ drop (p + 1) xs) = (map_of xs)(fst (xs ! p) := None)"
proof -
  define a e b where "a = take p xs" and "e = xs ! p" and "b = drop (Suc p) xs"
  have xs: "xs = a @ e # b" using assms(2) by (simp add: a_def b_def e_def id_take_nth_drop [symmetric])
  with assms(1) have "fst e \<notin> fst ` set a" "fst e \<notin> fst ` set b" by auto
  then have "map_of a (fst e) = None" "map_of b (fst e) = None" by (simp_all add: map_of_eq_None_iff)
  then have "map_of (a @ b) = (map_of (a @ e # b))(fst e := None)"
    by (cases e) (auto simp: fun_eq_iff map_add_def split: option.split)
  then have "map_of (a @ b) = (map_of xs)(fst e := None)" by (simp only: xs [symmetric])
  then show ?thesis by (simp only: a_def b_def e_def Suc_eq_plus1)
qed

lemma sorted_delete_at:
  assumes "sorted_wrt str_less (map fst xs)"
  shows "sorted_wrt str_less (map fst (take p xs @ drop (p + 1) xs))"
proof -
  have "sorted_wrt str_less (map fst (take p xs @ drop p xs))" using assms by simp
  then have "sorted_wrt str_less (map fst (take p xs) @ map fst (drop p xs))" by (simp only: map_append)
  moreover have "set (drop (p + 1) xs) \<subseteq> set (drop p xs)" by (rule set_drop_subset_set_drop) simp
  moreover have "sorted_wrt str_less (map fst (drop (p + 1) xs))"
    using assms by (simp add: drop_map [symmetric] sorted_wrt_drop)
  ultimately show ?thesis by (auto simp: sorted_wrt_append)
qed

lemma idx_delete_inv:
  assumes "idx_inv i" and "idx_lookup i name \<noteq> None"
  shows "\<exists>i'. idx_delete i name = Some i' \<and> idx_inv i' \<and> idx_lookup i' = (idx_lookup i)(name := None)"
proof -
  have nin: "name \<in> fst ` set (idx_entries i)"
    using assms(2) by (simp add: idx_lookup_map_of [OF assms(1)] map_of_eq_None_iff)
  from idx_delete_entries [OF assms(1) nin]
  obtain i' p where i': "idx_delete i name = Some i'" "ix_size i' = ix_size i"
      "ix_count i' = ix_count i - 1" "length (ix_arr i') = length (ix_arr i)"
      "p < length (idx_entries i)" "fst (idx_entries i ! p) = name"
      "idx_entries i' = take p (idx_entries i) @ drop (p + 1) (idx_entries i)"
    by blast
  have sorted: "sorted_wrt str_less (map fst (idx_entries i))"
    using assms(1) by (simp add: idx_inv_def)
  have "0 < ix_count i" using i'(5) by (auto simp: idx_entries_def)
  then have inv: "idx_inv i'"
    using assms(1) i'(2-4) sorted_delete_at [OF sorted, of p] i'(7)
    unfolding idx_inv_def by simp
  have "idx_lookup i' = map_of (idx_entries i')"
    using idx_lookup_map_of [OF inv] by blast
  also have "\<dots> = (map_of (idx_entries i))(name := None)"
    unfolding i'(7) i'(6) [symmetric]
    by (rule map_of_delete_at [OF sorted_distinct_names [OF sorted] i'(5)])
  also have "map_of (idx_entries i) = idx_lookup i"
    using idx_lookup_map_of [OF assms(1)] by (simp add: fun_eq_iff)
  finally show ?thesis using i'(1) inv by blast
qed

section \<open>The contract of the index\<close>

text \<open>
  What the tag database relies on: names map to tag indices, an insertion adds one pair and a
  removal takes one away; both succeed on the states the database calls them in.
\<close>

locale name_map =
  fixes look :: "'i \<Rightarrow> string \<Rightarrow> int option"
    and ins :: "'i \<Rightarrow> string \<Rightarrow> int \<Rightarrow> 'i option"
    and del :: "'i \<Rightarrow> string \<Rightarrow> 'i option"
    and room :: "'i \<Rightarrow> bool"
    and inv :: "'i \<Rightarrow> bool"
  assumes ins_spec: "inv i \<Longrightarrow> room i \<Longrightarrow> look i k = None \<Longrightarrow>
      \<exists>i'. ins i k v = Some i' \<and> inv i' \<and> look i' = (look i)(k \<mapsto> v)"
    and del_spec: "inv i \<Longrightarrow> look i k \<noteq> None \<Longrightarrow>
      \<exists>i'. del i k = Some i' \<and> inv i' \<and> look i' = (look i)(k := None)"
begin

lemma ins_found: "inv i \<Longrightarrow> ins i k v = Some i' \<Longrightarrow> room i \<Longrightarrow> look i k = None \<Longrightarrow> look i' k = Some v"
  using ins_spec [of i k v] by auto

lemma ins_frame:
  "inv i \<Longrightarrow> ins i k v = Some i' \<Longrightarrow> room i \<Longrightarrow> look i k = None \<Longrightarrow> l \<noteq> k \<Longrightarrow> look i' l = look i l"
  using ins_spec [of i k v] by auto

lemma del_gone: "inv i \<Longrightarrow> del i k = Some i' \<Longrightarrow> look i k \<noteq> None \<Longrightarrow> look i' k = None"
  using del_spec [of i k] by auto

lemma ins_del:
  assumes "inv i" "room i" "look i k = None"
  shows "\<exists>i1 i2. ins i k v = Some i1 \<and> del i1 k = Some i2 \<and> inv i2 \<and> look i2 = look i"
proof -
  from ins_spec [OF assms] obtain i1 where i1: "ins i k v = Some i1" "inv i1"
    "look i1 = (look i)(k \<mapsto> v)" by blast
  from del_spec [OF i1(2), of k] i1(3) obtain i2 where "del i1 k = Some i2" "inv i2"
    "look i2 = (look i1)(k := None)" by auto
  with i1 assms(3) show ?thesis by (auto simp: fun_upd_idem)
qed

end

interpretation tag_names: name_map idx_lookup idx_insert idx_delete idx_room idx_inv
  using idx_insert_inv idx_delete_inv by unfold_locales blast+

section \<open>The index inside the server\<close>

lemma get_by_name_lookup:
  assumes "idx_inv (idx_of s)"
  shows "get_by_name s name =
    Some (case idx_lookup (idx_of s) name of Some v \<Rightarrow> v | None \<Rightarrow> ERR_NOTFOUND)"
proof -
  from assms obtain r where r: "idx_search (name_index s) name 0 (indexcount s - 1) = Some r"
    and sp: "split_at (idx_entries (idx_of s)) name r"
    using idx_search_entries [OF assms, of name] by (auto simp: idx_of_def)
  show ?thesis
  proof (cases r)
    case (Inl p)
    with r show ?thesis by (simp add: get_by_name_def idx_lookup_def idx_of_def)
  next
    case (Inr t)
    with sp have "0 \<le> t" "nat t < length (name_index s)"
      by (simp_all add: split_at_def idx_entries_def idx_of_def)
    then have "arr_get (name_index s) t = Some (name_index s ! nat t)"
      by (auto simp: arr_get_def nat_less_iff)
    with Inr r show ?thesis by (simp add: get_by_name_def idx_lookup_def idx_of_def)
  qed
qed

lemma idx_of_simps [simp]:
  "ix_arr (idx_of s) = name_index s" "ix_count (idx_of s) = indexcount s" "ix_size (idx_of s) = dbsize s"
  by (simp_all add: idx_of_def)

lemma idx_insert_size: "idx_insert i name v = Some i' \<Longrightarrow> ix_size i' = ix_size i"
  by (auto simp: idx_insert_def)

lemma idx_delete_size: "idx_delete i name = Some i' \<Longrightarrow> ix_size i' = ix_size i"
  by (auto simp: idx_delete_def Let_def)

lemma add_index_spec:
  assumes "idx_inv (idx_of s)" and "idx_room (idx_of s)" and "idx_lookup (idx_of s) name = None"
    and "alloc E A_index_name" and "get_tag s i = Some t"
  obtains ix where "add_index E s name i =
      Some (0, (set_tag s i (t\<lparr>t_name := Some name\<rparr>))\<lparr>name_index := ix_arr ix, indexcount := ix_count ix\<rparr>)"
    and "idx_inv ix" and "ix_size ix = dbsize s" and "ix_count ix = indexcount s + 1"
    and "idx_lookup ix = (idx_lookup (idx_of s))(name \<mapsto> i)"
proof -
  from tag_names.ins_spec [OF assms(1-3), of i] obtain ix where ix: "idx_insert (idx_of s) name i = Some ix"
      "idx_inv ix" "idx_lookup ix = (idx_lookup (idx_of s))(name \<mapsto> i)" by blast
  have "ix_count ix = indexcount s + 1"
    using ix(1) by (auto simp: idx_insert_def)
  with ix assms(4,5) that idx_insert_size [OF ix(1)] show ?thesis
    by (simp add: add_index_def)
qed

lemma del_index_spec:
  assumes "idx_inv (idx_of s)" and "idx_lookup (idx_of s) name \<noteq> None"
  obtains ix where "del_index s name = Some (s\<lparr>name_index := ix_arr ix, indexcount := ix_count ix\<rparr>)"
    and "idx_inv ix" and "ix_size ix = dbsize s" and "ix_count ix = indexcount s - 1"
    and "idx_lookup ix = (idx_lookup (idx_of s))(name := None)"
proof -
  from tag_names.del_spec [OF assms] obtain ix where ix: "idx_delete (idx_of s) name = Some ix"
      "idx_inv ix" "idx_lookup ix = (idx_lookup (idx_of s))(name := None)" by blast
  have "ix_count ix = indexcount s - 1"
    using ix(1) by (auto simp: idx_delete_def Let_def)
  with ix that idx_delete_size [OF ix(1)] show ?thesis
    by (simp add: del_index_def)
qed

lemma name_idx_eta: "ix_size ix = z \<Longrightarrow> \<lparr>ix_arr = ix_arr ix, ix_count = ix_count ix, ix_size = z\<rparr> = ix"
  by auto

end
