(* ===== verification/Module_Ring.thy ===== *)
theory Module_Ring
  imports Server_State
begin

text \<open>
  The list of modules (\<^verbatim>\<open>module.c\<close>): a circular doubly linked list whose current element moves
  to the last module found. The first part has the pointers as the code has them and shows
  that they implement a list that is rotated, extended and shortened; the second part has the
  functions of the server on that list.
\<close>

section \<open>The ring of pointers\<close>

record ring =
  r_next :: "nat \<Rightarrow> nat"
  r_prev :: "nat \<Rightarrow> nat"
  r_cur :: "nat option"

text \<open>\<^verbatim>\<open>module_add\<close>: the new module is linked in after the current one and becomes current.\<close>

definition ring_add :: "ring \<Rightarrow> nat \<Rightarrow> ring" where
  "ring_add r new =
    (case r_cur r of
       None \<Rightarrow> r\<lparr>r_next := (r_next r)(new := new), r_prev := (r_prev r)(new := new), r_cur := Some new\<rparr>
     | Some c \<Rightarrow>
         let nxt1 = (r_next r)(new := r_next r c);
             prv1 = (r_prev r)(new := c);
             prv2 = prv1(nxt1 c := new);
             nxt2 = nxt1(c := new)
         in r\<lparr>r_next := nxt2, r_prev := prv2, r_cur := Some new\<rparr>)"

text \<open>\<^verbatim>\<open>module_del\<close>\<close>

definition ring_del :: "ring \<Rightarrow> nat \<Rightarrow> ring" where
  "ring_del r m =
    (if r_next r m = m then r\<lparr>r_cur := None\<rparr>
     else
       let prv1 = (r_prev r)(r_next r m := r_prev r m);
           nxt1 = (r_next r)(prv1 m := r_next r m)
       in r\<lparr>r_next := nxt1, r_prev := prv1,
            r_cur := (if r_cur r = Some m then Some (nxt1 m) else r_cur r)\<rparr>)"

text \<open>
  \<^verbatim>\<open>module_find_fd\<close> and \<^verbatim>\<open>_get_module_fd\<close>: the loop around the ring. It returns the module found,
  if any, and the current module it leaves.
\<close>

partial_function (option) ring_loop ::
  "(nat \<Rightarrow> int) \<Rightarrow> (nat \<Rightarrow> nat) \<Rightarrow> int \<Rightarrow> nat \<Rightarrow> nat \<Rightarrow> (nat option \<times> nat) option" where
  "ring_loop fds nxt fd stop c =
    (if fds c = fd then Some (Some c, c)
     else if nxt c = stop then Some (None, nxt c)
     else ring_loop fds nxt fd stop (nxt c))"

definition ring_find :: "(nat \<Rightarrow> int) \<Rightarrow> ring \<Rightarrow> int \<Rightarrow> (nat option \<times> ring) option" where
  "ring_find fds r fd =
    (case r_cur r of
       None \<Rightarrow> Some (None, r)
     | Some c \<Rightarrow>
         map_option (\<lambda>(m, c'). (m, r\<lparr>r_cur := Some c'\<rparr>)) (ring_loop fds (r_next r) fd c c))"

section \<open>The list a ring implements\<close>

fun chain :: "ring \<Rightarrow> nat \<Rightarrow> nat list \<Rightarrow> nat \<Rightarrow> bool" where
  "chain r a [] b \<longleftrightarrow> r_next r a = b \<and> r_prev r b = a"
| "chain r a (x # xs) b \<longleftrightarrow> r_next r a = x \<and> r_prev r x = a \<and> chain r x xs b"

fun ring_list :: "ring \<Rightarrow> nat list \<Rightarrow> bool" where
  "ring_list r [] \<longleftrightarrow> r_cur r = None"
| "ring_list r (c # xs) \<longleftrightarrow> r_cur r = Some c \<and> distinct (c # xs) \<and> chain r c xs c"

lemma chain_append: "chain r a (xs @ y # ys) b \<longleftrightarrow> chain r a xs y \<and> chain r y ys b"
  by (induction xs arbitrary: a) auto

text \<open>A chain only depends on the next pointers of its sources and the previous ones of its targets.\<close>

lemma chain_cong:
  assumes "\<forall>x\<in>insert a (set xs). r_next r' x = r_next r x"
    and "\<forall>x\<in>insert b (set xs). r_prev r' x = r_prev r x"
  shows "chain r' a xs b = chain r a xs b"
  using assms by (induction xs arbitrary: a) auto

lemma chain_cur [simp]: "chain (r\<lparr>r_cur := x\<rparr>) a xs b = chain r a xs b"
  by (rule chain_cong) auto

text \<open>The rotation that searching leaves: the found module comes first.\<close>

fun rot_to :: "(nat \<Rightarrow> bool) \<Rightarrow> nat list \<Rightarrow> nat list" where
  "rot_to P xs = (if list_ex P xs then dropWhile (\<lambda>x. \<not> P x) xs @ takeWhile (\<lambda>x. \<not> P x) xs else xs)"

lemma rot_to_cases:
  obtains a b where "xs = a @ b" and "rot_to P xs = b @ a"
proof (cases "list_ex P xs")
  case True
  then show ?thesis
    using that [of "takeWhile (\<lambda>x. \<not> P x) xs" "dropWhile (\<lambda>x. \<not> P x) xs"] by simp
next
  case False
  then show ?thesis using that [of "[]" xs] by simp
qed

lemma rot_to_set: "set (rot_to P xs) = set xs"
  by (rule rot_to_cases [of xs P]) auto

lemma rot_to_perm: "length (rot_to P xs) = length xs \<and> (distinct xs \<longrightarrow> distinct (rot_to P xs))"
  by (rule rot_to_cases [of xs P]) auto

lemma ring_list_add:
  assumes "ring_list r xs" and "new \<notin> set xs"
  shows "ring_list (ring_add r new) (case xs of [] \<Rightarrow> [new] | c # cs \<Rightarrow> new # cs @ [c])"
proof (cases xs)
  case Nil
  with assms show ?thesis by (simp add: ring_add_def)
next
  case (Cons c cs)
  show ?thesis
  proof (cases cs)
    case Nil
    with Cons assms show ?thesis by (auto simp: ring_add_def Let_def)
  next
    case (Cons d ds)
    with \<open>xs = c # cs\<close> assms have ch: "r_next r c = d" "r_prev r d = c" "chain r d ds c"
      and dist: "distinct (c # d # ds)" and new: "new \<notin> set (c # d # ds)" and cur: "r_cur r = Some c"
      by auto
    let ?r = "ring_add r new"
    have r': "r_next ?r = ((r_next r)(new := d))(c := new)" "r_prev ?r = ((r_prev r)(new := c))(d := new)"
      "r_cur ?r = Some new"
      using cur ch(1) new by (auto simp: ring_add_def Let_def)
    have "chain ?r d ds c = chain r d ds c"
      using dist new by (intro chain_cong) (auto simp: r')
    then have "chain ?r new (d # ds @ [c]) new"
      using ch dist new by (simp add: chain_append r')
    with Cons \<open>xs = c # cs\<close> dist new r' show ?thesis by simp
  qed
qed

text \<open>Unlinking \<open>m\<close> between two chains.\<close>

lemma chain_first:
  assumes "chain r m ys b" and "r_next r' p = hd (ys @ [b])" and "r_prev r' (hd (ys @ [b])) = p"
    and "\<forall>x\<in>set ys. r_next r' x = r_next r x" and "\<forall>x\<in>set (tl (ys @ [b])). r_prev r' x = r_prev r x"
  shows "chain r' p ys b"
proof (cases ys)
  case Nil
  with assms show ?thesis by simp
next
  case (Cons y zs)
  with assms have "chain r' y zs b = chain r y zs b" by (intro chain_cong) auto
  with Cons assms show ?thesis by simp
qed

lemma chain_last: "chain r a xs m \<Longrightarrow> r_prev r m = last (a # xs) \<and> r_next r (last (a # xs)) = m"
  by (induction xs arbitrary: a) auto

lemma chain_hd: "chain r m ys b \<Longrightarrow> r_next r m = hd (ys @ [b])"
  by (cases ys) auto

lemma chain_splice:
  assumes "chain r a xs m" and "chain r m ys b" and "distinct (a # xs @ ys)"
    and "distinct (xs @ ys @ [b])" and "m \<notin> set (a # xs @ ys @ [b])"
    and "r_next r' = (r_next r)(r_prev r m := r_next r m)"
    and "r_prev r' = (r_prev r)(r_next r m := r_prev r m)"
  shows "chain r' a (xs @ ys) b"
proof (cases xs rule: rev_cases)
  case Nil
  with assms(1) have pm: "r_prev r m = a" by simp
  have "chain r' a ys b"
  proof (rule chain_first [OF assms(2)])
    show "\<forall>x\<in>set (tl (ys @ [b])). r_prev r' x = r_prev r x"
      using assms(4) Nil chain_hd [OF assms(2)] by (cases ys) (auto simp: assms(7))
  qed (use Nil pm assms(3) chain_hd [OF assms(2)] in \<open>auto simp: assms(6,7)\<close>)
  with Nil show ?thesis by simp
next
  case (snoc ws p)
  with assms(1) have c: "chain r a ws p" "r_next r p = m" "r_prev r m = p" by (auto simp: chain_append)
  have hd: "r_next r m = hd (ys @ [b])" by (rule chain_hd [OF assms(2)])
  then have hdin: "r_next r m \<in> set (ys @ [b])" by (cases ys) auto
  have "chain r' a ws p = chain r a ws p"
    using assms(3,4) snoc c(3) hdin by (intro chain_cong) (auto simp: assms(6,7))
  moreover have "chain r' p ys b"
  proof (rule chain_first [OF assms(2)])
    show "\<forall>x\<in>set (tl (ys @ [b])). r_prev r' x = r_prev r x"
      using assms(4) hd by (cases ys) (auto simp: assms(7))
  qed (use snoc c(3) assms(3) hd in \<open>auto simp: assms(6,7)\<close>)
  ultimately show ?thesis using snoc c(1) by (simp add: chain_append)
qed

lemma ring_del_pointers:
  assumes "r_next r m \<noteq> m" and "r_prev r m \<noteq> m"
  shows "r_next (ring_del r m) = (r_next r)(r_prev r m := r_next r m)"
    and "r_prev (ring_del r m) = (r_prev r)(r_next r m := r_prev r m)"
    and "r_cur (ring_del r m) = (if r_cur r = Some m then Some (r_next r m) else r_cur r)"
  using assms by (auto simp: ring_del_def Let_def)

lemma ring_list_del:
  assumes "ring_list r xs" and "m \<in> set xs"
  shows "ring_list (ring_del r m) (remove1 m xs)"
proof (cases xs)
  case Nil
  with assms show ?thesis by simp
next
  case (Cons c cs)
  with assms have cur: "r_cur r = Some c" and dist: "distinct (c # cs)" and ch: "chain r c cs c" by auto
  show ?thesis
  proof (cases "m = c")
    case True
    show ?thesis
    proof (cases cs)
      case Nil
      with Cons assms ch show ?thesis by (auto simp: ring_del_def)
    next
      case cs: (Cons d ds)
      from ch have c1: "r_next r c = d" "r_prev r d = c" "chain r d ds c" by (auto simp: cs)
      have ne: "r_next r c \<noteq> c" "r_prev r c \<noteq> c"
        using c1 dist cs chain_last [OF c1(3)] last_in_set [of "d # ds"] by auto
      have "chain (ring_del r c) d (ds @ []) d"
        using c1 dist cs by (intro chain_splice [of r d ds c "[]" d] ring_del_pointers ne) auto
      with True Cons cs dist cur show ?thesis by (simp add: ring_del_pointers ne c1)
    qed
  next
    case False
    then obtain ys zs where yz: "cs = ys @ m # zs" using assms(2) Cons by (auto simp: in_set_conv_decomp)
    then have c1: "chain r c ys m" "chain r m zs c" using ch by (auto simp: chain_append)
    have ne: "r_next r m \<noteq> m" "r_prev r m \<noteq> m"
      using dist yz False chain_hd [OF c1(2)] chain_last [OF c1(1)] last_in_set [of "c # ys"]
      by (cases zs; auto)+
    have "chain (ring_del r m) c (ys @ zs) c"
      using c1 dist yz False by (intro chain_splice [of r c ys m zs c] ring_del_pointers ne) auto
    moreover have "remove1 m (ys @ m # zs) = ys @ zs" using dist yz by (simp add: remove1_append)
    ultimately show ?thesis
      using False Cons yz dist cur by (simp add: ring_del_pointers ne)
  qed
qed

text \<open>The search returns, finds the first module along the ring with the descriptor, and leaves it current.\<close>

lemma ring_loop_chain:
  assumes "chain r c xs stop" and "stop \<notin> set xs"
  shows "ring_loop fds (r_next r) fd stop c =
    Some (case find (\<lambda>x. fds x = fd) (c # xs) of Some m \<Rightarrow> (Some m, m) | None \<Rightarrow> (None, stop))"
  using assms
proof (induction xs arbitrary: c)
  case Nil
  then show ?case by (subst ring_loop.simps) simp
next
  case (Cons x xs)
  then show ?case by (subst ring_loop.simps) auto
qed

lemma ring_list_rotate:
  assumes "ring_list r (as @ m # bs)"
  shows "ring_list (r\<lparr>r_cur := Some m\<rparr>) (m # bs @ as)"
proof (cases as)
  case Nil
  with assms show ?thesis by simp
next
  case (Cons c cs)
  let ?r = "r\<lparr>r_cur := Some m\<rparr>"
  from assms Cons have "chain r c cs m" "chain r m bs c" and d: "distinct (c # cs @ m # bs)"
    by (auto simp: chain_append)
  then have "chain r m (bs @ c # cs) m" by (simp add: chain_append)
  with Cons d show ?thesis by auto
qed

text \<open>The list operations the ring implements.\<close>

definition list_add :: "nat list \<Rightarrow> nat \<Rightarrow> nat list" where
  "list_add xs new = (case xs of [] \<Rightarrow> [new] | c # cs \<Rightarrow> new # cs @ [c])"

definition list_find :: "(nat \<Rightarrow> int) \<Rightarrow> nat list \<Rightarrow> int \<Rightarrow> nat option \<times> nat list" where
  "list_find fds xs fd = (find (\<lambda>x. fds x = fd) xs, rot_to (\<lambda>x. fds x = fd) xs)"

lemma ring_list_cur: "ring_list r (c # xs) \<Longrightarrow> r\<lparr>r_cur := Some c\<rparr> = r"
  by simp

lemma find_split:
  assumes "find P xs = Some m"
  shows "xs = takeWhile (\<lambda>x. \<not> P x) xs @ m # tl (dropWhile (\<lambda>x. \<not> P x) xs)"
    and "dropWhile (\<lambda>x. \<not> P x) xs = m # tl (dropWhile (\<lambda>x. \<not> P x) xs)"
    and "list_ex P xs"
  using assms by (induction xs) (auto split: if_splits)

lemma ring_find_list:
  assumes "ring_list r xs"
  shows "\<exists>r'. ring_find fds r fd = Some (fst (list_find fds xs fd), r') \<and>
    ring_list r' (snd (list_find fds xs fd))"
proof (cases xs)
  case Nil
  with assms show ?thesis by (simp add: ring_find_def list_find_def)
next
  case (Cons c cs)
  with assms have cur: "r_cur r = Some c" and dist: "distinct (c # cs)" and ch: "chain r c cs c" by auto
  have loop: "ring_loop fds (r_next r) fd c c =
      Some (case find (\<lambda>x. fds x = fd) xs of Some m \<Rightarrow> (Some m, m) | None \<Rightarrow> (None, c))"
    unfolding Cons using ch dist by (intro ring_loop_chain) auto
  show ?thesis
  proof (cases "find (\<lambda>x. fds x = fd) xs")
    case None
    then have "\<not> list_ex (\<lambda>x. fds x = fd) xs" by (auto simp: find_None_iff list_ex_iff)
    with None loop cur assms show ?thesis
      using ring_list_cur [of r c cs] Cons by (simp add: ring_find_def list_find_def)
  next
    case (Some m)
    let ?P = "\<lambda>x. fds x = fd"
    note sp = find_split [OF Some]
    have "ring_list (r\<lparr>r_cur := Some m\<rparr>)
        (m # tl (dropWhile (\<lambda>x. \<not> ?P x) xs) @ takeWhile (\<lambda>x. \<not> ?P x) xs)"
      using assms sp(1) by (intro ring_list_rotate) simp
    moreover have "rot_to ?P xs = m # tl (dropWhile (\<lambda>x. \<not> ?P x) xs) @ takeWhile (\<lambda>x. \<not> ?P x) xs"
      using sp(2,3) by simp
    ultimately show ?thesis
      using Some loop cur by (simp add: ring_find_def list_find_def)
  qed
qed

text \<open>The contract of the module list, and the ring as its implementation.\<close>

locale module_list =
  fixes rep :: "'r \<Rightarrow> nat list \<Rightarrow> bool"
    and radd :: "'r \<Rightarrow> nat \<Rightarrow> 'r"
    and rdel :: "'r \<Rightarrow> nat \<Rightarrow> 'r"
    and rfind :: "(nat \<Rightarrow> int) \<Rightarrow> 'r \<Rightarrow> int \<Rightarrow> (nat option \<times> 'r) option"
  assumes radd_rep: "rep r xs \<Longrightarrow> m \<notin> set xs \<Longrightarrow> rep (radd r m) (list_add xs m)"
    and rdel_rep: "rep r xs \<Longrightarrow> m \<in> set xs \<Longrightarrow> rep (rdel r m) (remove1 m xs)"
    and rfind_rep: "rep r xs \<Longrightarrow>
      \<exists>r'. rfind fds r fd = Some (fst (list_find fds xs fd), r') \<and> rep r' (snd (list_find fds xs fd))"
begin

text \<open>A module that was just added is found by its descriptor, at once and without moving on.\<close>

lemma find_added:
  assumes "rep r xs" and "m \<notin> set xs" and "fds m = fd"
  shows "\<exists>r'. rfind fds (radd r m) fd = Some (Some m, r') \<and> rep r' (list_add xs m)"
proof -
  have "find (\<lambda>x. fds x = fd) (list_add xs m) = Some m"
    and "rot_to (\<lambda>x. fds x = fd) (list_add xs m) = list_add xs m"
    using assms(3) by (auto simp: list_add_def split: list.split)
  with rfind_rep [OF radd_rep [OF assms(1,2)], of fds fd] show ?thesis
    by (simp add: list_find_def del: rot_to.simps)
qed

text \<open>A search does not lose or add a module.\<close>

lemma find_keeps:
  assumes "rep r xs"
  shows "\<exists>m r' ys. rfind fds r fd = Some (m, r') \<and> rep r' ys \<and> set ys = set xs"
proof -
  from rot_to_set rfind_rep [OF assms, of fds fd] show ?thesis
    by (metis list_find_def snd_conv)
qed

end

interpretation mod_ring: module_list ring_list ring_add ring_del ring_find
  using ring_list_add ring_list_del ring_find_list
  by unfold_locales (auto simp: list_add_def)

section \<open>The functions of the server\<close>

definition mod_fd_of :: "server \<Rightarrow> mod_ptr \<Rightarrow> int" where
  "mod_fd_of s m = (case mod_heap s m of Some d \<Rightarrow> mod_fd d | None \<Rightarrow> 0)"

text \<open>\<^verbatim>\<open>module_find_fd\<close>, on the list of the ring.\<close>

definition module_find_fd :: "server \<Rightarrow> int \<Rightarrow> mod_ptr option \<times> server" where
  "module_find_fd s fd =
    (let (m, xs) = list_find (mod_fd_of s) (modules s) fd in (m, s\<lparr>modules := xs\<rparr>))"

text \<open>The address of a new module: the first one that is free.\<close>

definition fresh_module :: "server \<Rightarrow> mod_ptr" where
  "fresh_module s =
    (case find (\<lambda>n. n \<notin> set (modules s)) [0..<Suc (length (modules s))] of Some n \<Rightarrow> n | None \<Rightarrow> 0)"

definition module_add :: "env \<Rightarrow> server \<Rightarrow> string \<Rightarrow> u32 \<Rightarrow> mod_ptr option \<times> server" where
  "module_add E s name flags =
    (if alloc E A_module then
       let m = fresh_module s;
           d = \<lparr>mod_name = name, mod_host = 0, mod_flags = flags, mod_fd = 0, mod_tagindex = 0,
                mod_timeout = 0, mod_event_count = 0, mod_tag_groups = None, mod_groups_size = 0\<rparr>
       in (Some m, s\<lparr>modules := list_add (modules s) m, mod_heap := (mod_heap s)(m := Some d),
                     module_count := module_count s + 1\<rparr>)
     else (None, s))"

definition module_del :: "server \<Rightarrow> mod_ptr option \<Rightarrow> int \<times> server" where
  "module_del s mp =
    (case mp of
       None \<Rightarrow> (ERR_ARG, s)
     | Some m \<Rightarrow>
         (0, s\<lparr>modules := remove1 m (modules s), mod_heap := (mod_heap s)(m := None),
               module_count := module_count s - 1\<rparr>))"

definition set_module :: "server \<Rightarrow> mod_ptr \<Rightarrow> dax_module \<Rightarrow> server" where
  "set_module s m d = s\<lparr>mod_heap := (mod_heap s)(m := Some d)\<rparr>"

text \<open>Every module on the list is a live object and is counted once.\<close>

definition wf_modules :: "server \<Rightarrow> bool" where
  "wf_modules s \<longleftrightarrow>
    distinct (modules s) \<and> (\<forall>m. mod_heap s m \<noteq> None \<longleftrightarrow> m \<in> set (modules s)) \<and>
    module_count s = int (length (modules s))"

lemma fresh_module_new: "fresh_module s \<notin> set (modules s)"
proof (cases "find (\<lambda>n. n \<notin> set (modules s)) [0..<Suc (length (modules s))]")
  case None
  then have "set [0..<Suc (length (modules s))] \<subseteq> set (modules s)"
    by (auto simp: find_None_iff)
  then have "card (set [0..<Suc (length (modules s))]) \<le> card (set (modules s))"
    by (intro card_mono) auto
  also have "\<dots> \<le> length (modules s)" by (rule card_length)
  finally show ?thesis by simp
next
  case (Some n)
  then have "n \<notin> set (modules s)" by (auto simp only: find_Some_iff)
  with Some show ?thesis by (simp only: fresh_module_def option.case not_False_eq_True)
qed

declare rot_to.simps [simp del]

lemma module_find_fd_wf: "wf_modules s \<Longrightarrow> wf_modules (snd (module_find_fd s fd))"
  using rot_to_set rot_to_perm
  by (simp add: module_find_fd_def list_find_def wf_modules_def)

lemma module_add_wf: "wf_modules s \<Longrightarrow> wf_modules (snd (module_add E s name flags))"
  using fresh_module_new [of s]
  by (auto simp: module_add_def wf_modules_def Let_def list_add_def split: list.split)

lemma module_del_wf: "wf_modules s \<Longrightarrow> m \<in> set (modules s) \<Longrightarrow> wf_modules (snd (module_del s (Some m)))"
  by (auto simp: module_del_def wf_modules_def length_remove1 distinct_remove1
      of_nat_diff Suc_le_eq dest: length_pos_if_in_set)

lemma module_find_fd_result:
  "fst (module_find_fd s fd) = Some m \<Longrightarrow> m \<in> set (modules s) \<and> mod_fd_of s m = fd"
  by (auto simp: module_find_fd_def list_find_def find_Some_iff)

lemma module_find_fd_frame [simp]:
  "db (snd (module_find_fd s fd)) = db s" "name_index (snd (module_find_fd s fd)) = name_index s"
  "indexcount (snd (module_find_fd s fd)) = indexcount s"
  "tagnextindex (snd (module_find_fd s fd)) = tagnextindex s"
  "dbsize (snd (module_find_fd s fd)) = dbsize s" "cdts (snd (module_find_fd s fd)) = cdts s"
  "mod_heap (snd (module_find_fd s fd)) = mod_heap s"
  "tagcount (snd (module_find_fd s fd)) = tagcount s" "sent (snd (module_find_fd s fd)) = sent s"
  by (simp_all add: module_find_fd_def list_find_def)

end
