(* ===== verification/Tag_Basics.thy ===== *)
theory Tag_Basics
  imports Data_Types Tag_Index Module_Ring
begin

text \<open>
  Small functions of \<^verbatim>\<open>tagbase.c\<close> that the other components call: the size of a tag, its
  attributes, and the bytes its data pointer leads to.
\<close>

text \<open>\<^verbatim>\<open>tag_get_size\<close>: for BOOL one byte more than the whole bytes of the bits; the product is unsigned.\<close>

definition tag_get_size :: "server \<Rightarrow> int \<Rightarrow> int option" where
  "tag_get_size s idx =
    do {
      t \<leftarrow> get_tag s idx;
      if t_type t = DAX_BOOL then Some (int_of_u32 (t_count t div 8 + 1))
      else do {
        z \<leftarrow> type_size (cdts s) (t_type t);
        Some (int_of_u32 (u32_of z * t_count t))
      }
    }"

definition get_tagindex :: "server \<Rightarrow> int" where
  "get_tagindex s = tagnextindex s"

definition tag_attr_is :: "u16 \<Rightarrow> server \<Rightarrow> int \<Rightarrow> bool option" where
  "tag_attr_is f s idx = map_option (\<lambda>t. attr_set (t_attr t) f) (get_tag s idx)"

definition is_tag_readonly :: "server \<Rightarrow> int \<Rightarrow> bool option" where
  "is_tag_readonly = tag_attr_is TAG_ATTR_READONLY"

definition is_tag_virtual :: "server \<Rightarrow> int \<Rightarrow> bool option" where
  "is_tag_virtual = tag_attr_is TAG_ATTR_VIRTUAL"

definition is_tag_queue :: "server \<Rightarrow> int \<Rightarrow> bool option" where
  "is_tag_queue s idx = map_option (\<lambda>t. IS_QUEUE (t_type t)) (get_tag s idx)"

definition is_tag_owned :: "server \<Rightarrow> int \<Rightarrow> int \<Rightarrow> bool option" where
  "is_tag_owned s fd idx =
    map_option (\<lambda>t. attr_set (t_attr t) TAG_ATTR_OWNED \<and> t_fd t = fd) (get_tag s idx)"

definition tag_set_attribute :: "server \<Rightarrow> int \<Rightarrow> u16 \<Rightarrow> server option" where
  "tag_set_attribute s idx a =
    do { t \<leftarrow> get_tag s idx; Some (set_tag s idx (t\<lparr>t_attr := t_attr t OR a\<rparr>)) }"

definition tag_clr_attribute :: "server \<Rightarrow> int \<Rightarrow> u16 \<Rightarrow> server option" where
  "tag_clr_attribute s idx a =
    do { t \<leftarrow> get_tag s idx; Some (set_tag s idx (t\<lparr>t_attr := t_attr t AND NOT a\<rparr>)) }"

text \<open>
  The bytes at the data pointer. For a virtual tag they are the record of its functions, 24 bytes
  whose values (addresses) are not determined.
\<close>

definition VIRT_SIZE :: nat where
  "VIRT_SIZE = 24"

definition data_bytes :: "env \<Rightarrow> tag_db \<Rightarrow> byte list" where
  "data_bytes E t =
    (case t_data t of
       D_null \<Rightarrow> []
     | D_block b \<Rightarrow> b
     | D_virt _ _ _ \<Rightarrow> map (junk E) [0..<VIRT_SIZE])"

text \<open>C division of integers truncates towards zero.\<close>

definition cdiv :: "int \<Rightarrow> int \<Rightarrow> int" where
  "cdiv a b = (if 0 \<le> a then a div b else - ((- a) div b))"

lemma tag_attr_is_frame:
  "db s' = db s \<Longrightarrow> tag_attr_is f s' = tag_attr_is f s"
  by (simp add: tag_attr_is_def fun_eq_iff get_tag_def)

lemma tag_get_size_frame:
  "db s' = db s \<Longrightarrow> cdts s' = cdts s \<Longrightarrow> tag_get_size s' idx = tag_get_size s idx"
  by (simp add: tag_get_size_def get_tag_def cong: if_cong)

end
