(* ===== verification/Tag_Queue.thy ===== *)
theory Tag_Queue
  imports Tag_Basics
begin

text \<open>
  The queue behind a queue tag (\<^verbatim>\<open>virtualtag.c\<close>: \<^verbatim>\<open>write_queue\<close>, \<^verbatim>\<open>read_queue\<close>): a circular array of
  pointers to item blocks that are allocated on first use. The array implements a first-in
  first-out queue as long as it does not have to grow; the interface \<open>bounded_fifo\<close> states that
  contract and is interpreted on the array.
\<close>

definition START_QUEUE_SIZE :: nat where
  "START_QUEUE_SIZE = 16"

text \<open>The queue that \<^verbatim>\<open>_queue_add\<close> makes: an array of null pointers.\<close>

definition new_queue :: "u32 \<Rightarrow> u32 \<Rightarrow> int \<Rightarrow> tag_queue" where
  "new_queue type count sz =
    \<lparr>q_type = type, q_count = count, q_size = u32_of sz, q_qsize = int START_QUEUE_SIZE, q_qcount = 0,
     q_qread = 0, q_queue = replicate START_QUEUE_SIZE Null, q_mem = []\<rparr>"

text \<open>
  The growth of the array: the part before the read position is copied behind the old end. What
  \<^verbatim>\<open>realloc\<close> adds is not initialized.
\<close>

definition queue_grow :: "tag_queue \<Rightarrow> tag_queue option" where
  "queue_grow q =
    do {
      frag \<leftarrow> mem_get (q_queue q) 0 (q_qread q);
      arr \<leftarrow> mem_put (q_queue q @ replicate (nat (q_qsize q)) Uninit) (q_qsize q) frag;
      Some (q\<lparr>q_queue := arr, q_qsize := q_qsize q * 2\<rparr>)
    }"

text \<open>The block a slot leads to: a null slot gets a new block.\<close>

definition queue_block :: "env \<Rightarrow> tag_queue \<Rightarrow> int \<Rightarrow> (int + nat \<times> tag_queue) option" where
  "queue_block E q i =
    do {
      p \<leftarrow> arr_get (q_queue q) i;
      (case p of
         Uninit \<Rightarrow> None
       | Ptr k \<Rightarrow> Some (Inr (k, q))
       | Null \<Rightarrow>
           Some (if alloc E A_queue_item
             then Inr (length (q_mem q),
                  q\<lparr>q_queue := (q_queue q)[nat i := Ptr (length (q_mem q))],
                    q_mem := q_mem q @ [map (junk E) [0..<unat (q_size q)]]\<rparr>)
             else Inl ERR_ALLOC))
    }"

text \<open>\<^verbatim>\<open>write_queue\<close> up to the event check.\<close>

definition queue_write :: "env \<Rightarrow> tag_queue \<Rightarrow> int \<Rightarrow> byte list \<Rightarrow> int \<Rightarrow> (int \<times> tag_queue) option" where
  "queue_write E q offset data sz =
    (if offset \<noteq> 0 \<or> u32_of sz \<noteq> q_size q then Some (ERR_ILLEGAL, q)
     else if q_qcount q = q_qsize q \<and> \<not> alloc E A_queue_grow then Some (ERR_ALLOC, q)
     else do {
       q1 \<leftarrow> (if q_qcount q = q_qsize q then queue_grow q else Some q);
       r \<leftarrow> queue_block E q1 ((q_qread q1 + q_qcount q1) mod q_qsize q1);
       (case r of
          Inl e \<Rightarrow> Some (e, q1)
        | Inr (k, q2) \<Rightarrow>
            do {
              src \<leftarrow> mem_get data 0 (uint (q_size q));
              b \<leftarrow> arr_get (q_mem q2) (int k);
              b' \<leftarrow> mem_put b 0 src;
              Some (0, q2\<lparr>q_mem := (q_mem q2)[k := b'], q_qcount := q_qcount q2 + 1\<rparr>)
            })
     })"

text \<open>\<^verbatim>\<open>read_queue\<close>: the item it copies has the size of the queue's items, whatever was asked for.\<close>

definition queue_read :: "tag_queue \<Rightarrow> (int \<times> byte list \<times> tag_queue) option" where
  "queue_read q =
    (if q_qcount q = 0 then Some (ERR_EMPTY, [], q)
     else do {
       p \<leftarrow> arr_get (q_queue q) (q_qread q);
       b \<leftarrow> (case p of Ptr k \<Rightarrow> arr_get (q_mem q) (int k) | _ \<Rightarrow> None);
       d \<leftarrow> mem_get b 0 (uint (q_size q));
       let rd = q_qread q + 1;
       Some (0, d, q\<lparr>q_qread := (if rd = q_qsize q then 0 else rd), q_qcount := q_qcount q - 1\<rparr>)
     })"

section \<open>Well-formed queues and the list they stand for\<close>

definition slot_ok :: "tag_queue \<Rightarrow> slot \<Rightarrow> bool" where
  "slot_ok q p = (case p of Null \<Rightarrow> True | Ptr k \<Rightarrow> k < length (q_mem q) | Uninit \<Rightarrow> False)"

definition is_ptr :: "slot \<Rightarrow> bool" where
  "is_ptr p = (case p of Ptr _ \<Rightarrow> True | _ \<Rightarrow> False)"

text \<open>The position in the array of the item number \<open>i\<close>.\<close>

definition qpos :: "tag_queue \<Rightarrow> nat \<Rightarrow> nat" where
  "qpos q i = (nat (q_qread q) + i) mod length (q_queue q)"

definition queue_inv :: "tag_queue \<Rightarrow> bool" where
  "queue_inv q \<longleftrightarrow>
    q_qsize q = int (length (q_queue q)) \<and> 0 < q_qsize q \<and> 0 \<le> q_qread q \<and> q_qread q < q_qsize q \<and>
    0 \<le> q_qcount q \<and> q_qcount q \<le> q_qsize q \<and>
    list_all (slot_ok q) (q_queue q) \<and> distinct (filter is_ptr (q_queue q)) \<and>
    list_all (\<lambda>b. length b = unat (q_size q)) (q_mem q) \<and>
    (\<forall>i<nat (q_qcount q). is_ptr (q_queue q ! qpos q i))"

definition slot_bytes :: "tag_queue \<Rightarrow> slot \<Rightarrow> byte list" where
  "slot_bytes q p = (case p of Ptr k \<Rightarrow> q_mem q ! k | _ \<Rightarrow> [])"

definition queue_items :: "tag_queue \<Rightarrow> byte list list" where
  "queue_items q = map (\<lambda>i. slot_bytes q (q_queue q ! qpos q i)) [0..<nat (q_qcount q)]"

lemma queue_invD:
  assumes "queue_inv q"
  shows "q_qsize q = int (length (q_queue q))" "0 < length (q_queue q)" "0 \<le> q_qread q"
    "nat (q_qread q) < length (q_queue q)" "0 \<le> q_qcount q" "nat (q_qcount q) \<le> length (q_queue q)"
  using assms by (auto simp: queue_inv_def nat_less_iff)

lemma qpos_less: "queue_inv q \<Longrightarrow> qpos q i < length (q_queue q)"
  using queue_invD(2) [of q] by (simp add: qpos_def)

lemma queue_slot_ok: "queue_inv q \<Longrightarrow> i < length (q_queue q) \<Longrightarrow> slot_ok q (q_queue q ! i)"
  by (simp add: queue_inv_def list_all_length)

lemma queue_mem_size: "queue_inv q \<Longrightarrow> k < length (q_mem q) \<Longrightarrow> length (q_mem q ! k) = unat (q_size q)"
  by (simp add: queue_inv_def list_all_length)

lemma qpos_inj:
  assumes "i < length (q_queue q)" and "j < length (q_queue q)" and "qpos q i = qpos q j"
  shows "i = j"
proof -
  have "(nat (q_qread q) + i) mod length (q_queue q) = (nat (q_qread q) + j) mod length (q_queue q)"
    using assms(3) by (simp add: qpos_def)
  then have "i mod length (q_queue q) = j mod length (q_queue q)"
    by (simp add: nat_mod_eq_iff)
  with assms(1,2) show ?thesis by simp
qed

lemma length_queue_items [simp]: "length (queue_items q) = nat (q_qcount q)"
  by (simp add: queue_items_def)

lemma new_queue_inv: "queue_inv (new_queue ty c sz) \<and> queue_items (new_queue ty c sz) = []"
  by (simp add: queue_inv_def new_queue_def queue_items_def START_QUEUE_SIZE_def slot_ok_def
      list_all_iff is_ptr_def)

text \<open>Two positions with the same pointer are the same position.\<close>

lemma distinct_filter_nth:
  assumes "distinct (filter P xs)" and "i < length xs" and "j < length xs"
    and "xs ! i = xs ! j" and "P (xs ! i)"
  shows "i = j"
proof (rule ccontr)
  assume "i \<noteq> j"
  have *: False if "k < l" "l < length xs" "xs ! k = xs ! l" "P (xs ! k)" for k l
  proof -
    have split: "xs = take l xs @ drop l xs" by simp
    have d: "drop l xs = xs ! l # drop (Suc l) xs" using that(2) by (simp add: Cons_nth_drop_Suc)
    have "distinct (filter P (take l xs @ drop l xs))" using assms(1) by simp
    then have "distinct (filter P (take l xs) @ filter P (drop l xs))" by (simp only: filter_append)
    moreover have "xs ! k \<in> set (filter P (take l xs))"
      using that by (auto simp: in_set_conv_nth intro!: exI [of _ k])
    moreover have "xs ! k \<in> set (filter P (drop l xs))" using d that(3,4) by simp
    ultimately show False by (simp only: distinct_append) blast
  qed
  show False using \<open>i \<noteq> j\<close> * [of i j] * [of j i] assms(2-5) by (cases i j rule: linorder_cases) auto
qed

section \<open>Writing\<close>

lemma distinct_filter_update:
  assumes "distinct (filter P xs)" and "x \<notin> set xs" and "p < length xs"
  shows "distinct (filter P (xs[p := x]))"
proof -
  define a b where "a = take p xs" and "b = drop (Suc p) xs"
  have xs: "xs = a @ xs ! p # b" using assms(3) by (simp add: a_def b_def id_take_nth_drop [symmetric])
  have "distinct (filter P (a @ xs ! p # b))" using assms(1) xs by simp
  then have "distinct (filter P a @ filter P b)" by (auto split: if_splits)
  moreover have "x \<notin> set a" "x \<notin> set b"
    using assms(2) by (auto simp: a_def b_def dest: in_set_takeD in_set_dropD)
  moreover have "xs[p := x] = a @ x # b" using assms(3) by (simp add: a_def b_def upd_conv_take_nth_drop)
  ultimately show ?thesis by auto
qed

lemma next_pos:
  assumes "queue_inv q"
  shows "(q_qread q + q_qcount q) mod q_qsize q = int (qpos q (nat (q_qcount q)))"
  using queue_invD [OF assms] by (simp add: qpos_def zmod_int nat_add_distrib)

text \<open>A null slot gets a block of its own; the items of the queue are not concerned.\<close>

lemma queue_block_spec:
  assumes "queue_inv q" and "q_qcount q < q_qsize q" and "n = nat (q_qcount q)"
    and "queue_block E q (int (qpos q n)) = Some (Inr (k, q2))"
  shows "queue_inv q2 \<and> q_size q2 = q_size q \<and> queue_items q2 = queue_items q \<and>
    q_qcount q2 = q_qcount q \<and> q_qsize q2 = q_qsize q \<and> qpos q2 = qpos q \<and>
    q_queue q2 ! qpos q n = Ptr k"
proof -
  note inv = queue_invD [OF assms(1)]
  define p where "p = qpos q n"
  have p: "p < length (q_queue q)" using qpos_less [OF assms(1)] by (simp add: p_def)
  consider (ptr) "q_queue q ! p = Ptr k" "q2 = q"
    | (null) "q_queue q ! p = Null" "k = length (q_mem q)"
        "q2 = q\<lparr>q_queue := (q_queue q)[p := Ptr k], q_mem := q_mem q @ [map (junk E) [0..<unat (q_size q)]]\<rparr>"
    using assms(4) p by (auto simp: queue_block_def p_def split: slot.splits if_splits)
  then show ?thesis
  proof cases
    case ptr
    then show ?thesis using assms(1) by (simp add: p_def)
  next
    case null
    have qp: "qpos q2 = qpos q" by (simp add: null(3) qpos_def fun_eq_iff)
    have slots: "slot_ok q x" if "x \<in> set (q_queue q)" for x
      using assms(1) that by (simp add: queue_inv_def list_all_iff)
    have nlt: "n < length (q_queue q)" using inv(1,5) assms(2,3) by (simp add: nat_less_iff)
    have other: "qpos q i \<noteq> p" if "i < n" for i
    proof
      assume "qpos q i = p"
      then have "i = n" using that nlt by - (rule qpos_inj, simp_all add: p_def)
      with that show False by simp
    qed
    have new: "Ptr k \<notin> set (q_queue q)" using slots [of "Ptr k"] null(2) by (auto simp: slot_ok_def)
    have ok: "list_all (slot_ok q2) (q_queue q2)"
    proof -
      have "slot_ok q2 x" if "slot_ok q x" for x
        using that by (auto simp: slot_ok_def null(3) split: slot.splits)
      moreover have "slot_ok q2 (Ptr k)" by (simp add: slot_ok_def null)
      ultimately show ?thesis
        using slots by (auto simp: list_all_iff null(3) dest!: set_update_subset_insert [THEN subsetD])
    qed
    have ds: "distinct (filter is_ptr (q_queue q2))"
      using assms(1) distinct_filter_update [OF _ new p, of is_ptr] by (simp add: null(3) queue_inv_def)
    have ptrs: "q_queue q2 ! qpos q i = q_queue q ! qpos q i" if "i < n" for i
      using other [OF that] by (simp add: null(3))
    have same: "slot_bytes q2 (q_queue q ! qpos q i) = slot_bytes q (q_queue q ! qpos q i)" if "i < n" for i
      using slots [OF nth_mem [OF qpos_less [OF assms(1), of i]]]
      by (auto simp: slot_bytes_def slot_ok_def null(3) nth_append split: slot.splits)
    have len: "length (q_queue q2) = length (q_queue q)" by (simp add: null(3))
    have fields: "q_size q2 = q_size q" "q_qcount q2 = q_qcount q" "q_qsize q2 = q_qsize q"
        "q_qread q2 = q_qread q" "q_mem q2 = q_mem q @ [map (junk E) [0..<unat (q_size q)]]"
      by (simp_all add: null(3))
    have "queue_inv q2"
      using assms(1,3) inv(2) ok ds ptrs unfolding queue_inv_def by (simp add: fields qp len)
    moreover have "queue_items q2 = queue_items q"
      using assms(3) ptrs same by (simp add: queue_items_def qp fields)
    ultimately show ?thesis using p by (simp add: fields qp) (simp add: null(3) p_def)
  qed
qed

text \<open>Overwriting the block of the slot behind the last item changes no item: none shares it.\<close>

lemma queue_put_spec:
  assumes "queue_inv q" and "q_qcount q < q_qsize q" and "n = nat (q_qcount q)"
    and "q_queue q ! qpos q n = Ptr k" and "length x = unat (q_size q)"
    and "q' = q\<lparr>q_mem := (q_mem q)[k := x], q_qcount := q_qcount q + 1\<rparr>"
  shows "queue_inv q' \<and> queue_items q' = queue_items q @ [x]"
proof -
  note inv = queue_invD [OF assms(1)]
  have n: "n < length (q_queue q)" using inv(1,5) assms(2,3) by (simp add: nat_less_iff)
  have qp: "qpos q' = qpos q" by (simp add: assms(6) qpos_def fun_eq_iff)
  have arr: "q_queue q' = q_queue q" by (simp add: assms(6))
  have slots: "slot_ok q x" if "x \<in> set (q_queue q)" for x
    using assms(1) that by (simp add: queue_inv_def list_all_iff)
  have pn: "qpos q n < length (q_queue q)" by (rule qpos_less [OF assms(1)])
  have k: "k < length (q_mem q)" using slots [OF nth_mem [OF pn]] assms(4) by (simp add: slot_ok_def)
  have ok: "slot_ok q' = slot_ok q" by (simp add: slot_ok_def assms(6) fun_eq_iff split: slot.splits)
  have ptr: "is_ptr (q_queue q ! qpos q i)" if "i < Suc n" for i
  proof (cases "i = n")
    case True
    then show ?thesis using assms(4) by (simp add: is_ptr_def)
  next
    case False
    then show ?thesis using that assms(1,3) by (simp add: queue_inv_def)
  qed
  have other: "slot_bytes q' (q_queue q ! qpos q i) = slot_bytes q (q_queue q ! qpos q i)" if "i < n" for i
  proof -
    have "q_queue q ! qpos q i \<noteq> Ptr k"
    proof
      assume eq: "q_queue q ! qpos q i = Ptr k"
      have "qpos q i = qpos q n"
        using assms(1,4) eq qpos_less [OF assms(1)]
        by (intro distinct_filter_nth [of is_ptr "q_queue q"]) (simp_all add: queue_inv_def is_ptr_def)
      then have "i = n" using that n by - (rule qpos_inj, simp_all)
      with that show False by simp
    qed
    then show ?thesis by (cases "q_queue q ! qpos q i") (simp_all add: slot_bytes_def assms(6))
  qed
  have last: "slot_bytes q' (q_queue q ! qpos q n) = x" using assms(4) k by (simp add: slot_bytes_def assms(6))
  have cnt: "nat (q_qcount q') = Suc n" using inv assms(3) by (simp add: assms(6) nat_add_distrib)
  have mem: "list_all (\<lambda>b. length b = unat (q_size q)) ((q_mem q)[k := x])"
    using assms(1,5) set_update_subset_insert [of "q_mem q" k x]
    by (auto simp: queue_inv_def list_all_iff)
  have "queue_inv q'"
    using assms(1,2) inv(2) ptr mem unfolding queue_inv_def
    by (simp add: arr ok qp cnt) (simp add: assms(6))
  moreover have "queue_items q' = queue_items q @ [x]"
    using other last by (simp add: queue_items_def cnt arr qp assms(3) [symmetric])
  ultimately show ?thesis by blast
qed

lemma queue_block_total:
  assumes "queue_inv q"
  shows "\<exists>r. queue_block E q (int (qpos q n)) = Some r"
proof -
  have p: "qpos q n < length (q_queue q)" by (rule qpos_less [OF assms])
  have "slot_ok q (q_queue q ! qpos q n)" by (rule queue_slot_ok [OF assms p])
  then show ?thesis using p
    by (cases "q_queue q ! qpos q n") (simp_all add: queue_block_def slot_ok_def)
qed

text \<open>
  A write to a queue with room appends the item, or reports that there is no memory and changes
  nothing.
\<close>

lemma queue_write_room:
  assumes "queue_inv q" and "q_qcount q < q_qsize q" and "length x = unat (q_size q)"
  shows "\<exists>r q'. queue_write E q 0 x (uint (q_size q)) = Some (r, q') \<and> queue_inv q' \<and>
    q_size q' = q_size q \<and> q_qsize q' = q_qsize q \<and> (alloc E A_queue_item \<longrightarrow> r = 0) \<and>
    (if r = 0 then queue_items q' = queue_items q @ [x] else r = ERR_ALLOC \<and> q' = q)"
proof -
  define n where "n = nat (q_qcount q)"
  have ne: "q_qcount q \<noteq> q_qsize q" using assms(2) by simp
  have sz: "u32_of (uint (q_size q)) = q_size q" by (simp add: u32_of_def)
  obtain r where r: "queue_block E q (int (qpos q n)) = Some r"
    using queue_block_total [OF assms(1)] by blast
  show ?thesis
  proof (cases r)
    case (Inl e)
    then have "e = ERR_ALLOC" "\<not> alloc E A_queue_item" using r by (auto simp: queue_block_def split: slot.splits if_splits)
    with Inl show ?thesis
      using assms r ne sz by (simp add: queue_write_def next_pos n_def [symmetric])
  next
    case (Inr kq)
    obtain k q2 where kq: "kq = (k, q2)" by (cases kq)
    note b = queue_block_spec [OF assms(1,2) n_def r [unfolded Inr kq]]
    define q' where "q' = q2\<lparr>q_mem := (q_mem q2)[k := x], q_qcount := q_qcount q2 + 1\<rparr>"
    have n2: "n = nat (q_qcount q2)" using b by (simp add: n_def)
    have q2: "queue_inv q2" using b by simp
    have pn: "qpos q2 n < length (q_queue q2)" by (rule qpos_less [OF q2])
    have "slot_ok q2 (q_queue q2 ! qpos q2 n)" by (rule queue_slot_ok [OF q2 pn])
    then have k: "k < length (q_mem q2)" using b by (simp add: slot_ok_def)
    then have lk: "length (q_mem q2 ! k) = unat (q_size q)"
      using b queue_mem_size [OF q2] by simp
    have put: "queue_inv q' \<and> queue_items q' = queue_items q2 @ [x]"
      using b assms(2,3) by (intro queue_put_spec [OF _ _ n2 _ _ q'_def]) simp_all
    have "mem_get x 0 (uint (q_size q)) = Some x" using assms(3) by (simp add: mem_get_def)
    moreover have "mem_put (q_mem q2 ! k) 0 x = Some x" using lk assms(3) by (simp add: mem_put_def)
    ultimately have "queue_write E q 0 x (uint (q_size q)) = Some (0, q')"
      using assms r ne sz k by (simp add: queue_write_def next_pos n_def [symmetric] Inr kq q'_def)
    moreover have "q_size q' = q_size q" "q_qsize q' = q_qsize q" using b by (simp_all add: q'_def)
    ultimately show ?thesis using put b by simp
  qed
qed

text \<open>
  On a full queue the slot that is used next lies in the part of the array that \<^verbatim>\<open>realloc\<close> added and
  nobody initialized: the write is undefined.
\<close>

lemma queue_write_full:
  assumes "queue_inv q" and "q_qcount q = q_qsize q" and "alloc E A_queue_grow"
  shows "queue_write E q 0 x (uint (q_size q)) = None"
proof -
  note inv = queue_invD [OF assms(1)]
  define n m where "n = length (q_queue q)" and "m = nat (q_qread q)"
  have m: "m < n" "q_qread q = int m" using inv by (simp_all add: m_def n_def)
  have g1: "mem_get (q_queue q) 0 (q_qread q) = Some (take m (q_queue q))"
    using m by (simp add: mem_get_def n_def)
  have g2: "mem_put (q_queue q @ replicate n Uninit) (int n) (take m (q_queue q)) =
      Some (q_queue q @ take m (q_queue q) @ replicate (n - m) Uninit)"
    using m by (simp add: mem_put_def n_def)
  have qs: "q_qsize q = int n" using inv by (simp add: n_def)
  have grow: "queue_grow q =
      Some (q\<lparr>q_queue := q_queue q @ take m (q_queue q) @ replicate (n - m) Uninit, q_qsize := int n * 2\<rparr>)"
    using g1 g2 by (simp add: queue_grow_def qs)
  have pos: "(int m + int n) mod (int n * 2) = int (n + m)" using m by simp
  have "(q_queue q @ take m (q_queue q) @ replicate (n - m) Uninit) ! (n + m) = Uninit"
    using m by (simp add: nth_append n_def [symmetric])
  then have get: "arr_get (q_queue q @ take m (q_queue q) @ replicate (n - m) Uninit) (int (n + m)) = Some Uninit"
    using m by (simp add: arr_get_def n_def [symmetric] nat_add_distrib)
  have "queue_block E (q\<lparr>q_queue := q_queue q @ take m (q_queue q) @ replicate (n - m) Uninit,
      q_qsize := int n * 2\<rparr>) (int (n + m)) = None"
    using get by (simp add: queue_block_def)
  then show ?thesis
    using assms(2,3) qs pos m(2) by (simp add: queue_write_def grow u32_of_def)
qed

section \<open>Reading\<close>

lemma qpos_read:
  assumes "queue_inv q"
  shows "qpos q 0 = nat (q_qread q)"
    and "qpos (q\<lparr>q_qread := (if q_qread q + 1 = q_qsize q then 0 else q_qread q + 1), q_qcount := c\<rparr>) i =
      qpos q (Suc i)"
proof -
  note inv = queue_invD [OF assms]
  show "qpos q 0 = nat (q_qread q)" using inv by (simp add: qpos_def)
  show "qpos (q\<lparr>q_qread := (if q_qread q + 1 = q_qsize q then 0 else q_qread q + 1), q_qcount := c\<rparr>) i =
      qpos q (Suc i)"
  proof (cases "q_qread q + 1 = q_qsize q")
    case True
    then have "Suc (nat (q_qread q)) = length (q_queue q)" using inv by linarith
    then have "nat (q_qread q) + Suc i = length (q_queue q) + i" by simp
    then have "(nat (q_qread q) + Suc i) mod length (q_queue q) = i mod length (q_queue q)"
      by (simp only: mod_add_self1)
    then show ?thesis using True by (simp add: qpos_def)
  next
    case False
    then show ?thesis using inv(3) by (simp add: qpos_def nat_add_distrib)
  qed
qed

lemma queue_read_spec:
  assumes "queue_inv q"
  shows "(case queue_items q of
      [] \<Rightarrow> queue_read q = Some (ERR_EMPTY, [], q)
    | x # xs \<Rightarrow> \<exists>q'. queue_read q = Some (0, x, q') \<and> queue_inv q' \<and> queue_items q' = xs \<and>
        q_size q' = q_size q \<and> q_qsize q' = q_qsize q)"
proof (cases "q_qcount q = 0")
  case True
  then show ?thesis by (simp add: queue_items_def queue_read_def)
next
  case False
  note inv = queue_invD [OF assms]
  define n where "n = nat (q_qcount q) - 1"
  have n: "nat (q_qcount q) = Suc n" "nat (q_qcount q - 1) = n" using False inv(5) by (simp_all add: n_def)
  define q' where "q' = q\<lparr>q_qread := (if q_qread q + 1 = q_qsize q then 0 else q_qread q + 1),
      q_qcount := q_qcount q - 1\<rparr>"
  have qp: "qpos q' i = qpos q (Suc i)" for i unfolding q'_def by (rule qpos_read(2) [OF assms])
  have p0: "qpos q 0 < length (q_queue q)" by (rule qpos_less [OF assms])
  have ptr: "is_ptr (q_queue q ! qpos q i)" if "i < Suc n" for i
    using assms that n(1) by (simp add: queue_inv_def)
  obtain k where k: "q_queue q ! qpos q 0 = Ptr k"
    using ptr [of 0] by (auto simp: is_ptr_def split: slot.splits)
  have km: "k < length (q_mem q)" using queue_slot_ok [OF assms p0] k by (simp add: slot_ok_def)
  then have lk: "length (q_mem q ! k) = unat (q_size q)" by (rule queue_mem_size [OF assms])
  have items: "queue_items q = slot_bytes q (q_queue q ! qpos q 0) #
      map (\<lambda>i. slot_bytes q (q_queue q ! qpos q (Suc i))) [0..<n]"
    unfolding queue_items_def n(1) by (simp only: upt_conv_Cons zero_less_Suc map_Suc_upt [symmetric]
      list.map map_map comp_def)
  have "arr_get (q_queue q) (q_qread q) = Some (Ptr k)"
    using k p0 inv(3,4) by (simp add: arr_get_def qpos_read(1) [OF assms] nat_less_iff)
  moreover have "mem_get (q_mem q ! k) 0 (uint (q_size q)) = Some (q_mem q ! k)"
    using lk by (simp add: mem_get_def)
  ultimately have rd: "queue_read q = Some (0, q_mem q ! k, q')"
    using False km by (simp add: queue_read_def q'_def Let_def)
  have sb: "slot_bytes q' = slot_bytes q" "slot_ok q' = slot_ok q"
    by (simp_all add: slot_bytes_def slot_ok_def q'_def fun_eq_iff split: slot.split)
  have "queue_inv q'"
    using assms False ptr unfolding queue_inv_def
    by (simp add: sb qp) (auto simp: q'_def n)
  moreover have "queue_items q' = map (\<lambda>i. slot_bytes q (q_queue q ! qpos q (Suc i))) [0..<n]"
    by (simp add: queue_items_def qp sb) (simp add: q'_def n)
  ultimately show ?thesis
    unfolding items using rd k by (simp add: slot_bytes_def) (simp add: q'_def)
qed

section \<open>The contract of a queue\<close>

text \<open>
  What a queue tag promises: a write with room appends (or fails and changes nothing), a read
  takes the oldest item or reports an empty queue. A client of the contract can run any
  sequence of operations against a plain list.
\<close>

datatype 'a queue_op = Enq 'a | Deq

datatype 'a queue_out = Q_done | Q_refused | Q_item 'a | Q_empty

fun queue_run ::
  "('q \<Rightarrow> 'a \<Rightarrow> (int \<times> 'q) option) \<Rightarrow> ('q \<Rightarrow> (int \<times> 'a \<times> 'q) option) \<Rightarrow> 'q \<Rightarrow> 'a queue_op list \<Rightarrow> ('a queue_out list \<times> 'q) option" where
  "queue_run enq deq q [] = Some ([], q)"
| "queue_run enq deq q (Enq x # ops) =
    do {
      (r, q') \<leftarrow> enq q x;
      (outs, q'') \<leftarrow> queue_run enq deq q' ops;
      Some ((if r = 0 then Q_done else Q_refused) # outs, q'')
    }"
| "queue_run enq deq q (Deq # ops) =
    do {
      (r, x, q') \<leftarrow> deq q;
      (outs, q'') \<leftarrow> queue_run enq deq q' ops;
      Some ((if r = 0 then Q_item x else Q_empty) # outs, q'')
    }"

text \<open>The list that the outputs of a run describe, and that the outputs fit it.\<close>

fun explains :: "'a list \<Rightarrow> 'a queue_op list \<Rightarrow> 'a queue_out list \<Rightarrow> 'a list \<Rightarrow> bool" where
  "explains xs [] [] ys = (ys = xs)"
| "explains xs (Enq x # ops) (Q_done # outs) ys = explains (xs @ [x]) ops outs ys"
| "explains xs (Enq x # ops) (Q_refused # outs) ys = explains xs ops outs ys"
| "explains (x # xs) (Deq # ops) (Q_item y # outs) ys = (y = x \<and> explains xs ops outs ys)"
| "explains [] (Deq # ops) (Q_empty # outs) ys = explains [] ops outs ys"
| "explains _ _ _ _ = False"

text \<open>
  The writes of a sequence of operations find room: with \<open>n\<close> items at its start, no more than \<open>c\<close> are
  queued at once.
\<close>

fun roomy :: "nat \<Rightarrow> nat \<Rightarrow> 'a queue_op list \<Rightarrow> bool" where
  "roomy c n [] = True"
| "roomy c n (Enq x # ops) = (n < c \<and> roomy c (Suc n) ops)"
| "roomy c n (Deq # ops) = roomy c (n - 1) ops"

text \<open>\<open>kind\<close> is what no operation changes; \<open>mem\<close> tells that there is memory for the items.\<close>

locale bounded_fifo =
  fixes enq :: "'q \<Rightarrow> 'a \<Rightarrow> (int \<times> 'q) option"
    and deq :: "'q \<Rightarrow> (int \<times> 'a \<times> 'q) option"
    and items :: "'q \<Rightarrow> 'a list"
    and kind :: "'q \<Rightarrow> 'k"
    and cap :: "'k \<Rightarrow> nat"
    and fits :: "'k \<Rightarrow> 'a \<Rightarrow> bool"
    and inv :: "'q \<Rightarrow> bool"
    and mem :: bool
  assumes enq_spec: "inv q \<Longrightarrow> fits (kind q) x \<Longrightarrow> length (items q) < cap (kind q) \<Longrightarrow>
      \<exists>r q'. enq q x = Some (r, q') \<and> inv q' \<and> kind q' = kind q \<and> (mem \<longrightarrow> r = 0) \<and>
        items q' = (if r = 0 then items q @ [x] else items q)"
    and deq_spec: "inv q \<Longrightarrow>
      \<exists>r y q'. deq q = Some (r, y, q') \<and> inv q' \<and> kind q' = kind q \<and>
        (case items q of [] \<Rightarrow> r \<noteq> 0 \<and> items q' = [] | x # xs \<Rightarrow> r = 0 \<and> y = x \<and> items q' = xs)"
begin

lemma run_explained:
  assumes "inv q" and "\<forall>x. Enq x \<in> set ops \<longrightarrow> fits (kind q) x"
    and "roomy (cap (kind q)) n ops" and "length (items q) \<le> n"
  shows "\<exists>outs q'. queue_run enq deq q ops = Some (outs, q') \<and> inv q' \<and> kind q' = kind q \<and>
    explains (items q) ops outs (items q') \<and> (mem \<longrightarrow> Q_refused \<notin> set outs)"
  using assms
proof (induction ops arbitrary: q n)
  case (Cons op ops)
  show ?case
  proof (cases op)
    case (Enq x)
    have "fits (kind q) x" "length (items q) < cap (kind q)" using Cons.prems(2-4) Enq by simp_all
    from enq_spec [OF Cons.prems(1) this] obtain r q' where q': "enq q x = Some (r, q')" "inv q'"
      "kind q' = kind q" "mem \<longrightarrow> r = 0" "items q' = (if r = 0 then items q @ [x] else items q)" by blast
    have "roomy (cap (kind q')) (Suc n) ops" "length (items q') \<le> Suc n"
      using Cons.prems(3,4) Enq q'(3,5) by simp_all
    with Cons.IH [of q' "Suc n"] Cons.prems(2) q'(2,3) obtain outs q'' where
      "queue_run enq deq q' ops = Some (outs, q'')" "inv q''" "kind q'' = kind q"
      "explains (items q') ops outs (items q'')" "mem \<longrightarrow> Q_refused \<notin> set outs" by auto
    then show ?thesis using Enq q'(1,4,5) by (cases "r = 0") simp_all
  next
    case Deq
    from deq_spec [OF Cons.prems(1)] obtain r y q' where q': "deq q = Some (r, y, q')" "inv q'" "kind q' = kind q"
      "case items q of [] \<Rightarrow> r \<noteq> 0 \<and> items q' = [] | x # xs \<Rightarrow> r = 0 \<and> y = x \<and> items q' = xs" by blast
    have "length (items q') \<le> n - 1" using q'(4) Cons.prems(4) by (cases "items q") simp_all
    moreover have "roomy (cap (kind q')) (n - 1) ops" using Cons.prems(3) Deq q'(3) by simp
    ultimately obtain outs q'' where
      "queue_run enq deq q' ops = Some (outs, q'')" "inv q''" "kind q'' = kind q"
      "explains (items q') ops outs (items q'')" "mem \<longrightarrow> Q_refused \<notin> set outs"
      using Cons.IH [of q' "n - 1"] Cons.prems(2) q'(2,3) by auto
    then show ?thesis using Deq q'(1,4) by (cases "items q") simp_all
  qed
qed simp

end

definition queue_enq :: "env \<Rightarrow> tag_queue \<Rightarrow> byte list \<Rightarrow> (int \<times> tag_queue) option" where
  "queue_enq E q x = queue_write E q 0 x (uint (q_size q))"

text \<open>The size of the items and of the array.\<close>

definition queue_kind :: "tag_queue \<Rightarrow> u32 \<times> int" where
  "queue_kind q = (q_size q, q_qsize q)"

definition queue_fits :: "u32 \<times> int \<Rightarrow> byte list \<Rightarrow> bool" where
  "queue_fits k x \<longleftrightarrow> length x = unat (fst k)"

definition queue_cap :: "u32 \<times> int \<Rightarrow> nat" where
  "queue_cap k = nat (snd k)"

lemma queue_enq_law:
  assumes "queue_inv q" and "queue_fits (queue_kind q) x" and "length (queue_items q) < queue_cap (queue_kind q)"
  shows "\<exists>r q'. queue_enq E q x = Some (r, q') \<and> queue_inv q' \<and> queue_kind q' = queue_kind q \<and>
    (alloc E A_queue_item \<longrightarrow> r = 0) \<and> queue_items q' = (if r = 0 then queue_items q @ [x] else queue_items q)"
proof -
  have "q_qcount q < q_qsize q" using assms(3) by (simp add: queue_cap_def queue_kind_def)
  moreover have "length x = unat (q_size q)" using assms(2) by (simp add: queue_fits_def queue_kind_def)
  ultimately obtain r q' where "queue_write E q 0 x (uint (q_size q)) = Some (r, q')" "queue_inv q'"
    "q_size q' = q_size q" "q_qsize q' = q_qsize q" "alloc E A_queue_item \<longrightarrow> r = 0"
    "if r = 0 then queue_items q' = queue_items q @ [x] else r = ERR_ALLOC \<and> q' = q"
    using queue_write_room [OF assms(1)] by blast
  then show ?thesis by (cases "r = 0") (simp_all add: queue_enq_def queue_kind_def)
qed

lemma queue_read_law:
  assumes "queue_inv q"
  shows "\<exists>r y q'. queue_read q = Some (r, y, q') \<and> queue_inv q' \<and> queue_kind q' = queue_kind q \<and>
    (case queue_items q of [] \<Rightarrow> r \<noteq> 0 \<and> queue_items q' = []
     | x # xs \<Rightarrow> r = 0 \<and> y = x \<and> queue_items q' = xs)"
proof (cases "queue_items q")
  case Nil
  then show ?thesis using queue_read_spec [OF assms] assms by simp
next
  case (Cons x xs)
  then show ?thesis using queue_read_spec [OF assms] by (auto simp: queue_kind_def)
qed

interpretation tag_fifo: bounded_fifo "queue_enq E" queue_read queue_items queue_kind queue_cap queue_fits queue_inv
  "alloc E A_queue_item" for E
  using queue_enq_law queue_read_law by unfold_locales blast+

end
