(* ===== verification/Events.thy ===== *)
theory Events
  imports Tag_Basics
begin

text \<open>
  Events (\<^verbatim>\<open>events.c\<close>): a client asks to be told when a range of a tag is written, changes, is set or
  cleared, passes a value or leaves a deadband. Each tag has a list of events; after a write
  \<^verbatim>\<open>event_check\<close> goes through it, decides for each event that touches the written range whether
  it fires, and sends a message to the module that asked for it.
\<close>

abbreviation EVENT_WRITE :: int where "EVENT_WRITE \<equiv> 2"
abbreviation EVENT_CHANGE :: int where "EVENT_CHANGE \<equiv> 3"
abbreviation EVENT_SET :: int where "EVENT_SET \<equiv> 4"
abbreviation EVENT_RESET :: int where "EVENT_RESET \<equiv> 5"
abbreviation EVENT_EQUAL :: int where "EVENT_EQUAL \<equiv> 6"
abbreviation EVENT_GREATER :: int where "EVENT_GREATER \<equiv> 7"
abbreviation EVENT_LESS :: int where "EVENT_LESS \<equiv> 8"
abbreviation EVENT_DEADBAND :: int where "EVENT_DEADBAND \<equiv> 9"
abbreviation EVENT_DELETED :: int where "EVENT_DELETED \<equiv> 10"

definition EVENT_OPT_SEND_DATA :: u32 where
  "EVENT_OPT_SEND_DATA = 1"

definition DAX_MSGMAX :: nat where
  "DAX_MSGMAX = 4096"

definition MSG_EVENT :: u32 where
  "MSG_EVENT = 0x80000000"

section \<open>Sending an event\<close>

text \<open>
  \<^verbatim>\<open>_send_event\<close>: size, type, tag and event id in network order, then the data if the client asked
  for it. The module pointer of the event is followed; it may be dangling.
\<close>

definition net32 :: "u32 \<Rightarrow> byte list" where
  "net32 w = be_enc 4 (unat w)"

definition send_event :: "env \<Rightarrow> server \<Rightarrow> int \<Rightarrow> dax_event \<Rightarrow> (int \<times> server) option" where
  "send_event E s idx ev =
    (let send_data = (e_options ev AND EVENT_OPT_SEND_DATA \<noteq> 0);
         msgsize = (if send_data then e_size ev + 16 else 16);
         dsize = (if send_data then e_size ev + 8 else 8)
     in if of_nat DAX_MSGMAX < msgsize then Some (ERR_2BIG, s)
        else do {
          t \<leftarrow> get_tag s idx;
          d \<leftarrow> (if send_data then mem_get (data_bytes E t) (e_byte ev) (uint (e_size ev)) else Some []);
          m \<leftarrow> mod_heap s (e_notify ev);
          let buff = net32 dsize @ net32 (MSG_EVENT OR u32_of (e_eventtype ev)) @ net32 (u32_of idx) @
                     net32 (u32_of (e_id ev)) @ d;
          let (r, s') = xwrite E s (mod_fd m) buff;
          Some (if r < 0 then ERR_MSG_SEND else 0, s')
        })"

section \<open>Does an event fire?\<close>

text \<open>
  The \<^verbatim>\<open>test\<close> block of an event holds what was seen last. The functions return whether the event
  fires and the new \<^verbatim>\<open>test\<close> block. A null pointer is an empty block: every access fails.
\<close>

definition ptr_bytes :: "byte list option \<Rightarrow> byte list" where
  "ptr_bytes p = (case p of Some b \<Rightarrow> b | None \<Rightarrow> [])"

definition put_test :: "dax_event \<Rightarrow> byte list \<Rightarrow> dax_event" where
  "put_test ev b = (case e_test ev of Some _ \<Rightarrow> ev\<lparr>e_test := Some b\<rparr> | None \<Rightarrow> ev)"

definition bit_mask :: "nat \<Rightarrow> byte" where
  "bit_mask b = push_bit b 1"

text \<open>The number of bytes of the event that were written; \<^verbatim>\<open>size\<close> makes the sum unsigned.\<close>

definition event_len :: "dax_event \<Rightarrow> int \<Rightarrow> int \<Rightarrow> int" where
  "event_len ev offset sz =
    int_of_u32 (min (u32_of (e_byte ev) + e_size ev) (u32_of (offset + sz)) -
                u32_of (max offset (e_byte ev)))"

text \<open>\<^verbatim>\<open>_event_change\<close> on BOOLs: a bit that differs copies the whole byte.\<close>

fun change_bits ::
  "byte list \<Rightarrow> int \<Rightarrow> nat \<Rightarrow> nat \<Rightarrow> nat \<Rightarrow> bool \<Rightarrow> byte list \<Rightarrow> (bool \<times> byte list) option" where
  "change_bits data base 0 b i r test = Some (r, test)"
| "change_bits data base (Suc n) b i r test =
    do {
      x \<leftarrow> arr_get test (int i);
      y \<leftarrow> arr_get data (base + int i);
      let (r', test') =
        (if x AND bit_mask b \<noteq> y AND bit_mask b then (True, test[i := y]) else (r, test));
      if b + 1 = 8 then change_bits data base n 0 (i + 1) r' test'
      else change_bits data base n (b + 1) i r' test'
    }"

definition event_change :: "dax_event \<Rightarrow> byte list \<Rightarrow> int \<Rightarrow> int \<Rightarrow> (bool \<times> byte list) option" where
  "event_change ev data offset sz =
    (let test = ptr_bytes (e_test ev)
     in if e_datatype ev = DAX_BOOL
        then change_bits data (e_byte ev) (nat (e_count ev)) (unat (e_bit ev)) 0 False test
        else
          let len = event_len ev offset sz;
              toff = max 0 (offset - e_byte ev)
          in if len \<le> 0 then Some (False, test)
             else do {
               old \<leftarrow> mem_get test toff len;
               new \<leftarrow> mem_get data (max offset (e_byte ev)) len;
               test' \<leftarrow> mem_put test toff new;
               Some (old \<noteq> new, test')
             })"

text \<open>
  \<^verbatim>\<open>_event_set\<close> (\<^verbatim>\<open>pol\<close> true) and \<^verbatim>\<open>_event_reset\<close> (\<^verbatim>\<open>pol\<close> false): the flag of a bit is set when the bit
  takes the value, and the event fires; it is cleared when the bit leaves it.
\<close>

definition flag_step :: "bool \<Rightarrow> byte \<Rightarrow> byte \<Rightarrow> nat \<Rightarrow> bool \<times> byte" where
  "flag_step pol y x b =
    (if (y AND bit_mask b \<noteq> 0) = pol then
       (if x AND bit_mask b = 0 then (True, x OR bit_mask b) else (False, x))
     else (False, x AND NOT (bit_mask b)))"

fun flag_bits ::
  "bool \<Rightarrow> byte list \<Rightarrow> int \<Rightarrow> nat \<Rightarrow> nat \<Rightarrow> nat \<Rightarrow> bool \<Rightarrow> byte list \<Rightarrow> (bool \<times> byte list) option" where
  "flag_bits pol data base 0 b i r test = Some (r, test)"
| "flag_bits pol data base (Suc n) b i r test =
    do {
      y \<leftarrow> arr_get data (base + int i);
      x \<leftarrow> arr_get test (int i);
      let (hit, x') = flag_step pol y x b;
      if b + 1 = 8 then flag_bits pol data base n 0 (i + 1) (r \<or> hit) (test[i := x'])
      else flag_bits pol data base n (b + 1) i (r \<or> hit) (test[i := x'])
    }"

definition event_set :: "dax_event \<Rightarrow> byte list \<Rightarrow> (bool \<times> byte list) option" where
  "event_set ev data =
    flag_bits True data (e_byte ev) (nat (e_count ev)) (unat (e_bit ev)) 0 False (ptr_bytes (e_test ev))"

definition event_reset :: "dax_event \<Rightarrow> byte list \<Rightarrow> (bool \<times> byte list) option" where
  "event_reset ev data =
    flag_bits False data (e_byte ev) (nat (e_count ev)) (unat (e_bit ev)) 0 False (ptr_bytes (e_test ev))"

section \<open>Values\<close>

text \<open>
  The value of a type at an address. Floating point values are compared through a key that is
  monotone in the number (a NaN has none); \<^verbatim>\<open>DAX_TIME\<close> is read as a 32 bit number, as the code does.
\<close>

datatype cnum = Num int | NaN

definition le_sdec :: "byte list \<Rightarrow> int" where
  "le_sdec bs =
    (if 2 * le_dec bs < 256 ^ length bs then int (le_dec bs) else int (le_dec bs) - 256 ^ length bs)"

definition float_key :: "nat \<Rightarrow> nat \<Rightarrow> nat \<Rightarrow> cnum" where
  "float_key ebits mbits w =
    (let mag = w mod 2 ^ (ebits + mbits)
     in if (2 ^ ebits - 1) * 2 ^ mbits < mag then NaN
        else Num (if w < 2 ^ (ebits + mbits) then int mag else - int mag))"

definition typed_width :: "u32 \<Rightarrow> int option" where
  "typed_width t =
    (if t \<in> {DAX_BYTE, DAX_SINT, DAX_CHAR} then Some 1
     else if t \<in> {DAX_UINT, DAX_WORD, DAX_INT} then Some 2
     else if t \<in> {DAX_UDINT, DAX_DWORD, DAX_TIME, DAX_DINT, DAX_REAL} then Some 4
     else if t \<in> {DAX_ULINT, DAX_LWORD, DAX_LINT, DAX_LREAL} then Some 8
     else None)"

definition typed_val :: "u32 \<Rightarrow> byte list \<Rightarrow> cnum" where
  "typed_val t bs =
    (if t \<in> {DAX_SINT, DAX_CHAR, DAX_INT, DAX_DINT, DAX_LINT} then Num (le_sdec bs)
     else if t = DAX_REAL then float_key 8 23 (le_dec bs)
     else if t = DAX_LREAL then float_key 11 52 (le_dec bs)
     else Num (int (le_dec bs)))"

definition cnum_cmp :: "cnum \<Rightarrow> cnum \<Rightarrow> int" where
  "cnum_cmp a b =
    (case (a, b) of
       (Num x, Num y) \<Rightarrow> if x < y then - 1 else if y < x then 1 else 0
     | _ \<Rightarrow> 0)"

text \<open>\<^verbatim>\<open>_generic_compare\<close> of the value at \<^verbatim>\<open>off1\<close> of one block with the one at \<^verbatim>\<open>off2\<close> of another.\<close>

definition generic_compare :: "u32 \<Rightarrow> byte list \<Rightarrow> int \<Rightarrow> byte list \<Rightarrow> int \<Rightarrow> int option" where
  "generic_compare t d1 off1 d2 off2 =
    do {
      w \<leftarrow> typed_width t;
      a \<leftarrow> mem_get d1 off1 w;
      b \<leftarrow> mem_get d2 off2 w;
      Some (cnum_cmp (typed_val t a) (typed_val t b))
    }"

text \<open>\<^verbatim>\<open>_event_compare\<close>: one flag bit per element; elements are counted from the start of the write.\<close>

function compare_loop ::
  "u32 \<Rightarrow> byte list \<Rightarrow> byte list \<Rightarrow> int \<Rightarrow> int \<Rightarrow> int \<Rightarrow> int \<Rightarrow> int \<Rightarrow> int \<Rightarrow> bool \<Rightarrow> byte list \<Rightarrow>
    (bool \<times> byte list) option" where
  "compare_loop dt val data base inc len cmp n b r test =
    (if n < len \<and> 0 < inc then
       do {
         c \<leftarrow> generic_compare dt val 0 data (base + n);
         x \<leftarrow> arr_get test (b div 8);
         let m = bit_mask (nat (b mod 8));
         let (r', x') =
           (if c = cmp then (if x AND m = 0 then (True, x OR m) else (r, x)) else (r, x AND NOT m));
         compare_loop dt val data base inc len cmp (n + inc) (b + 1) r' (test[nat (b div 8) := x'])
       }
     else Some (r, test))"
  by pat_completeness auto
termination
  by (relation "measure (\<lambda>(dt, val, data, base, inc, len, cmp, n, b, r, test). nat (len - n))") auto

declare compare_loop.simps [simp del]

definition event_compare :: "dax_event \<Rightarrow> byte list \<Rightarrow> int \<Rightarrow> int \<Rightarrow> int \<Rightarrow> (bool \<times> byte list) option" where
  "event_compare ev data offset sz cmp =
    (let inc = int (TYPESIZE (e_datatype ev) div 8)
     in if inc = 0 then None
        else compare_loop (e_datatype ev) (ptr_bytes (e_data ev)) data (max offset (e_byte ev)) inc
               (event_len ev offset sz) cmp 0 (max 0 (cdiv (offset - e_byte ev) inc)) False
               (ptr_bytes (e_test ev)))"

section \<open>Deadband\<close>

text \<open>
  \<^verbatim>\<open>_generic_deadband\<close>: has the value moved by at least the deadband? The difference is kept in a
  variable of a fixed width: 16 bits for BYTE, the type's own width for the signed types, 32
  bits for UINT, and 64 bits for UDINT and TIME, where the subtraction itself is done on 32 bit
  unsigned numbers. Subtracting \<^verbatim>\<open>int\<close>s or negating the least one may overflow.
\<close>

definition wrap_s :: "nat \<Rightarrow> int \<Rightarrow> int" where
  "wrap_s n x = signed_take_bit (n - 1) x"

definition fabs_ge :: "nat \<Rightarrow> nat \<Rightarrow> nat \<Rightarrow> nat \<Rightarrow> bool" where
  "fabs_ge ebits mbits d lim =
    (case (float_key ebits mbits d, float_key ebits mbits lim) of
       (Num x, Num y) \<Rightarrow> y \<le> \<bar>x\<bar>
     | _ \<Rightarrow> False)"

definition generic_deadband ::
  "env \<Rightarrow> u32 \<Rightarrow> byte list \<Rightarrow> byte list \<Rightarrow> int \<Rightarrow> byte list \<Rightarrow> int \<Rightarrow> bool option" where
  "generic_deadband E t lim d1 off1 d2 off2 =
    do {
      w \<leftarrow> typed_width t;
      l \<leftarrow> mem_get lim 0 w;
      a \<leftarrow> mem_get d1 off1 w;
      b \<leftarrow> mem_get d2 off2 w;
      let ul = int (le_dec l);
      let u = int (le_dec a) - int (le_dec b);
      let sl = le_sdec l;
      let v = le_sdec a - le_sdec b;
      if t = DAX_BYTE then Some (ul \<le> \<bar>wrap_s 16 u\<bar>)
      else if t = DAX_SINT \<or> t = DAX_CHAR then Some (sl \<le> \<bar>wrap_s 8 v\<bar>)
      else if t = DAX_UINT \<or> t = DAX_WORD then Some (ul \<le> \<bar>u\<bar>)
      else if t = DAX_INT then Some (sl \<le> \<bar>wrap_s 16 v\<bar>)
      else if t = DAX_UDINT \<or> t = DAX_DWORD \<or> t = DAX_TIME then Some (ul \<le> u mod 2 ^ 32)
      else if t = DAX_DINT then (if - (2 ^ 31) < v \<and> v < 2 ^ 31 then Some (sl \<le> \<bar>v\<bar>) else None)
      else if t = DAX_ULINT \<or> t = DAX_LWORD then
        (if wrap_s 64 u = - (2 ^ 63) then None else Some (ul \<le> \<bar>wrap_s 64 u\<bar>))
      else if t = DAX_LINT then (if - (2 ^ 63) < v \<and> v < 2 ^ 63 then Some (sl \<le> \<bar>v\<bar>) else None)
      else if t = DAX_REAL then
        Some (fabs_ge 8 23 (unat (fsub32 E (dec32 a) (dec32 b))) (le_dec l))
      else Some (fabs_ge 11 52 (unat (fsub64 E (dec64 a) (dec64 b))) (le_dec l))
    }"

function deadband_loop ::
  "env \<Rightarrow> u32 \<Rightarrow> byte list \<Rightarrow> byte list \<Rightarrow> int \<Rightarrow> int \<Rightarrow> int \<Rightarrow> int \<Rightarrow> int \<Rightarrow> bool \<Rightarrow> byte list \<Rightarrow>
    (bool \<times> byte list) option" where
  "deadband_loop E dt lim data toff base inc len n r test =
    (if n < len \<and> 0 < inc then
       do {
         hit \<leftarrow> generic_deadband E dt lim test (toff + n) data (base + n);
         test' \<leftarrow>
           (if hit then
              do { src \<leftarrow> mem_get data (base + n) inc; mem_put test (toff + n) src }
            else Some test);
         deadband_loop E dt lim data toff base inc len (n + inc) (r \<or> hit) test'
       }
     else Some (r, test))"
  by pat_completeness auto
termination
  by (relation "measure (\<lambda>(E, dt, lim, data, toff, base, inc, len, n, r, test). nat (len - n))") auto

declare deadband_loop.simps [simp del]

text \<open>\<^verbatim>\<open>_event_deadband\<close>: with an element size of 0 the loop would not advance.\<close>

definition event_deadband :: "env \<Rightarrow> dax_event \<Rightarrow> byte list \<Rightarrow> int \<Rightarrow> int \<Rightarrow> (bool \<times> byte list) option" where
  "event_deadband E ev data offset sz =
    (let inc = int (TYPESIZE (e_datatype ev) div 8);
         len = event_len ev offset sz
     in if inc = 0 \<and> 0 < len then None
        else deadband_loop E (e_datatype ev) (ptr_bytes (e_data ev)) data (max 0 (offset - e_byte ev))
               (max offset (e_byte ev)) inc len 0 False (ptr_bytes (e_test ev)))"

section \<open>Checking the events of a tag\<close>

text \<open>\<^verbatim>\<open>_event_hit\<close>\<close>

definition event_hit ::
  "env \<Rightarrow> dax_event \<Rightarrow> byte list \<Rightarrow> int \<Rightarrow> int \<Rightarrow> (bool \<times> dax_event) option" where
  "event_hit E ev data offset sz =
    (let wrap = map_option (\<lambda>(r, test). (r, put_test ev test))
     in if e_eventtype ev = EVENT_WRITE then Some (True, ev)
        else if e_eventtype ev = EVENT_CHANGE then wrap (event_change ev data offset sz)
        else if e_eventtype ev = EVENT_SET then wrap (event_set ev data)
        else if e_eventtype ev = EVENT_RESET then wrap (event_reset ev data)
        else if e_eventtype ev = EVENT_EQUAL then wrap (event_compare ev data offset sz 0)
        else if e_eventtype ev = EVENT_GREATER then wrap (event_compare ev data offset sz (- 1))
        else if e_eventtype ev = EVENT_LESS then wrap (event_compare ev data offset sz 1)
        else if e_eventtype ev = EVENT_DEADBAND then wrap (event_deadband E ev data offset sz)
        else Some (False, ev))"

text \<open>The intersection test of \<^verbatim>\<open>event_check\<close>; the first comparison is unsigned.\<close>

definition event_touched :: "dax_event \<Rightarrow> int \<Rightarrow> int \<Rightarrow> bool" where
  "event_touched ev offset sz \<longleftrightarrow>
    u32_of offset \<le> u32_of (e_byte ev) + e_size ev - 1 \<and> e_byte ev \<le> offset + sz - 1"

fun event_loop ::
  "env \<Rightarrow> server \<Rightarrow> int \<Rightarrow> byte list \<Rightarrow> int \<Rightarrow> int \<Rightarrow> dax_event list \<Rightarrow> (dax_event list \<times> server) option" where
  "event_loop E s idx data offset sz [] = Some ([], s)"
| "event_loop E s idx data offset sz (ev # evs) =
    do {
      (ev', s') \<leftarrow>
        (if event_touched ev offset sz then
           do {
             (hit, ev') \<leftarrow> event_hit E ev data offset sz;
             s' \<leftarrow> (if hit then map_option snd (send_event E s idx ev') else Some s);
             Some (ev', s')
           }
         else Some (ev, s));
      (evs', s'') \<leftarrow> event_loop E s' idx data offset sz evs;
      Some (ev' # evs', s'')
    }"

definition event_check :: "env \<Rightarrow> server \<Rightarrow> int \<Rightarrow> int \<Rightarrow> int \<Rightarrow> server option" where
  "event_check E s idx offset sz =
    do {
      t \<leftarrow> get_tag s idx;
      (evs, s') \<leftarrow> event_loop E s idx (data_bytes E t) offset sz (t_events t);
      Some (set_tag s' idx (t\<lparr>t_events := evs\<rparr>))
    }"

fun event_del_loop :: "env \<Rightarrow> server \<Rightarrow> int \<Rightarrow> dax_event list \<Rightarrow> server option" where
  "event_del_loop E s idx [] = Some s"
| "event_del_loop E s idx (ev # evs) =
    do {
      s' \<leftarrow> (if e_eventtype ev = EVENT_DELETED then map_option snd (send_event E s idx ev) else Some s);
      event_del_loop E s' idx evs
    }"

definition event_del_check :: "env \<Rightarrow> server \<Rightarrow> int \<Rightarrow> server option" where
  "event_del_check E s idx = do { t \<leftarrow> get_tag s idx; event_del_loop E s idx (t_events t) }"

section \<open>Adding and removing events\<close>

definition verify_event_type :: "u32 \<Rightarrow> int \<Rightarrow> int" where
  "verify_event_type ttype etype =
    (if etype = EVENT_WRITE \<or> etype = EVENT_CHANGE then 0
     else if etype = EVENT_SET \<or> etype = EVENT_RESET then (if ttype = DAX_BOOL then 0 else - 1)
     else if etype = EVENT_EQUAL then
       (if ttype = DAX_REAL \<or> ttype = DAX_LREAL \<or> ttype = DAX_BOOL \<or> DAX_CUSTOM \<le> ttype then - 1 else 0)
     else if ttype = DAX_BOOL \<or> DAX_CUSTOM \<le> ttype then - 1 else 0)"

text \<open>
  \<^verbatim>\<open>_set_event_data\<close>: the sizes of the \<^verbatim>\<open>data\<close> and \<^verbatim>\<open>test\<close> blocks, then their contents. A size that is
  not positive leaves a null pointer, to which the copy of a negative size would still be made.
\<close>

definition event_sizes :: "cdt list \<Rightarrow> dax_event \<Rightarrow> (int \<times> int) option" where
  "event_sizes dts ev =
    (let bits = cdiv (e_count ev - 1) 8 + 1
     in if e_eventtype ev = EVENT_CHANGE then
          (if e_datatype ev = DAX_BOOL then Some (0, bits)
           else do {
             z \<leftarrow> type_size dts (e_datatype ev);
             if int32_ok (z * e_count ev) then Some (0, z * e_count ev) else None
           })
        else if e_eventtype ev = EVENT_DEADBAND then
          do {
            z \<leftarrow> type_size dts (e_datatype ev);
            if int32_ok (z * e_count ev) then Some (z, z * e_count ev) else None
          }
        else if e_eventtype ev = EVENT_SET \<or> e_eventtype ev = EVENT_RESET then Some (0, bits)
        else if e_eventtype ev \<in> {EVENT_EQUAL, EVENT_GREATER, EVENT_LESS} then
          do { z \<leftarrow> type_size dts (e_datatype ev); Some (z, bits) }
        else Some (0, 0))"

definition set_event_data ::
  "env \<Rightarrow> cdt list \<Rightarrow> dax_event \<Rightarrow> byte list \<Rightarrow> byte list \<Rightarrow> (int + dax_event) option" where
  "set_event_data E dts ev tagdata data =
    do {
      (datasize, testsize) \<leftarrow> event_sizes dts ev;
      if 0 < datasize \<and> \<not> alloc E A_event_data then Some (Inl ERR_ALLOC)
      else if 0 < testsize \<and> \<not> alloc E A_event_test then Some (Inl ERR_ALLOC)
      else do {
        d \<leftarrow> (if e_eventtype ev \<in> {EVENT_DEADBAND, EVENT_EQUAL, EVENT_GREATER, EVENT_LESS}
              then mem_get data 0 datasize else Some []);
        x \<leftarrow> (if e_eventtype ev \<in> {EVENT_DEADBAND, EVENT_CHANGE}
              then mem_get tagdata (e_byte ev) testsize
              else if e_eventtype ev \<in> {EVENT_SET, EVENT_RESET, EVENT_EQUAL, EVENT_GREATER, EVENT_LESS}
              then (if testsize < 0 then None else Some (replicate (nat testsize) 0)) else Some []);
        Some (Inr (ev\<lparr>e_data := (if 0 < datasize then Some d else None),
                      e_test := (if 0 < testsize then Some x else None)\<rparr>))
      }
    }"

text \<open>
  \<^verbatim>\<open>event_add\<close>. For a queue the code takes the type of the tag for an index into the database
  (\<^verbatim>\<open>tag_get_size(_db[h.index].type)\<close>).
\<close>

definition event_add ::
  "env \<Rightarrow> server \<Rightarrow> tag_handle \<Rightarrow> int \<Rightarrow> byte list \<Rightarrow> mod_ptr option \<Rightarrow> (int \<times> server) option" where
  "event_add E s h etype data mp =
    (if h_index h < 0 \<or> get_tagindex s \<le> h_index h then Some (ERR_ARG, s)
     else do {
       t \<leftarrow> get_tag s (h_index h);
       if attr_set (t_attr t) TAG_ATTR_VIRTUAL \<and> \<not> IS_QUEUE (t_type t) then Some (ERR_ILLEGAL, s)
       else do {
         bad \<leftarrow>
           (if IS_QUEUE (t_type t) then
              (if h_byte h \<noteq> 0 \<or> etype \<noteq> EVENT_WRITE then Some True
               else do {
                 z \<leftarrow> tag_get_size s (int_of_u32 (t_type t));
                 Some (h_size h \<noteq> u32_of z * t_count t)
               })
            else Some False);
         if bad then Some (ERR_ILLEGAL, s)
         else do {
           z \<leftarrow> tag_get_size s (h_index h);
           if u32_of z < h_byte h + h_size h then Some (ERR_2BIG, s)
           else if verify_event_type (h_type h) etype \<noteq> 0 then Some (ERR_ARG, s)
           else if \<not> alloc E A_event then Some (ERR_ALLOC, s)
           else
             let ev = \<lparr>e_id = t_nextevent t, e_byte = int_of_u32 (h_byte h), e_bit = h_bit h,
                       e_count = int_of_u32 (h_count h), e_size = h_size h, e_options = 0,
                       e_datatype = h_type h, e_eventtype = etype, e_data = None, e_test = None,
                       e_notify = (case mp of Some m \<Rightarrow> m | None \<Rightarrow> 0)\<rparr>;
                 t1 = t\<lparr>t_nextevent := t_nextevent t + 1\<rparr>
             in do {
               r \<leftarrow> set_event_data E (cdts s) ev (data_bytes E t) data;
               (case r of
                  Inl e \<Rightarrow> Some (e, set_tag s (h_index h) t1)
                | Inr ev' \<Rightarrow>
                    (case mp of
                       None \<Rightarrow> None
                     | Some m \<Rightarrow>
                         do {
                           d \<leftarrow> mod_heap s m;
                           let t2 = t1\<lparr>t_events := ev' # t_events t,
                             t_attr := (if t_events t = [] then t_attr t OR TAG_ATTR_EVENT else t_attr t)\<rparr>;
                           Some (e_id ev,
                             set_module (set_tag s (h_index h) t2) m
                               (d\<lparr>mod_event_count := mod_event_count d + 1\<rparr>))
                         }))
             }
         }
       }
     })"

text \<open>\<^verbatim>\<open>_find_event\<close>: the position of the event in the list.\<close>

fun find_event :: "dax_event list \<Rightarrow> int \<Rightarrow> nat option" where
  "find_event [] i = None"
| "find_event (ev # evs) i = (if e_id ev = i then Some 0 else map_option Suc (find_event evs i))"

text \<open>
  \<^verbatim>\<open>event_del\<close>. When the event is the first of the list it is freed, and the code goes on to read
  its \<^verbatim>\<open>next\<close> pointer. The count of the module goes down whether or not an event was found.
\<close>

definition event_del ::
  "server \<Rightarrow> int \<Rightarrow> int \<Rightarrow> mod_ptr option \<Rightarrow> (int \<times> server) option" where
  "event_del s index i mp =
    (if get_tagindex s \<le> index \<or> index < 0 then Some (ERR_2BIG, s)
     else do {
       t \<leftarrow> get_tag s index;
       (case t_events t of
          [] \<Rightarrow> Some (ERR_NOTFOUND, s)
        | ev # evs \<Rightarrow>
            if e_id ev = i then (if Some (e_notify ev) \<noteq> mp then Some (ERR_AUTH, s) else None)
            else
              (case find_event evs i of
                 Some k \<Rightarrow>
                   if Some (e_notify (evs ! k)) \<noteq> mp then Some (ERR_AUTH, s)
                   else do {
                     m \<leftarrow> mp;
                     d \<leftarrow> mod_heap s m;
                     Some (0, set_module
                       (set_tag s index (t\<lparr>t_events := ev # take k evs @ drop (Suc k) evs\<rparr>)) m
                       (d\<lparr>mod_event_count := mod_event_count d - 1\<rparr>))
                   }
               | None \<Rightarrow>
                   do {
                     m \<leftarrow> mp;
                     d \<leftarrow> mod_heap s m;
                     Some (ERR_NOTFOUND, set_module s m (d\<lparr>mod_event_count := mod_event_count d - 1\<rparr>))
                   }))
     })"

definition event_opt ::
  "server \<Rightarrow> int \<Rightarrow> int \<Rightarrow> u32 \<Rightarrow> mod_ptr option \<Rightarrow> (int \<times> server) option" where
  "event_opt s index i options mp =
    (if get_tagindex s \<le> index \<or> index < 0 then Some (ERR_2BIG, s)
     else do {
       t \<leftarrow> get_tag s index;
       (case find_event (t_events t) i of
          None \<Rightarrow> Some (ERR_NOTFOUND, s)
        | Some k \<Rightarrow>
            if Some (e_notify (t_events t ! k)) \<noteq> mp then Some (ERR_AUTH, s)
            else Some (0, set_tag s index
              (t\<lparr>t_events := (t_events t)[k := (t_events t ! k)\<lparr>e_options := options\<rparr>]\<rparr>)))
     })"

text \<open>
  \<^verbatim>\<open>events_cleanup\<close>: from the last tag down, while the module still has events. Deleting the event
  of the loop frees the object whose \<^verbatim>\<open>next\<close> pointer the loop reads afterwards.
\<close>

fun cleanup_list :: "mod_ptr \<Rightarrow> dax_event list \<Rightarrow> bool" where
  "cleanup_list m evs = list_ex (\<lambda>ev. e_notify ev = m) evs"

fun events_cleanup_from :: "server \<Rightarrow> mod_ptr \<Rightarrow> nat \<Rightarrow> server option" where
  "events_cleanup_from s m 0 = Some s"
| "events_cleanup_from s m (Suc n) =
    do {
      d \<leftarrow> mod_heap s m;
      if 0 < mod_event_count d then
        do {
          t \<leftarrow> get_tag s (int n);
          if cleanup_list m (t_events t) then None else events_cleanup_from s m n
        }
      else Some s
    }"

definition events_cleanup :: "server \<Rightarrow> mod_ptr \<Rightarrow> server option" where
  "events_cleanup s m = events_cleanup_from s m (nat (get_tagindex s))"

end
