(* ===== verification/Tagbase.thy ===== *)
theory Tagbase
  imports Type_Table Tag_Queue Events
begin

text \<open>
  The tag database (\<^verbatim>\<open>tagbase.c\<close>) and the virtual and special tags it calls (\<^verbatim>\<open>virtualtag.c\<close>):
  adding and deleting tags, reading and writing their data, overrides, and the start-up of the
  database. A caller's buffer is a block of bytes that is passed in and returned.
\<close>

abbreviation (input) INDEX_TAGCOUNT :: int where "INDEX_TAGCOUNT \<equiv> 0"
abbreviation (input) INDEX_LASTINDEX :: int where "INDEX_LASTINDEX \<equiv> 1"
abbreviation (input) INDEX_ADDED_TAG :: int where "INDEX_ADDED_TAG \<equiv> 2"
abbreviation (input) INDEX_DELETED_TAG :: int where "INDEX_DELETED_TAG \<equiv> 3"
abbreviation (input) INDEX_DBSIZE :: int where "INDEX_DBSIZE \<equiv> 4"
abbreviation (input) INDEX_STARTED :: int where "INDEX_STARTED \<equiv> 5"
abbreviation (input) INDEX_LASTMODULE :: int where "INDEX_LASTMODULE \<equiv> 6"
abbreviation (input) INDEX_OVRD_INSTALLED :: int where "INDEX_OVRD_INSTALLED \<equiv> 7"
abbreviation (input) INDEX_OVRD_SET :: int where "INDEX_OVRD_SET \<equiv> 8"

definition MOD_STAT_COMMAND_OFFSET :: int where
  "MOD_STAT_COMMAND_OFFSET = 77"

text \<open>The bytes of a C string with its terminating zero.\<close>

definition str_bytes :: "string \<Rightarrow> byte list" where
  "str_bytes s = map (\<lambda>c. of_nat (ccode c)) s @ [0]"

lemma length_str_bytes [simp]: "length (str_bytes s) = Suc (length s)"
  by (simp add: str_bytes_def)

section \<open>Looking up a tag\<close>

text \<open>\<^verbatim>\<open>dax_tag\<close>, the description of a tag that the server hands out.\<close>

record dax_tag =
  dt_idx :: int
  dt_type :: u32
  dt_count :: u32
  dt_attr :: u16
  dt_name :: string

definition fill_tag :: "int \<Rightarrow> tag_db \<Rightarrow> dax_tag option" where
  "fill_tag i t =
    map_option (\<lambda>name. \<lparr>dt_idx = i, dt_type = t_type t, dt_count = t_count t, dt_attr = t_attr t, dt_name = name\<rparr>)
      (t_name t)"

definition tag_get_index :: "server \<Rightarrow> int \<Rightarrow> (int + dax_tag) option" where
  "tag_get_index s index =
    (if index < 0 \<or> tagnextindex s \<le> index then Some (Inl ERR_ARG)
     else do {
       t \<leftarrow> get_tag s index;
       if t_data t = D_null then Some (Inl ERR_DELETED) else map_option Inr (fill_tag index t)
     })"

definition tag_get_name :: "server \<Rightarrow> string \<Rightarrow> (int + dax_tag) option" where
  "tag_get_name s name =
    do {
      i \<leftarrow> get_by_name s name;
      if i < 0 then Some (Inl ERR_NOTFOUND)
      else do {
        t \<leftarrow> get_tag s i;
        if t_data t = D_null then Some (Inl ERR_DELETED) else map_option Inr (fill_tag i t)
      }
    }"

section \<open>Virtual and special tags\<close>

text \<open>\<^verbatim>\<open>special_set_module_type\<close>\<close>

definition special_set_module_type :: "server \<Rightarrow> u32 \<Rightarrow> server" where
  "special_set_module_type s t = s\<lparr>module_tag_type := t\<rparr>"

text \<open>\<^verbatim>\<open>server_time\<close> copies as many bytes as were asked for from a variable of eight.\<close>

definition server_time :: "env \<Rightarrow> byte list \<Rightarrow> int \<Rightarrow> (int \<times> byte list) option" where
  "server_time E buf sz =
    do { d \<leftarrow> mem_get (enc64 (clock E)) 0 sz; b \<leftarrow> mem_put buf 0 d; Some (0, b) }"

text \<open>\<^verbatim>\<open>get_module_tag_name\<close> writes a whole tag name whatever size was asked for.\<close>

definition get_module_tag_name :: "server \<Rightarrow> int \<Rightarrow> byte list \<Rightarrow> (int \<times> byte list \<times> server) option" where
  "get_module_tag_name s fd buf =
    (let (mp, s1) = module_find_fd s fd
     in case mp of
          None \<Rightarrow> Some (ERR_NOTFOUND, buf, s1)
        | Some m \<Rightarrow>
            do {
              d \<leftarrow> mod_heap s1 m;
              if mod_tagindex d = 0 then Some (ERR_NOTFOUND, buf, s1)
              else do {
                r \<leftarrow> tag_get_index s1 (mod_tagindex d);
                (case r of
                   Inl e \<Rightarrow> Some (e, buf, s1)
                 | Inr tag \<Rightarrow>
                     do {
                       b1 \<leftarrow> mem_put buf 0 (replicate DAX_TAGNAME_SIZE 0);
                       b2 \<leftarrow> mem_put b1 0 (str_bytes (dt_name tag));
                       Some (0, b2, s1)
                     })
              }
            })"

definition tag_queue_of :: "tag_db \<Rightarrow> tag_queue option" where
  "tag_queue_of t = (case t_data t of D_virt _ _ q \<Rightarrow> q | _ \<Rightarrow> None)"

definition put_queue :: "tag_db \<Rightarrow> tag_queue \<Rightarrow> tag_db" where
  "put_queue t q = (case t_data t of D_virt rd wr _ \<Rightarrow> t\<lparr>t_data := D_virt rd wr (Some q)\<rparr> | _ \<Rightarrow> t)"

definition read_queue :: "server \<Rightarrow> int \<Rightarrow> byte list \<Rightarrow> (int \<times> byte list \<times> server) option" where
  "read_queue s idx buf =
    do {
      t \<leftarrow> get_tag s idx;
      q \<leftarrow> tag_queue_of t;
      (r, d, q') \<leftarrow> queue_read q;
      b \<leftarrow> (if r = 0 then mem_put buf 0 d else Some buf);
      Some (r, b, set_tag s idx (put_queue t q'))
    }"

definition write_queue :: "env \<Rightarrow> server \<Rightarrow> int \<Rightarrow> int \<Rightarrow> byte list \<Rightarrow> int \<Rightarrow> (int \<times> server) option" where
  "write_queue E s idx offset data sz =
    do {
      t \<leftarrow> get_tag s idx;
      q \<leftarrow> tag_queue_of t;
      (r, q') \<leftarrow> queue_write E q offset data sz;
      let s1 = set_tag s idx (put_queue t q');
      if r \<noteq> 0 then Some (r, s1)
      else do { s2 \<leftarrow> event_check E s1 idx offset sz; Some (0, s2) }
    }"

text \<open>
  The calls through the function pointers of a virtual tag. The two queue functions and the two
  functions of read-only tags are the only ones the server installs, each in its own position.
\<close>

definition vf_read ::
  "env \<Rightarrow> server \<Rightarrow> vfunction \<Rightarrow> int \<Rightarrow> int \<Rightarrow> byte list \<Rightarrow> int \<Rightarrow> (int \<times> byte list \<times> server) option" where
  "vf_read E s f fd idx buf sz =
    (case f of
       VF_server_time \<Rightarrow> map_option (\<lambda>(r, b). (r, b, s)) (server_time E buf sz)
     | VF_get_module_tag_name \<Rightarrow> get_module_tag_name s fd buf
     | VF_read_queue \<Rightarrow> read_queue s idx buf
     | _ \<Rightarrow> None)"

definition vf_write ::
  "env \<Rightarrow> server \<Rightarrow> vfunction \<Rightarrow> int \<Rightarrow> int \<Rightarrow> byte list \<Rightarrow> int \<Rightarrow> (int \<times> server) option" where
  "vf_write E s f idx offset data sz =
    (case f of VF_write_queue \<Rightarrow> write_queue E s idx offset data sz | _ \<Rightarrow> None)"

text \<open>
  \<^verbatim>\<open>special_tag_write\<close> and \<^verbatim>\<open>special_tag_mask_write\<close>, which are the same: who may write to the tag of a module.
\<close>

definition special_tag_write :: "server \<Rightarrow> int \<Rightarrow> int \<Rightarrow> int \<Rightarrow> int \<Rightarrow> (int \<times> server) option" where
  "special_tag_write s fd index offset sz =
    do {
      t \<leftarrow> get_tag s index;
      if t_type t = module_tag_type s then
        (if offset = MOD_STAT_COMMAND_OFFSET \<and> sz = 1 then Some (0, s)
         else
           let (mp, s1) = module_find_fd s fd
           in case mp of
                None \<Rightarrow> Some (ERR_NOTFOUND, s1)
              | Some m \<Rightarrow>
                  do {
                    d \<leftarrow> mod_heap s1 m;
                    Some (if mod_tagindex d \<noteq> index then ERR_READONLY
                          else if offset < 12 then ERR_READONLY else 0, s1)
                  })
      else Some (0, s)
    }"

section \<open>Reading and writing\<close>

text \<open>\<^verbatim>\<open>tag_read\<close>. The hook \<^verbatim>\<open>special_tag_read\<close> always succeeds and does nothing.\<close>

definition tag_read ::
  "env \<Rightarrow> server \<Rightarrow> int \<Rightarrow> int \<Rightarrow> int \<Rightarrow> byte list \<Rightarrow> int \<Rightarrow> (int \<times> byte list \<times> server) option" where
  "tag_read E s fd idx offset buf sz =
    (if idx < 0 \<or> tagnextindex s \<le> idx then Some (ERR_ARG, buf, s)
     else do {
       t \<leftarrow> get_tag s idx;
       if attr_set (t_attr t) TAG_ATTR_VIRTUAL then
         (case t_data t of
            D_virt rd wr q \<Rightarrow>
              if rd = VF_null then Some (ERR_WRITEONLY, buf, s) else vf_read E s rd fd idx buf sz
          | _ \<Rightarrow> None)
       else if \<not> int32_ok (offset + sz) then None
       else do {
         z \<leftarrow> tag_get_size s idx;
         if z < offset + sz then Some (ERR_2BIG, buf, s)
         else if t_data t = D_null then Some (ERR_DELETED, buf, s)
         else do {
           d \<leftarrow> mem_get (data_bytes E t) offset sz;
           b1 \<leftarrow> mem_put buf 0 d;
           if attr_set (t_attr t) TAG_ATTR_OVR_SET then
             do {
               od \<leftarrow> mem_get (ptr_bytes (t_odata t)) offset sz;
               om \<leftarrow> mem_get (ptr_bytes (t_omask t)) offset sz;
               b2 \<leftarrow> mem_put b1 0 (mask_bytes od om d);
               Some (0, b2, s)
             }
           else Some (0, b1, s)
         }
       }
     })"

definition ret_tag_write :: "server \<Rightarrow> int \<Rightarrow> server" where
  "ret_tag_write s idx = s\<lparr>retained := retained s @ [Ret_write idx]\<rparr>"

text \<open>The end of both write functions: events, then tag retention.\<close>

definition write_finish :: "env \<Rightarrow> server \<Rightarrow> int \<Rightarrow> int \<Rightarrow> int \<Rightarrow> (int \<times> server) option" where
  "write_finish E s idx offset sz =
    do {
      s1 \<leftarrow> event_check E s idx offset sz;
      t \<leftarrow> get_tag s1 idx;
      Some (0, if attr_set (t_attr t) TAG_ATTR_RETAIN then ret_tag_write s1 idx else s1)
    }"

text \<open>
  The part that \<^verbatim>\<open>tag_write\<close> and \<^verbatim>\<open>tag_mask_write\<close> have in common: the size check, the deleted tag,
  the hook of a special tag; then the new bytes, computed from the old ones.
\<close>

definition tag_store ::
  "env \<Rightarrow> server \<Rightarrow> int \<Rightarrow> int \<Rightarrow> tag_db \<Rightarrow> int \<Rightarrow> (byte list \<Rightarrow> byte list option) \<Rightarrow> int \<Rightarrow>
    (int \<times> server) option" where
  "tag_store E s fd idx t offset upd sz =
    (if \<not> int32_ok (offset + sz) then None
     else do {
       z \<leftarrow> tag_get_size s idx;
       if z < offset + sz then Some (ERR_2BIG, s)
       else if t_data t = D_null then Some (ERR_DELETED, s)
       else do {
         (r, s1) \<leftarrow>
           (if attr_set (t_attr t) TAG_ATTR_SPECIAL then special_tag_write s fd idx offset sz else Some (0, s));
         if r \<noteq> 0 then Some (r, s1)
         else
           (case t_data t of
              D_block b \<Rightarrow>
                do {
                  b' \<leftarrow> upd b;
                  write_finish E (set_tag s1 idx (t\<lparr>t_data := D_block b'\<rparr>)) idx offset sz
                }
            | _ \<Rightarrow> None)
       }
     })"

definition tag_write ::
  "env \<Rightarrow> server \<Rightarrow> int \<Rightarrow> int \<Rightarrow> int \<Rightarrow> byte list \<Rightarrow> int \<Rightarrow> (int \<times> server) option" where
  "tag_write E s fd idx offset data sz =
    (if idx < 0 \<or> tagnextindex s \<le> idx then Some (ERR_ARG, s)
     else do {
       t \<leftarrow> get_tag s idx;
       if attr_set (t_attr t) TAG_ATTR_VIRTUAL then
         (case t_data t of
            D_virt rd wr q \<Rightarrow>
              if wr = VF_null then Some (ERR_READONLY, s)
              else do {
                (r, s1) \<leftarrow> vf_write E s wr idx offset data sz;
                Some (r, s1)
              }
          | _ \<Rightarrow> None)
       else
         tag_store E s fd idx t offset
           (\<lambda>b. do { src \<leftarrow> mem_get data 0 sz; mem_put b offset src }) sz
     })"

text \<open>
  \<^verbatim>\<open>tag_mask_write\<close>: the attribute is read before the index is checked. A size that is not positive
  makes the loop empty.
\<close>

definition mask_update :: "byte list \<Rightarrow> byte list \<Rightarrow> int \<Rightarrow> int \<Rightarrow> byte list \<Rightarrow> byte list option" where
  "mask_update data msk offset sz b =
    (if sz \<le> 0 then Some b
     else do {
       new \<leftarrow> mem_get data 0 sz;
       m \<leftarrow> mem_get msk 0 sz;
       old \<leftarrow> mem_get b offset sz;
       mem_put b offset (mask_bytes new m old)
     })"

definition tag_mask_write ::
  "env \<Rightarrow> server \<Rightarrow> int \<Rightarrow> int \<Rightarrow> int \<Rightarrow> byte list \<Rightarrow> byte list \<Rightarrow> int \<Rightarrow> (int \<times> server) option" where
  "tag_mask_write E s fd idx offset data msk sz =
    do {
      t \<leftarrow> get_tag s idx;
      if attr_set (t_attr t) TAG_ATTR_VIRTUAL then Some (ERR_ILLEGAL, s)
      else if idx < 0 \<or> tagnextindex s \<le> idx then Some (ERR_ARG, s)
      else tag_store E s fd idx t offset (mask_update data msk offset sz) sz
    }"

text \<open>A write of the server itself, whose result is not looked at.\<close>

definition sys_write :: "env \<Rightarrow> server \<Rightarrow> int \<Rightarrow> byte list \<Rightarrow> server option" where
  "sys_write E s idx data = map_option snd (tag_write E s (- 1) idx 0 data (int (length data)))"

text \<open>The same for a status tag, if it has data.\<close>

definition status_write :: "env \<Rightarrow> server \<Rightarrow> int \<Rightarrow> int \<Rightarrow> server option" where
  "status_write E s idx x =
    do {
      t \<leftarrow> get_tag s idx;
      if t_data t = D_null then Some s else sys_write E s idx (enc_int x)
    }"

definition set_dbsize :: "env \<Rightarrow> server \<Rightarrow> int \<Rightarrow> server option" where
  "set_dbsize E s x =
    do {
      (r, s1) \<leftarrow> tag_write E s (- 1) INDEX_DBSIZE 0 (enc_int x) 4;
      if r = 0 then Some s1 else None
    }"

end
