(* ===== verification/Tag_Admin.thy ===== *)
theory Tag_Admin
  imports Tagbase
begin

text \<open>
  Adding and deleting tags and the start-up of the tag database (\<^verbatim>\<open>tagbase.c\<close>: \<^verbatim>\<open>_database_grow\<close>,
  \<^verbatim>\<open>_queue_add\<close>, \<^verbatim>\<open>_set_attribute\<close>, \<^verbatim>\<open>tag_add\<close>, \<^verbatim>\<open>tag_del\<close>, \<^verbatim>\<open>virtual_tag_add\<close>, \<^verbatim>\<open>initialize_tagbase\<close>).
\<close>

text \<open>
  \<^verbatim>\<open>_database_grow\<close>: both arrays double. The second half is not initialized; in the index it is never
  read. When only one of the two calls succeeds, the other array's old pointer has been given
  to \<^verbatim>\<open>realloc\<close> already and is used again.
\<close>

definition database_grow :: "env \<Rightarrow> server \<Rightarrow> (int \<times> server) option" where
  "database_grow E s =
    (if alloc E A_grow_index \<and> alloc E A_grow_db then
       Some (0, s\<lparr>name_index := name_index s @ replicate (nat (dbsize s)) ([], 0),
                  db := db s @ map (junk_tag E) [length (db s)..<length (db s) + nat (dbsize s)],
                  dbsize := dbsize s * 2\<rparr>)
     else if \<not> alloc E A_grow_index \<and> \<not> alloc E A_grow_db then Some (ERR_ALLOC, s)
     else None)"

text \<open>\<^verbatim>\<open>_queue_add\<close>: when the last allocation fails the queue is freed before its array pointer is read.\<close>

definition queue_add :: "env \<Rightarrow> server \<Rightarrow> int \<Rightarrow> u32 \<Rightarrow> u32 \<Rightarrow> (int \<times> server) option" where
  "queue_add E s idx type count =
    (if \<not> alloc E A_queue then Some (ERR_ALLOC, s)
     else do {
       z \<leftarrow> type_size (cdts s) type;
       let sz = int_of_u32 (u32_of z * count);
       if \<not> alloc E A_queue_array then Some (ERR_ALLOC, s)
       else if \<not> alloc E A_queue_vf then None
       else do {
         t \<leftarrow> get_tag s idx;
         Some (0, set_tag s idx
           (t\<lparr>t_data := D_virt VF_read_queue VF_write_queue (Some (new_queue type count sz)),
              t_attr := t_attr t OR TAG_ATTR_VIRTUAL\<rparr>))
       }
     })"

text \<open>\<^verbatim>\<open>_set_attribute\<close>: retention excludes ownership.\<close>

definition set_attribute :: "server \<Rightarrow> int \<Rightarrow> u32 \<Rightarrow> server option" where
  "set_attribute s idx attr =
    do {
      t \<leftarrow> get_tag s idx;
      let a = (ucast attr :: u16);
      Some
        (if attr_set a TAG_ATTR_RETAIN then
           (set_tag s idx (t\<lparr>t_attr := t_attr t OR TAG_ATTR_RETAIN\<rparr>))
             \<lparr>retained := retained s @ [Ret_add idx]\<rparr>
         else if attr_set a TAG_ATTR_OWNED \<and> attr_set a TAG_ATTR_READONLY then
           set_tag s idx (t\<lparr>t_attr := t_attr t OR (TAG_ATTR_OWNED OR TAG_ATTR_READONLY)\<rparr>)
         else if attr_set a TAG_ATTR_OWNED then
           set_tag s idx (t\<lparr>t_attr := t_attr t OR TAG_ATTR_OWNED\<rparr>)
         else s)
    }"

text \<open>
  The description that goes into \<^verbatim>\<open>_tag_added\<close> and \<^verbatim>\<open>_tag_deleted\<close>, 47 bytes. The name is copied with a
  fixed length, so that what lies behind the string comes along. (The \<^verbatim>\<open>memset\<close> before it has
  the size of a \<^verbatim>\<open>dax_tag\<close>, 48, one more than the array; that byte is not part of the model.)
\<close>

definition tag_desc :: "env \<Rightarrow> int \<Rightarrow> u32 \<Rightarrow> u32 \<Rightarrow> u16 \<Rightarrow> string \<Rightarrow> byte list" where
  "tag_desc E idx type count attr name =
    enc_int idx @ enc32 type @ enc32 count @ enc16 attr @
    take (DAX_TAGNAME_SIZE + 1) (str_bytes name @ map (junk E) [0..<DAX_TAGNAME_SIZE + 1])"

section \<open>Adding a tag\<close>

definition data_size :: "cdt list \<Rightarrow> u32 \<Rightarrow> u32 \<Rightarrow> u32 option" where
  "data_size dts type count =
    (if type = DAX_BOOL then Some (count div 8 + 1)
     else do { z \<leftarrow> type_size dts type; Some (u32_of z * count) })"

text \<open>
  \<^verbatim>\<open>xrealloc\<close> of a tag's data. New bytes are not initialized. For a queue the block is the record of
  its functions, which is lost if the new size is smaller. A size of 0 would free the block.
\<close>

definition realloc_data :: "env \<Rightarrow> tag_data \<Rightarrow> nat \<Rightarrow> tag_data option" where
  "realloc_data E d n =
    (if n = 0 then None
     else
       Some (case d of
          D_virt rd wr q \<Rightarrow>
            if VIRT_SIZE \<le> n then D_virt rd wr q else D_block (map (junk E) [0..<n])
        | D_block b \<Rightarrow> D_block (take n b @ map (junk E) [length b..<n])
        | D_null \<Rightarrow> D_block (map (junk E) [0..<n])))"

text \<open>\<^verbatim>\<open>tag_add\<close> for a name that exists: the tag is the same, or grows, or is a duplicate.\<close>

definition tag_add_existing ::
  "env \<Rightarrow> server \<Rightarrow> int \<Rightarrow> int \<Rightarrow> u32 \<Rightarrow> u32 \<Rightarrow> u32 \<Rightarrow> u32 \<Rightarrow> (int \<times> server) option" where
  "tag_add_existing E s fd n type count attr sz =
    do {
      t \<leftarrow> get_tag s n;
      if attr_set (t_attr t) TAG_ATTR_OWNED \<and> t_fd t \<noteq> fd then Some (ERR_TAG_DUPL, s)
      else if t_type t = type \<and> count \<le> t_count t then
        do { s1 \<leftarrow> set_attribute s n attr; Some (n, s1) }
      else if t_type t = type then
        (if alloc E A_tag_realloc then
           do {
             d \<leftarrow> realloc_data E (t_data t) (unat sz);
             s1 \<leftarrow> set_attribute (set_tag s n (t\<lparr>t_data := d, t_count := count\<rparr>)) n attr;
             s2 \<leftarrow> sys_write E s1 INDEX_ADDED_TAG (enc_int n);
             Some (n, s2)
           }
         else Some (ERR_ALLOC, s))
      else Some (ERR_TAG_DUPL, s)
    }"

text \<open>\<^verbatim>\<open>tag_add\<close> for a new name: first the data area,\<close>

definition tag_alloc :: "env \<Rightarrow> server \<Rightarrow> u32 \<Rightarrow> u32 \<Rightarrow> u32 \<Rightarrow> (int \<times> server) option" where
  "tag_alloc E s type count sz =
    (let n = tagnextindex s
     in do {
       t \<leftarrow> get_tag s n;
       let t1 = t\<lparr>t_count := count, t_type := type\<rparr>;
       if IS_QUEUE type then map_option (\<lambda>(r, s1). (0, s1)) (queue_add E (set_tag s n t1) n type count)
       else if alloc E A_tag_data
       then Some (0, set_tag s n (t1\<lparr>t_data := D_block (replicate (unat sz) 0)\<rparr>))
       else Some (ERR_ALLOC, set_tag s n (t1\<lparr>t_data := D_null\<rparr>))
     })"

text \<open>then the rest of the entry and the index, the counters and the status tags.\<close>

definition tag_publish ::
  "env \<Rightarrow> server \<Rightarrow> int \<Rightarrow> string \<Rightarrow> u32 \<Rightarrow> u32 \<Rightarrow> u32 \<Rightarrow> (int \<times> server) option" where
  "tag_publish E s n name type count attr =
    do {
      s1 \<leftarrow> (if IS_CUSTOM type then cdt_inc_refcount s type else Some s);
      s2 \<leftarrow> status_write E s1 INDEX_LASTINDEX (tagnextindex s1);
      let s3 = s2\<lparr>tagnextindex := tagnextindex s2 + 1, tagcount := tagcount s2 + 1\<rparr>;
      s4 \<leftarrow> status_write E s3 INDEX_TAGCOUNT (tagcount s3);
      s5 \<leftarrow> set_attribute s4 n attr;
      s6 \<leftarrow> sys_write E s5 INDEX_ADDED_TAG (tag_desc E n type count (ucast attr) name);
      Some (n, s6)
    }"

definition tag_add_new ::
  "env \<Rightarrow> server \<Rightarrow> int \<Rightarrow> string \<Rightarrow> u32 \<Rightarrow> u32 \<Rightarrow> u32 \<Rightarrow> u32 \<Rightarrow> (int \<times> server) option" where
  "tag_add_new E s fd name type count attr sz =
    (let n = tagnextindex s
     in do {
       (r, s1) \<leftarrow> tag_alloc E s type count sz;
       if r \<noteq> 0 then Some (ERR_ALLOC, s1)
       else do {
         t \<leftarrow> get_tag s1 n;
         (r2, s2) \<leftarrow> add_index E
           (set_tag s1 n (t\<lparr>t_nextevent := 1, t_nextmap := 1, t_fd := fd, t_events := [],
              t_omask := None, t_odata := None\<rparr>)) name n;
         if r2 \<noteq> 0 then Some (ERR_ALLOC, s2) else tag_publish E s2 n name type count attr
       }
     })"

definition tag_add ::
  "env \<Rightarrow> server \<Rightarrow> int \<Rightarrow> string \<Rightarrow> u32 \<Rightarrow> u32 \<Rightarrow> u32 \<Rightarrow> (int \<times> server) option" where
  "tag_add E s0 fd name type count attr =
    (if count = 0 then Some (ERR_ARG, s0)
     else do {
       (g, s) \<leftarrow> (if dbsize s0 \<le> tagnextindex s0 then database_grow E s0 else Some (0, s0));
       if g \<noteq> 0 then Some (ERR_ALLOC, s)
       else if checktype (cdts s) type \<noteq> 0 then Some (ERR_BADTYPE, s)
       else if validate_name name \<noteq> 0 then Some (ERR_TAG_BAD, s)
       else do {
         sz \<leftarrow> data_size (cdts s) type count;
         n \<leftarrow> get_by_name s name;
         if 0 \<le> n then tag_add_existing E s fd n type count attr sz
         else tag_add_new E s fd name type count attr sz
       }
     })"

section \<open>Deleting a tag\<close>

text \<open>
  \<^verbatim>\<open>tag_del\<close>: events, type count, retention and index first, then the description is published, then
  the entry is emptied. Overrides are not freed.
\<close>

definition tag_detach :: "env \<Rightarrow> server \<Rightarrow> int \<Rightarrow> (tag_db \<times> string \<times> server) option" where
  "tag_detach E s idx =
    do {
      s1 \<leftarrow> event_del_check E s idx;
      t \<leftarrow> get_tag s1 idx;
      s2 \<leftarrow> (if IS_CUSTOM (t_type t) then cdt_dec_refcount s1 (t_type t) else Some s1);
      let s3 = (if attr_set (t_attr t) TAG_ATTR_RETAIN then s2\<lparr>retained := retained s2 @ [Ret_del idx]\<rparr> else s2);
      let t1 = t\<lparr>t_events := [], t_mappings := []\<rparr>;
      name \<leftarrow> t_name t;
      s4 \<leftarrow> del_index (set_tag s3 idx t1) name;
      Some (t1, name, s4)
    }"

definition tag_del :: "env \<Rightarrow> server \<Rightarrow> int \<Rightarrow> (int \<times> server) option" where
  "tag_del E s idx =
    (if tagnextindex s \<le> idx \<or> idx < 0 then Some (ERR_ARG, s)
     else do {
       t0 \<leftarrow> get_tag s idx;
       if t_data t0 = D_null then Some (ERR_DELETED, s)
       else do {
         (t, name, s1) \<leftarrow> tag_detach E s idx;
         s2 \<leftarrow> sys_write E s1 INDEX_DELETED_TAG (tag_desc E idx (t_type t) (t_count t) (t_attr t) name);
         t2 \<leftarrow> get_tag s2 idx;
         let s3 = (set_tag s2 idx (t2\<lparr>t_name := None, t_data := D_null, t_attr := 0\<rparr>))
                    \<lparr>tagcount := tagcount s2 - 1\<rparr>;
         s4 \<leftarrow> status_write E s3 INDEX_TAGCOUNT (tagcount s3);
         Some (0, s4)
       }
     })"

section \<open>Start-up\<close>

text \<open>\<^verbatim>\<open>virtual_tag_add\<close>: the index that \<^verbatim>\<open>tag_add\<close> returns is used without a check.\<close>

definition virtual_tag_add ::
  "env \<Rightarrow> server \<Rightarrow> string \<Rightarrow> u32 \<Rightarrow> u32 \<Rightarrow> vfunction \<Rightarrow> vfunction \<Rightarrow> (int \<times> server) option" where
  "virtual_tag_add E s name type count rd wr =
    do {
      (idx, s1) \<leftarrow> tag_add E s (- 1) name type count 0;
      t \<leftarrow> get_tag s1 idx;
      Some
        (if \<not> alloc E A_virt then (ERR_ALLOC, set_tag s1 idx (t\<lparr>t_data := D_null\<rparr>))
         else (0, set_tag s1 idx
           (t\<lparr>t_data := D_virt rd wr None,
              t_attr := (if wr = VF_null then (t_attr t OR TAG_ATTR_VIRTUAL) OR TAG_ATTR_READONLY
                         else t_attr t OR TAG_ATTR_VIRTUAL)\<rparr>)))
    }"

definition mod_cdt_str :: string where
  "mod_cdt_str =
    ''_module:starttime,TIME,1:id,DINT,1:running,BOOL,1:faulted,BOOL,1:status,CHAR,64:'' @
    ''stop,BOOL,1:run,BOOL,1:reload,BOOL,1:kill,BOOL,1''"

definition tag_cdt_str :: string where
  "tag_cdt_str =
    ''_tag_desc:index,DINT,1:type,UDINT,1:count,UDINT,1:attributes,UINT,1:name,CHAR,'' @
    show_nat (DAX_TAGNAME_SIZE + 1)"

text \<open>One of the asserted system tags, which become read-only.\<close>

definition add_system_tag :: "env \<Rightarrow> server \<Rightarrow> string \<Rightarrow> u32 \<Rightarrow> u32 \<Rightarrow> int \<Rightarrow> server option" where
  "add_system_tag E s name type count idx =
    do {
      (r, s1) \<leftarrow> tag_add E s (- 1) name type count 0;
      if r \<noteq> idx then None
      else do { t \<leftarrow> get_tag s1 idx; Some (set_tag s1 idx (t\<lparr>t_attr := TAG_ATTR_READONLY\<rparr>)) }
    }"

fun add_system_tags :: "env \<Rightarrow> server \<Rightarrow> int \<Rightarrow> (string \<times> u32 \<times> u32) list \<Rightarrow> server option" where
  "add_system_tags E s i [] = Some s"
| "add_system_tags E s i ((name, type, count) # rest) =
    do { s1 \<leftarrow> add_system_tag E s name type count i; add_system_tags E s1 (i + 1) rest }"

definition system_tags :: "u32 \<Rightarrow> (string \<times> u32 \<times> u32) list" where
  "system_tags desc =
    [(''_tagcount'', DAX_DINT, 1), (''_lastindex'', DAX_DINT, 1), (''_tag_added'', desc, 1),
     (''_tag_deleted'', desc, 1), (''_dbsize'', DAX_DINT, 1), (''_starttime'', DAX_TIME, 1),
     (''_lastmodule'', DAX_CHAR, 33), (''_overrides_installed'', DAX_DINT, 1),
     (''_overrides_set'', DAX_DINT, 1)]"

text \<open>
  \<^verbatim>\<open>initialize_tagbase\<close>, for an initial array of \<open>n\<close> tags (\<^verbatim>\<open>DAX_TAGLIST_SIZE\<close>). A failure of one of
  its steps ends the program; that the index could not be allocated is not noticed, as the code tests the pointer
  to the database again, and the first tag is written through the null pointer.
\<close>

definition initialize_tagbase :: "env \<Rightarrow> nat \<Rightarrow> server option" where
  "initialize_tagbase E n =
    (if \<not> alloc E A_db \<or> \<not> alloc E A_index \<or> \<not> alloc E A_datatypes then None
     else do {
      (mt, e1, s1) \<leftarrow> cdt_create E (server_empty n) mod_cdt_str;
      (tt, e2, s2) \<leftarrow> (if mt = 0 then None else cdt_create E (special_set_module_type s1 mt) tag_cdt_str);
      s3 \<leftarrow> (if tt = 0 then None else add_system_tags E s2 0 (system_tags tt));
      (r4, s4) \<leftarrow> virtual_tag_add E s3 ''_time'' DAX_TIME 1 VF_server_time VF_null;
      (r5, s5) \<leftarrow> virtual_tag_add E s4 ''_my_tagname'' DAX_CHAR 33 VF_get_module_tag_name VF_null;
      s6 \<leftarrow> sys_write E s5 INDEX_STARTED (enc64 (clock E));
      set_dbsize E s6 (dbsize s6)
    })"

end
