(* ===== verification/Tag_Groups.thy ===== *)
theory Tag_Groups
  imports Tagbase
begin

text \<open>
  Tag groups (\<^verbatim>\<open>groups.c\<close>): a module sends a list of handles once and then reads or writes all of them
  with one message. Each module has an array of groups.
\<close>

definition TAG_GROUP_START_COUNT :: nat where "TAG_GROUP_START_COUNT = 16"
definition TAG_GROUP_MAX_COUNT :: nat where "TAG_GROUP_MAX_COUNT = 4096"
definition TAG_GROUP_MAX_MEMBERS :: nat where "TAG_GROUP_MAX_MEMBERS = 150"
definition MSG_TAG_GROUP_DATA_SIZE :: int where "MSG_TAG_GROUP_DATA_SIZE = 4084"
definition GRP_FLAG_NOT_EMPTY :: byte where "GRP_FLAG_NOT_EMPTY = 1"

text \<open>\<^verbatim>\<open>_init_group\<close>; the count of an empty group is never read.\<close>

definition init_group :: tag_group where
  "init_group = \<lparr>g_flags = 0, g_size = 0, g_count = 0, g_members = None\<rparr>"

definition group_used :: "tag_group \<Rightarrow> bool" where
  "group_used g \<longleftrightarrow> g_flags g AND GRP_FLAG_NOT_EMPTY \<noteq> 0"

text \<open>
  \<^verbatim>\<open>_group_add\<close>: the first empty group below \<^verbatim>\<open>groups_size\<close>, or the array grows to twice that
  number.
\<close>

definition groups_start :: "env \<Rightarrow> dax_module \<Rightarrow> int + dax_module" where
  "groups_start E m =
    (if mod_groups_size m = 0 then
       (if alloc E A_groups
        then Inr (m\<lparr>mod_tag_groups := Some (replicate TAG_GROUP_START_COUNT init_group),
                    mod_groups_size := of_nat TAG_GROUP_START_COUNT\<rparr>)
        else Inl ERR_ALLOC)
     else Inr m)"

fun first_empty :: "tag_group list \<Rightarrow> nat option" where
  "first_empty [] = None"
| "first_empty (g # gs) = (if group_used g then map_option Suc (first_empty gs) else Some 0)"

definition groups_grow :: "env \<Rightarrow> dax_module \<Rightarrow> tag_group list \<Rightarrow> int \<times> dax_module" where
  "groups_grow E m gs =
    (let n = unat (mod_groups_size m); newsize = mod_groups_size m * 2
     in if of_nat TAG_GROUP_MAX_COUNT < newsize then (ERR_2BIG, m)
        else if \<not> alloc E A_groups_grow then (ERR_ALLOC, m)
        else (int n, m\<lparr>mod_tag_groups := Some (take n gs @ replicate (unat newsize - n) init_group),
                       mod_groups_size := newsize\<rparr>))"

definition group_slot :: "env \<Rightarrow> dax_module \<Rightarrow> (int \<times> dax_module) option" where
  "group_slot E m0 =
    (case groups_start E m0 of
       Inl e \<Rightarrow> Some (e, m0)
     | Inr m \<Rightarrow>
         do {
           gs \<leftarrow> mod_tag_groups m;
           used \<leftarrow> mem_get gs 0 (uint (mod_groups_size m));
           Some (case first_empty used of
                   Some n \<Rightarrow> (int n, m)
                 | None \<Rightarrow> groups_grow E m gs)
         })"

text \<open>One handle of the message, 21 bytes.\<close>

definition dec_handle :: "byte list \<Rightarrow> tag_handle" where
  "dec_handle bs =
    \<lparr>h_index = dec_int (take 4 bs), h_byte = dec32 (take 4 (drop 4 bs)), h_bit = bs ! 8,
     h_count = dec32 (take 4 (drop 9 bs)), h_size = dec32 (take 4 (drop 13 bs)),
     h_type = dec32 (take 4 (drop 17 bs))\<rparr>"

text \<open>The loop of \<^verbatim>\<open>group_add\<close>: \<^verbatim>\<open>Inl\<close> when the data of the group get too large.\<close>

fun group_handles :: "byte list \<Rightarrow> nat \<Rightarrow> nat \<Rightarrow> u32 \<Rightarrow> (unit + tag_handle list) option" where
  "group_handles hs n 0 datasize = Some (Inr [])"
| "group_handles hs n (Suc k) datasize =
    do {
      bs \<leftarrow> mem_get hs (int (21 * n)) 21;
      let h = dec_handle bs;
      let d = datasize + h_size h;
      if MSG_TAG_GROUP_DATA_SIZE < int_of_u32 d then Some (Inl ())
      else do {
        r \<leftarrow> group_handles hs (Suc n) k d;
        Some (case r of Inl u \<Rightarrow> Inl u | Inr rest \<Rightarrow> Inr (h # rest))
      }
    }"

definition put_group :: "dax_module \<Rightarrow> int \<Rightarrow> (tag_group \<Rightarrow> tag_group) \<Rightarrow> dax_module option" where
  "put_group m i f =
    do {
      gs \<leftarrow> mod_tag_groups m;
      g \<leftarrow> arr_get gs i;
      Some (m\<lparr>mod_tag_groups := Some (gs[nat i := f g])\<rparr>)
    }"

definition group_add :: "env \<Rightarrow> dax_module \<Rightarrow> byte list \<Rightarrow> nat \<Rightarrow> (int \<times> dax_module) option" where
  "group_add E m handles count =
    (if TAG_GROUP_MAX_MEMBERS < count then Some (ERR_ARG, m)
     else do {
       (index, m1) \<leftarrow> group_slot E m;
       if index < 0 then Some (index, m1)
       else if \<not> alloc E A_group_members then
         do { m2 \<leftarrow> put_group m1 index (\<lambda>g. g\<lparr>g_members := None\<rparr>); Some (ERR_ALLOC, m2) }
       else do {
         r \<leftarrow> group_handles handles 0 count 0;
         (case r of
            Inl _ \<Rightarrow>
              do { m2 \<leftarrow> put_group m1 index (\<lambda>g. g\<lparr>g_members := None\<rparr>); Some (ERR_2BIG, m2) }
          | Inr hs \<Rightarrow>
              do {
                m2 \<leftarrow> put_group m1 index
                  (\<lambda>g. g\<lparr>g_members := Some hs, g_flags := g_flags g OR GRP_FLAG_NOT_EMPTY,
                         g_count := of_nat count\<rparr>);
                Some (index, m2)
              })
       }
     })"

text \<open>\<^verbatim>\<open>group_del\<close>: the index is not checked, and the size of the array is counted down.\<close>

definition get_group :: "dax_module \<Rightarrow> int \<Rightarrow> tag_group option" where
  "get_group m i = do { gs \<leftarrow> mod_tag_groups m; arr_get gs i }"

definition group_del :: "dax_module \<Rightarrow> int \<Rightarrow> (int \<times> dax_module) option" where
  "group_del m index =
    do {
      g \<leftarrow> get_group m index;
      if \<not> group_used g then Some (ERR_NOTFOUND, m)
      else do {
        m1 \<leftarrow> put_group m index (\<lambda>g. g\<lparr>g_flags := 0, g_count := 0\<rparr>);
        Some (0, m1\<lparr>mod_groups_size := mod_groups_size m1 - 1\<rparr>)
      }
    }"

text \<open>
  \<^verbatim>\<open>group_read\<close> and \<^verbatim>\<open>group_write\<close>: the members one after the other, up to the first error. The size
  that \<^verbatim>\<open>group_read\<close> compares with the buffer is never set.
\<close>

fun group_read_loop ::
  "env \<Rightarrow> server \<Rightarrow> tag_handle list \<Rightarrow> int \<Rightarrow> byte list \<Rightarrow> (int \<times> byte list \<times> server) option" where
  "group_read_loop E s [] offset buf = Some (offset, buf, s)"
| "group_read_loop E s (h # hs) offset buf =
    do {
      rest \<leftarrow> (if 0 \<le> offset \<and> offset \<le> int (length buf) then Some (drop (nat offset) buf) else None);
      (r, part, s1) \<leftarrow> tag_read E s (- 1) (h_index h) (int_of_u32 (h_byte h)) rest (int_of_u32 (h_size h));
      let buf' = take (nat offset) buf @ part;
      if r \<noteq> 0 then Some (r, buf', s1)
      else group_read_loop E s1 hs (offset + int_of_u32 (h_size h)) buf'
    }"

definition group_members :: "tag_group \<Rightarrow> tag_handle list option" where
  "group_members g = do { hs \<leftarrow> g_members g; mem_get hs 0 (uint (g_count g)) }"

definition group_read ::
  "env \<Rightarrow> server \<Rightarrow> dax_module \<Rightarrow> int \<Rightarrow> byte list \<Rightarrow> int \<Rightarrow> (int \<times> byte list \<times> server) option" where
  "group_read E s m index buf sz =
    do {
      g \<leftarrow> get_group m index;
      if \<not> group_used g then Some (ERR_NOTFOUND, buf, s)
      else if u32_of sz < g_size g then Some (ERR_ARG, buf, s)
      else do { hs \<leftarrow> group_members g; group_read_loop E s hs 0 buf }
    }"

fun group_write_loop ::
  "env \<Rightarrow> server \<Rightarrow> tag_handle list \<Rightarrow> int \<Rightarrow> byte list \<Rightarrow> (int \<times> server) option" where
  "group_write_loop E s [] offset buf = Some (offset, s)"
| "group_write_loop E s (h # hs) offset buf =
    do {
      src \<leftarrow> (if 0 \<le> offset \<and> offset \<le> int (length buf) then Some (drop (nat offset) buf) else None);
      (r, s1) \<leftarrow> tag_write E s (- 1) (h_index h) (int_of_u32 (h_byte h)) src (int_of_u32 (h_size h));
      if r \<noteq> 0 then Some (r, s1) else group_write_loop E s1 hs (offset + int_of_u32 (h_size h)) buf
    }"

definition group_write ::
  "env \<Rightarrow> server \<Rightarrow> dax_module \<Rightarrow> int \<Rightarrow> byte list \<Rightarrow> (int \<times> server) option" where
  "group_write E s m index buf =
    do {
      g \<leftarrow> get_group m index;
      if \<not> group_used g then Some (ERR_NOTFOUND, s)
      else do { hs \<leftarrow> group_members g; group_write_loop E s hs 0 buf }
    }"

text \<open>\<^verbatim>\<open>groups_cleanup\<close>: the bound of the loop goes down with each group that is deleted.\<close>

function groups_cleanup_loop :: "dax_module \<Rightarrow> u32 \<Rightarrow> dax_module option" where
  "groups_cleanup_loop m n =
    (if n < mod_groups_size m then
       (case group_del m (uint n) of
          None \<Rightarrow> None
        | Some (r, m1) \<Rightarrow>
            if mod_groups_size m1 \<le> mod_groups_size m then groups_cleanup_loop m1 (n + 1) else None)
     else Some m)"
  by pat_completeness auto
termination
proof (relation "measure (\<lambda>(m, n). unat (mod_groups_size m) - unat n)", goal_cases)
  case (2 m n x r m1)
  have "unat (n + 1) = unat n + 1"
    using 2(1) unat_bound [of "mod_groups_size m"] by (simp add: unat_word_ariths word_less_nat_alt)
  moreover have "unat n < unat (mod_groups_size m)" using 2(1) by (simp add: word_less_nat_alt)
  moreover have "unat (mod_groups_size m1) \<le> unat (mod_groups_size m)" using 2(4) by (simp add: word_le_nat_alt)
  ultimately show ?case by simp
qed simp

declare groups_cleanup_loop.simps [simp del]

definition groups_cleanup :: "dax_module \<Rightarrow> dax_module option" where
  "groups_cleanup m =
    do {
      m1 \<leftarrow> groups_cleanup_loop m 0;
      Some (m1\<lparr>mod_tag_groups := None, mod_groups_size := 0\<rparr>)
    }"

end
