(* ===== verification/Module_Admin.thy ===== *)
theory Module_Admin
  imports Tag_Admin Tag_Groups
begin

text \<open>
  Registration of modules (\<^verbatim>\<open>module.c\<close>: \<^verbatim>\<open>_check_module_tag_exclusion\<close>, \<^verbatim>\<open>module_register\<close>,
  \<^verbatim>\<open>module_unregister\<close>). The list of modules itself is in theory \<^verbatim>\<open>Module_Ring\<close>.
\<close>

definition MOD_ID_OFFSET :: int where
  "MOD_ID_OFFSET = 8"

text \<open>The names that get no module tag come from the configuration.\<close>

definition check_module_tag_exclusion :: "env \<Rightarrow> string \<Rightarrow> bool" where
  "check_module_tag_exclusion E name = list_ex (\<lambda>x. strcmp x name = 0) (tag_exclude E)"

text \<open>\<^verbatim>\<open>%03d\<close> and \<^verbatim>\<open>%05d\<close>\<close>

definition pad_int :: "nat \<Rightarrow> int \<Rightarrow> string" where
  "pad_int w x =
    (if 0 \<le> x then replicate (w - length (show_int x)) CHR ''0'' @ show_int x
     else CHR ''-'' # replicate (w - length (show_int x)) CHR ''0'' @ show_nat (nat (- x)))"

text \<open>
  The name of the module tag: \<^verbatim>\<open>_m\<close> and the module's name, cut to the length of a tag name. If there
  is such a tag, a number replaces its end.
\<close>

definition module_tagname :: "string \<Rightarrow> string" where
  "module_tagname name = ''_m'' @ take (DAX_TAGNAME_SIZE - 2) name"

definition number_tagname :: "int \<Rightarrow> string \<Rightarrow> string option" where
  "number_tagname uuid tagname =
    (let r = (if uuid < 1000 then take (DAX_TAGNAME_SIZE - 3) tagname @ pad_int 3 uuid
              else take (DAX_TAGNAME_SIZE - 5) tagname @ pad_int 5 uuid)
     in if length r \<le> DAX_TAGNAME_SIZE then Some r else None)"

definition choose_tagname :: "server \<Rightarrow> string \<Rightarrow> (string \<times> server) option" where
  "choose_tagname s name =
    (let tagname = module_tagname name
     in do {
       r \<leftarrow> tag_get_name s tagname;
       (case r of
          Inl _ \<Rightarrow> Some (tagname, s)
        | Inr _ \<Rightarrow>
            do {
              tagname' \<leftarrow> number_tagname (mod_uuid s) tagname;
              Some (tagname', s\<lparr>mod_uuid := mod_uuid s + 1\<rparr>)
            })
     })"

text \<open>
  The module tag. When it cannot be added the error code is used as an index all the same:
  harmless in \<^verbatim>\<open>tag_write\<close>, not in \<^verbatim>\<open>tag_set_attribute\<close>.
\<close>

definition name_field :: "string \<Rightarrow> byte list" where
  "name_field name = take DAX_TAGNAME_SIZE (str_bytes name @ replicate DAX_TAGNAME_SIZE 0)"

definition module_tag_add :: "env \<Rightarrow> server \<Rightarrow> mod_ptr \<Rightarrow> string \<Rightarrow> int \<Rightarrow> server option" where
  "module_tag_add E s m name fd =
    do {
      (tagname, s1) \<leftarrow> choose_tagname s name;
      (r, s2) \<leftarrow> tag_add E s1 (- 1) tagname (cdt_get_type (cdts s1) ''_module'') 1 0;
      d \<leftarrow> mod_heap s2 m;
      let s3 = (if r < 0 then s2 else set_module s2 m (d\<lparr>mod_tagindex := r\<rparr>));
      (r4, s4) \<leftarrow> tag_write E s3 (- 1) r 0 (enc64 (clock E)) 8;
      (r5, s5) \<leftarrow> tag_write E s4 (- 1) r MOD_ID_OFFSET (enc_int fd) 4;
      s6 \<leftarrow> tag_set_attribute s5 r TAG_ATTR_SPECIAL;
      sys_write E s6 INDEX_LASTMODULE (name_field tagname)
    }"

text \<open>\<^verbatim>\<open>module_unregister\<close>: events and groups, the tags the module owns, its tag, and itself.\<close>

fun del_owned :: "env \<Rightarrow> server \<Rightarrow> int \<Rightarrow> int \<Rightarrow> nat \<Rightarrow> server option" where
  "del_owned E s fd n 0 = Some s"
| "del_owned E s fd n (Suc k) =
    do {
      own \<leftarrow> is_tag_owned s fd n;
      s1 \<leftarrow> (if own then map_option snd (tag_del E s n) else Some s);
      del_owned E s1 fd (n + 1) k
    }"

definition module_unregister :: "env \<Rightarrow> server \<Rightarrow> int \<Rightarrow> server option" where
  "module_unregister E s fd =
    (let (mp, s1) = module_find_fd s fd
     in case mp of
          None \<Rightarrow> Some s1
        | Some m \<Rightarrow>
            do {
              s2 \<leftarrow> events_cleanup s1 m;
              d \<leftarrow> mod_heap s2 m;
              d' \<leftarrow> groups_cleanup d;
              s3 \<leftarrow> del_owned E (set_module s2 m d') fd 0 (nat (get_tagindex s2));
              (r, s4) \<leftarrow> tag_del E s3 (mod_tagindex d');
              Some (snd (module_del s4 (Some m)))
            })"

definition module_register :: "env \<Rightarrow> server \<Rightarrow> string \<Rightarrow> u32 \<Rightarrow> int \<Rightarrow> (mod_ptr option \<times> server) option" where
  "module_register E s name timeout fd =
    (let (test, s1) = module_find_fd s fd
     in do {
       s2 \<leftarrow> (case test of
                Some t \<Rightarrow> module_unregister E s1 (mod_fd_of s1 t)
              | None \<Rightarrow> Some s1);
       let (mp, s3) = module_add E s2 name 0;
       (case mp of
          None \<Rightarrow> Some (None, s3)
        | Some m \<Rightarrow>
            do {
              d \<leftarrow> mod_heap s3 m;
              let s4 = set_module s3 m (d\<lparr>mod_fd := fd, mod_timeout := timeout, mod_host := peer_host E fd\<rparr>);
              s5 \<leftarrow> (if check_module_tag_exclusion E name then Some s4 else module_tag_add E s4 m name fd);
              Some (Some m, s5)
            })
     })"

end
