(* ===== verification/Tag_Mapping.thy ===== *)
theory Tag_Mapping
  imports Tag_Admin
begin

text \<open>
  Mappings (\<^verbatim>\<open>mapping.c\<close>): a client asks that the bytes or bits of one tag be copied to another tag
  whenever they are written. Each tag has the list of the mappings it is the source of.
\<close>

definition handles_equal :: "tag_handle \<Rightarrow> tag_handle \<Rightarrow> bool" where
  "handles_equal h1 h2 \<longleftrightarrow>
    h_index h1 = h_index h2 \<and> h_type h1 = h_type h2 \<and> h_count h1 = h_count h2 \<and>
    h_byte h1 = h_byte h2 \<and> h_bit h1 = h_bit h2 \<and> h_size h1 = h_size h2"

text \<open>\<^verbatim>\<open>_new_map\<close>: the result of \<^verbatim>\<open>malloc\<close> is used without a check.\<close>

definition new_map :: "env \<Rightarrow> tag_db \<Rightarrow> tag_handle \<Rightarrow> tag_handle \<Rightarrow> (dax_datamap \<times> tag_db) option" where
  "new_map E t src dest =
    (if alloc E A_map
     then Some (\<lparr>p_id = t_nextmap t, p_source = src, p_dest = dest, p_mask = None\<rparr>,
                t\<lparr>t_nextmap := t_nextmap t + 1\<rparr>)
     else None)"

text \<open>The mask of a BOOL mapping: one bit for each bit at the destination.\<close>

fun mask_loop :: "nat \<Rightarrow> nat \<Rightarrow> nat \<Rightarrow> byte list \<Rightarrow> byte list option" where
  "mask_loop 0 b i m = Some m"
| "mask_loop (Suc n) b i m =
    do {
      x \<leftarrow> arr_get m (int i);
      let m' = m[i := x OR bit_mask b];
      if b + 1 = 8 then mask_loop n 0 (i + 1) m' else mask_loop n (b + 1) i m'
    }"

definition map_mask :: "env \<Rightarrow> tag_handle \<Rightarrow> tag_handle \<Rightarrow> byte list option option" where
  "map_mask E src dest =
    (if h_type src = DAX_BOOL then
       (if alloc E A_map_mask then
          map_option Some (mask_loop (unat (h_count src)) (unat (h_bit dest)) 0
            (replicate (unat (h_size src)) 0))
        else None)
     else Some None)"

definition map_add :: "env \<Rightarrow> server \<Rightarrow> tag_handle \<Rightarrow> tag_handle \<Rightarrow> (int \<times> server) option" where
  "map_add E s src dest =
    (if h_index src < 0 \<or> get_tagindex s \<le> h_index src then Some (ERR_ARG, s)
     else if h_index dest < 0 \<or> get_tagindex s \<le> h_index dest then Some (ERR_ARG, s)
     else do {
       v1 \<leftarrow> is_tag_virtual s (h_index src);
       v2 \<leftarrow> is_tag_virtual s (h_index dest);
       ro \<leftarrow> is_tag_readonly s (h_index dest);
       if v1 \<or> v2 then Some (ERR_ILLEGAL, s)
       else if ro then Some (ERR_READONLY, s)
       else do {
         z1 \<leftarrow> tag_get_size s (h_index src);
         z2 \<leftarrow> tag_get_size s (h_index dest);
         if u32_of z1 < h_byte src + h_size src \<or> u32_of z2 < h_byte dest + h_size dest \<or>
            h_size dest < h_size src then Some (ERR_2BIG, s)
         else do {
           t \<leftarrow> get_tag s (h_index src);
           (case find (\<lambda>m. handles_equal src (p_source m) \<and> handles_equal dest (p_dest m)) (t_mappings t) of
              Some m \<Rightarrow> Some (p_id m, s)
            | None \<Rightarrow>
                do {
                  (m, t1) \<leftarrow> new_map E t src dest;
                  k \<leftarrow> map_mask E src dest;
                  Some (p_id m, set_tag s (h_index src)
                    (t1\<lparr>t_mappings := m\<lparr>p_mask := k\<rparr> # t_mappings t1,
                        t_attr := t_attr t1 OR TAG_ATTR_MAPPING\<rparr>))
                })
         }
       }
     })"

text \<open>
  \<^verbatim>\<open>map_del\<close>. The list must not be empty. The pointer to the predecessor stays at the first mapping,
  so that everything between it and the mapping that is deleted goes as well.
\<close>

fun find_map :: "dax_datamap list \<Rightarrow> int \<Rightarrow> nat option" where
  "find_map [] i = None"
| "find_map (m # ms) i = (if p_id m = i then Some 0 else map_option Suc (find_map ms i))"

definition map_del :: "server \<Rightarrow> int \<Rightarrow> int \<Rightarrow> (int \<times> server) option" where
  "map_del s index i =
    (if index < 0 \<or> get_tagindex s \<le> index then Some (ERR_ARG, s)
     else do {
       t \<leftarrow> get_tag s index;
       (case t_mappings t of
          [] \<Rightarrow> None
        | m # ms \<Rightarrow>
            if p_id m = i then Some (0, set_tag s index (t\<lparr>t_mappings := ms\<rparr>))
            else
              (case find_map ms i of
                 Some k \<Rightarrow> Some (0, set_tag s index (t\<lparr>t_mappings := m # drop (Suc k) ms\<rparr>))
               | None \<Rightarrow> Some (ERR_NOTFOUND, s)))
     })"

definition map_get :: "server \<Rightarrow> int \<Rightarrow> int \<Rightarrow> (int + tag_handle \<times> tag_handle) option" where
  "map_get s index i =
    (if index < 0 \<or> get_tagindex s \<le> index then Some (Inl ERR_ARG)
     else do {
       t \<leftarrow> get_tag s index;
       Some (case find (\<lambda>m. p_id m = i) (t_mappings t) of
               Some m \<Rightarrow> Inr (p_source m, p_dest m)
             | None \<Rightarrow> Inl ERR_NOTFOUND)
     })"

section \<open>Carrying out the mappings of a tag\<close>

text \<open>The bits of the source, moved to their place in the destination.\<close>

fun move_bits :: "byte list \<Rightarrow> nat \<Rightarrow> nat \<Rightarrow> nat \<Rightarrow> nat \<Rightarrow> nat \<Rightarrow> byte list \<Rightarrow> byte list option" where
  "move_bits src 0 sb si tb ti d = Some d"
| "move_bits src (Suc n) sb si tb ti d =
    do {
      x \<leftarrow> arr_get src (int si);
      d' \<leftarrow>
        (if x AND bit_mask sb \<noteq> 0
         then do { y \<leftarrow> arr_get d (int ti); Some (d[ti := y OR bit_mask tb]) } else Some d);
      move_bits src n (if sb + 1 = 8 then 0 else sb + 1) (if sb + 1 = 8 then si + 1 else si)
        (if tb + 1 = 8 then 0 else tb + 1) (if tb + 1 = 8 then ti + 1 else ti) d'
    }"

definition map_touched :: "dax_datamap \<Rightarrow> int \<Rightarrow> int \<Rightarrow> bool" where
  "map_touched m offset sz \<longleftrightarrow>
    u32_of offset \<le> h_byte (p_source m) + h_size (p_source m) - 1 \<and>
    h_byte (p_source m) \<le> u32_of (offset + sz - 1)"

text \<open>\<^verbatim>\<open>memcpy\<close> within one tag must not overlap.\<close>

definition map_overlap :: "dax_datamap \<Rightarrow> bool" where
  "map_overlap m \<longleftrightarrow>
    h_index (p_source m) = h_index (p_dest m) \<and>
    uint (h_byte (p_source m)) < uint (h_byte (p_dest m)) + uint (h_size (p_source m)) \<and>
    uint (h_byte (p_dest m)) < uint (h_byte (p_source m)) + uint (h_size (p_source m))"

definition map_carry :: "env \<Rightarrow> server \<Rightarrow> dax_datamap \<Rightarrow> (int \<times> server) option" where
  "map_carry E s m =
    do {
      t \<leftarrow> get_tag s (h_index (p_source m));
      let src = drop (unat (h_byte (p_source m))) (data_bytes E t);
      let n = unat (h_size (p_source m));
      (case p_mask m of
         Some msk \<Rightarrow>
           do {
             d \<leftarrow> move_bits src (unat (h_count (p_source m))) (unat (h_bit (p_source m))) 0
                   (unat (h_bit (p_dest m))) 0 (replicate n 0);
             tag_mask_write E s (- 1) (h_index (p_dest m)) (int_of_u32 (h_byte (p_dest m))) d msk
               (int_of_u32 (h_size (p_source m)))
           }
       | None \<Rightarrow>
           if map_overlap m then None
           else tag_write E s (- 1) (h_index (p_dest m)) (int_of_u32 (h_byte (p_dest m))) src
             (int_of_u32 (h_size (p_source m))))
    }"

text \<open>
  \<^verbatim>\<open>map_check\<close>: a mapping to a tag that was deleted is removed while the loop still needs it.
\<close>

fun map_loop :: "env \<Rightarrow> server \<Rightarrow> int \<Rightarrow> int \<Rightarrow> dax_datamap list \<Rightarrow> (int \<times> server) option" where
  "map_loop E s offset sz [] = Some (0, s)"
| "map_loop E s offset sz (m # ms) =
    (if map_touched m offset sz then
       (if p_mask m \<noteq> None \<and> \<not> alloc E A_map_data then Some (ERR_ALLOC, s)
        else do {
          (r, s1) \<leftarrow> map_carry E s m;
          if r = ERR_DELETED then None else map_loop E s1 offset sz ms
        })
     else map_loop E s offset sz ms)"

definition map_check :: "env \<Rightarrow> server \<Rightarrow> int \<Rightarrow> int \<Rightarrow> int \<Rightarrow> (int \<times> server) option" where
  "map_check E s idx offset sz =
    do { t \<leftarrow> get_tag s idx; map_loop E s offset sz (t_mappings t) }"

end
