(* ===== verification/Atomic_Ops.thy ===== *)
theory Atomic_Ops
  imports Tagbase
begin

text \<open>
  Atomic operations (\<^verbatim>\<open>atomic.c\<close>): arithmetic and logic on the data of a tag in place. Each function
  takes the block of the tag, the handle and the operand that the client sent, and returns the
  result code and the new block.
\<close>

abbreviation ATOMIC_OP_INC :: u16 where "ATOMIC_OP_INC \<equiv> 1"
abbreviation ATOMIC_OP_DEC :: u16 where "ATOMIC_OP_DEC \<equiv> 2"
abbreviation ATOMIC_OP_NOT :: u16 where "ATOMIC_OP_NOT \<equiv> 3"
abbreviation ATOMIC_OP_OR :: u16 where "ATOMIC_OP_OR \<equiv> 4"
abbreviation ATOMIC_OP_AND :: u16 where "ATOMIC_OP_AND \<equiv> 5"
abbreviation ATOMIC_OP_NOR :: u16 where "ATOMIC_OP_NOR \<equiv> 6"
abbreviation ATOMIC_OP_NAND :: u16 where "ATOMIC_OP_NAND \<equiv> 7"
abbreviation ATOMIC_OP_XOR :: u16 where "ATOMIC_OP_XOR \<equiv> 8"
abbreviation ATOMIC_OP_XNOR :: u16 where "ATOMIC_OP_XNOR \<equiv> 9"

section \<open>Arithmetic\<close>

text \<open>
  The sum or difference of two values of a type: modulo the width for the narrow and the unsigned
  types, undefined on overflow for DINT and LINT. TIME is treated as a 32 bit number.
\<close>

definition signed_arith :: "nat \<Rightarrow> int \<Rightarrow> byte list option" where
  "signed_arith w x =
    (if - (2 ^ (8 * w - 1)) \<le> x \<and> x < 2 ^ (8 * w - 1)
     then Some (le_enc w (nat (x mod 2 ^ (8 * w)))) else None)"

definition atomic_arith :: "env \<Rightarrow> bool \<Rightarrow> u32 \<Rightarrow> byte list \<Rightarrow> byte list \<Rightarrow> byte list option" where
  "atomic_arith E pos t a b =
    (let w = length a
     in if t = DAX_REAL then
          Some (enc32 (if pos then fadd32 E (dec32 a) (dec32 b) else fsub32 E (dec32 a) (dec32 b)))
        else if t = DAX_LREAL then
          Some (enc64 (if pos then fadd64 E (dec64 a) (dec64 b) else fsub64 E (dec64 a) (dec64 b)))
        else if t = DAX_DINT \<or> t = DAX_LINT then
          signed_arith w (if pos then le_sdec a + le_sdec b else le_sdec a - le_sdec b)
        else
          Some (le_enc w (nat ((if pos then int (le_dec a) + int (le_dec b)
                                else int (le_dec a) - int (le_dec b)) mod 256 ^ w))))"

text \<open>\<^verbatim>\<open>_atomic_inc\<close> and \<^verbatim>\<open>_atomic_dec\<close>\<close>

definition atomic_incdec ::
  "env \<Rightarrow> bool \<Rightarrow> byte list \<Rightarrow> tag_handle \<Rightarrow> byte list \<Rightarrow> (int \<times> byte list) option" where
  "atomic_incdec E pos blk h data =
    (if h_count h \<noteq> 1 then Some (ERR_ILLEGAL, blk)
     else
       (case typed_width (h_type h) of
          None \<Rightarrow> Some (ERR_ARG, blk)
        | Some w \<Rightarrow>
            do {
              a \<leftarrow> mem_get blk (uint (h_byte h)) w;
              b \<leftarrow> mem_get data 0 w;
              c \<leftarrow> atomic_arith E pos (h_type h) a b;
              blk' \<leftarrow> mem_put blk (uint (h_byte h)) c;
              Some (0, blk')
            }))"

definition atomic_inc :: "env \<Rightarrow> byte list \<Rightarrow> tag_handle \<Rightarrow> byte list \<Rightarrow> (int \<times> byte list) option" where
  "atomic_inc E = atomic_incdec E True"

definition atomic_dec :: "env \<Rightarrow> byte list \<Rightarrow> tag_handle \<Rightarrow> byte list \<Rightarrow> (int \<times> byte list) option" where
  "atomic_dec E = atomic_incdec E False"

section \<open>Logic\<close>

text \<open>\<^verbatim>\<open>_atomic_not\<close>: bit by bit for BOOL, byte by byte otherwise.\<close>

fun not_bits :: "nat \<Rightarrow> nat \<Rightarrow> int \<Rightarrow> byte list \<Rightarrow> byte list option" where
  "not_bits 0 b i blk = Some blk"
| "not_bits (Suc n) b i blk =
    do {
      x \<leftarrow> arr_get blk i;
      let blk' = blk[nat i := x XOR bit_mask b];
      if b + 1 = 8 then not_bits n 0 (i + 1) blk' else not_bits n (b + 1) i blk'
    }"

definition map_bytes :: "(byte \<Rightarrow> byte) \<Rightarrow> byte list \<Rightarrow> int \<Rightarrow> int \<Rightarrow> byte list option" where
  "map_bytes f blk i n =
    (if n \<le> 0 then Some blk else do { old \<leftarrow> mem_get blk i n; mem_put blk i (map f old) })"

definition atomic_not :: "byte list \<Rightarrow> tag_handle \<Rightarrow> (int \<times> byte list) option" where
  "atomic_not blk h =
    (if h_type h = DAX_REAL \<or> h_type h = DAX_LREAL then Some (ERR_BADTYPE, blk)
     else if h_type h = DAX_BOOL then
       map_option (Pair 0) (not_bits (unat (h_count h)) (unat (h_bit h)) (int_of_u32 (h_byte h)) blk)
     else map_option (Pair 0) (map_bytes (\<lambda>x. NOT x) blk (uint (h_byte h)) (uint (h_size h))))"

text \<open>\<^verbatim>\<open>_left_shift\<close>: the operand of a BOOL operation, moved up to the first bit of the handle.\<close>

definition left_shift :: "byte list \<Rightarrow> nat \<Rightarrow> nat \<Rightarrow> byte list option" where
  "left_shift src n b =
    (if n = 0 \<or> 8 < b \<or> length src < n then None
     else Some (map (\<lambda>i. if i = 0 then push_bit b (src ! 0)
                        else drop_bit (8 - b) (src ! (i - 1)) OR push_bit b (src ! i)) [0..<n]))"

definition hmask :: "tag_handle \<Rightarrow> byte" where
  "hmask h = push_bit ((unat (h_bit h) + unat (h_count h) mod 8) mod 8) 0xFF"

definition lmask :: "tag_handle \<Rightarrow> byte" where
  "lmask h = drop_bit (8 - unat (h_bit h)) 0xFF"

text \<open>The operand with the bits outside the range cleared, or set for AND and NAND.\<close>

definition edge_masked :: "bool \<Rightarrow> tag_handle \<Rightarrow> byte list \<Rightarrow> byte list" where
  "edge_masked ones h temp =
    (let n = length temp;
         t1 = temp[n - 1 := (if ones then temp ! (n - 1) OR hmask h else temp ! (n - 1) AND NOT (hmask h))]
     in t1[0 := (if ones then t1 ! 0 OR lmask h else t1 ! 0 AND NOT (lmask h))])"

text \<open>
  The second step of NOR, NAND and XNOR: toggle the bytes between, then the last and the first.
  These two are taken from the start of the tag, not from the start of the handle.
\<close>

definition toggle_range :: "tag_handle \<Rightarrow> byte list \<Rightarrow> byte list option" where
  "toggle_range h blk =
    do {
      let n = uint (h_size h);
      b1 \<leftarrow> map_bytes (\<lambda>x. x XOR 0xFF) blk (uint (h_byte h) + 1) (n - 2);
      x \<leftarrow> arr_get b1 (n - 1);
      let b2 = b1[nat (n - 1) := x XOR NOT (hmask h)];
      y \<leftarrow> arr_get b2 0;
      Some (b2[0 := y XOR NOT (lmask h)])
    }"

definition logic_range :: "(byte \<Rightarrow> byte \<Rightarrow> byte) \<Rightarrow> byte list \<Rightarrow> int \<Rightarrow> byte list \<Rightarrow> byte list option" where
  "logic_range f blk i d =
    do { old \<leftarrow> mem_get blk i (int (length d)); mem_put blk i (map2 f old d) }"

text \<open>
  The common form of the six functions: \<open>f\<close> combines a byte of the tag with one of the operand,
  \<open>ones\<close> says how the operand is padded, \<open>neg\<close> whether the result is toggled. On whole bytes the
  operand is indexed with the offset of the handle, too.
\<close>

definition atomic_logic ::
  "(byte \<Rightarrow> byte \<Rightarrow> byte) \<Rightarrow> bool \<Rightarrow> bool \<Rightarrow> byte list \<Rightarrow> tag_handle \<Rightarrow> byte list \<Rightarrow> (int \<times> byte list) option" where
  "atomic_logic f ones neg blk h data =
    (if h_type h = DAX_REAL \<or> h_type h = DAX_LREAL then Some (ERR_BADTYPE, blk)
     else if h_type h = DAX_BOOL \<and> \<not> (h_count h mod 8 = 0 \<and> h_bit h = 0) then
       do {
         temp \<leftarrow> left_shift data (unat (h_size h)) (unat (h_bit h));
         b1 \<leftarrow> logic_range f blk (uint (h_byte h)) (edge_masked ones h temp);
         b2 \<leftarrow> (if neg then toggle_range h b1 else Some b1);
         Some (0, b2)
       }
     else if h_size h = 0 then Some (0, blk)
     else do {
       d \<leftarrow> mem_get data (uint (h_byte h)) (uint (h_size h));
       b1 \<leftarrow> logic_range (\<lambda>x y. if neg then NOT (f x y) else f x y) blk (uint (h_byte h)) d;
       Some (0, b1)
     })"

definition atomic_or :: "byte list \<Rightarrow> tag_handle \<Rightarrow> byte list \<Rightarrow> (int \<times> byte list) option" where
  "atomic_or = atomic_logic (OR) False False"

definition atomic_and :: "byte list \<Rightarrow> tag_handle \<Rightarrow> byte list \<Rightarrow> (int \<times> byte list) option" where
  "atomic_and = atomic_logic (AND) True False"

definition atomic_nor :: "byte list \<Rightarrow> tag_handle \<Rightarrow> byte list \<Rightarrow> (int \<times> byte list) option" where
  "atomic_nor = atomic_logic (OR) False True"

definition atomic_nand :: "byte list \<Rightarrow> tag_handle \<Rightarrow> byte list \<Rightarrow> (int \<times> byte list) option" where
  "atomic_nand = atomic_logic (AND) True True"

definition atomic_xor :: "byte list \<Rightarrow> tag_handle \<Rightarrow> byte list \<Rightarrow> (int \<times> byte list) option" where
  "atomic_xor = atomic_logic (XOR) False False"

definition atomic_xnor :: "byte list \<Rightarrow> tag_handle \<Rightarrow> byte list \<Rightarrow> (int \<times> byte list) option" where
  "atomic_xnor = atomic_logic (XOR) False True"

section \<open>The dispatcher\<close>

definition atomic_dispatch ::
  "env \<Rightarrow> byte list \<Rightarrow> tag_handle \<Rightarrow> byte list \<Rightarrow> u16 \<Rightarrow> (int \<times> byte list) option" where
  "atomic_dispatch E blk h data op =
    (if op = ATOMIC_OP_INC then
       (if h_type h = DAX_BOOL then Some (ERR_BADTYPE, blk) else atomic_inc E blk h data)
     else if op = ATOMIC_OP_DEC then
       (if h_type h = DAX_BOOL then Some (ERR_BADTYPE, blk) else atomic_dec E blk h data)
     else if op = ATOMIC_OP_NOT then atomic_not blk h
     else if op = ATOMIC_OP_OR then atomic_or blk h data
     else if op = ATOMIC_OP_AND then atomic_and blk h data
     else if op = ATOMIC_OP_NOR then atomic_nor blk h data
     else if op = ATOMIC_OP_NAND then atomic_nand blk h data
     else if op = ATOMIC_OP_XOR then atomic_xor blk h data
     else if op = ATOMIC_OP_XNOR then atomic_xnor blk h data
     else Some (ERR_NOTIMPLEMENTED, blk))"

text \<open>
  \<^verbatim>\<open>atomic_op\<close>. The size is checked in bytes against a product in bits, which is computed with the
  type of the tag even if that is a compound type.
\<close>

definition atomic_op :: "env \<Rightarrow> server \<Rightarrow> tag_handle \<Rightarrow> byte list \<Rightarrow> u16 \<Rightarrow> (int \<times> server) option" where
  "atomic_op E s h data op =
    (if IS_CUSTOM (h_type h) then Some (ERR_BADTYPE, s)
     else if h_index h < 0 \<or> get_tagindex s \<le> h_index h then Some (ERR_ARG, s)
     else do {
       t \<leftarrow> get_tag s (h_index h);
       if t_count t * of_nat (TYPESIZE (t_type t)) < h_byte h + h_size h then Some (ERR_2BIG, s)
       else if attr_set (t_attr t) (TAG_ATTR_VIRTUAL OR TAG_ATTR_SPECIAL) then Some (ERR_READONLY, s)
       else
         (case t_data t of
            D_null \<Rightarrow> Some (ERR_DELETED, s)
          | D_virt _ _ _ \<Rightarrow> None
          | D_block blk \<Rightarrow>
              do {
                (r, blk') \<leftarrow> atomic_dispatch E blk h data op;
                if r \<noteq> 0 then Some (r, s)
                else write_finish E (set_tag s (h_index h) (t\<lparr>t_data := D_block blk'\<rparr>)) (h_index h)
                       (int_of_u32 (h_byte h)) (int_of_u32 (h_size h))
              })
     })"

end
