(* ===== verification/Overrides.thy ===== *)
theory Overrides
  imports Tagbase
begin

text \<open>
  Overrides (\<^verbatim>\<open>tagbase.c\<close>: \<^verbatim>\<open>override_add\<close>, \<^verbatim>\<open>override_del\<close>, \<^verbatim>\<open>override_get\<close>, \<^verbatim>\<open>override_set\<close>): bits of
  a tag that readers see instead of the bits that were written.
\<close>

definition ovr_tag_size :: "server \<Rightarrow> tag_db \<Rightarrow> int option" where
  "ovr_tag_size s t = do { z \<leftarrow> type_size (cdts s) (t_type t); Some (int_of_u32 (t_count t * u32_of z)) }"

text \<open>
  The blocks of a first override have the size of the tag, but as many bytes as the request has
  are zeroed, before the request is checked against the size.
\<close>

definition ovr_block :: "env \<Rightarrow> int \<Rightarrow> int \<Rightarrow> byte list option" where
  "ovr_block E tagsize sz =
    (if sz < 0 then None else mem_put (map (junk E) [0..<nat tagsize]) 0 (replicate (nat sz) 0))"

definition ovr_install :: "env \<Rightarrow> tag_db \<Rightarrow> int \<Rightarrow> int \<Rightarrow> (int + tag_db) option" where
  "ovr_install E t tagsize sz =
    (if t_odata t \<noteq> None then Some (Inr t)
     else if tagsize < 0 \<or> \<not> alloc E A_odata \<or> \<not> alloc E A_omask then Some (Inl ERR_ALLOC)
     else do { z \<leftarrow> ovr_block E tagsize sz; Some (Inr (t\<lparr>t_odata := Some z, t_omask := Some z\<rparr>)) })"

definition override_add ::
  "env \<Rightarrow> server \<Rightarrow> int \<Rightarrow> int \<Rightarrow> byte list \<Rightarrow> byte list \<Rightarrow> int \<Rightarrow> (int \<times> server) option" where
  "override_add E s idx offset data msk sz =
    (if idx < 0 \<or> tagnextindex s \<le> idx then Some (ERR_ARG, s)
     else do {
       t \<leftarrow> get_tag s idx;
       if t_data t = D_null then Some (ERR_DELETED, s)
       else do {
         tagsize \<leftarrow> ovr_tag_size s t;
         r \<leftarrow> ovr_install E t tagsize sz;
         (case r of
            Inl e \<Rightarrow> Some (e, s)
          | Inr t1 \<Rightarrow>
              if \<not> int32_ok (offset + sz) then None
              else if tagsize < offset + sz then Some (ERR_2BIG, set_tag s idx t1)
              else do {
                d \<leftarrow> mem_get data 0 sz;
                m \<leftarrow> mem_get msk 0 sz;
                od \<leftarrow> mem_put (ptr_bytes (t_odata t1)) offset d;
                om \<leftarrow> mem_put (ptr_bytes (t_omask t1)) offset m;
                let s1 = set_tag s idx (t1\<lparr>t_odata := Some od, t_omask := Some om\<rparr>);
                s2 \<leftarrow>
                  (if attr_set (t_attr t) TAG_ATTR_OVERRIDE then Some s1
                   else status_write E (s1\<lparr>ovrdinstalled := ovrdinstalled s1 + 1\<rparr>) INDEX_OVRD_INSTALLED
                          (ovrdinstalled s1 + 1));
                s3 \<leftarrow> tag_set_attribute s2 idx TAG_ATTR_OVERRIDE;
                Some (0, s3)
              })
       }
     })"

definition clear_bits :: "byte list \<Rightarrow> int \<Rightarrow> byte list \<Rightarrow> int \<Rightarrow> byte list option" where
  "clear_bits b offset msk sz =
    (if sz \<le> 0 then Some b
     else do {
       m \<leftarrow> mem_get msk 0 sz;
       old \<leftarrow> mem_get b offset sz;
       mem_put b offset (map2 (\<lambda>x y. x AND NOT y) old m)
     })"

text \<open>\<^verbatim>\<open>override_del\<close>: nothing checks the range; the last bit removed removes the override.\<close>

definition override_del :: "env \<Rightarrow> server \<Rightarrow> int \<Rightarrow> int \<Rightarrow> byte list \<Rightarrow> int \<Rightarrow> (int \<times> server) option" where
  "override_del E s idx offset msk sz =
    (if idx < 0 \<or> tagnextindex s \<le> idx then Some (ERR_ARG, s)
     else do {
       t \<leftarrow> get_tag s idx;
       if t_data t = D_null then Some (ERR_DELETED, s)
       else do {
         tagsize \<leftarrow> ovr_tag_size s t;
         if t_odata t = None then Some (ERR_GENERIC, s)
         else do {
           om \<leftarrow> clear_bits (ptr_bytes (t_omask t)) offset msk sz;
           od \<leftarrow> clear_bits (ptr_bytes (t_odata t)) offset msk sz;
           let t1 = t\<lparr>t_omask := Some om, t_odata := Some od\<rparr>;
           if list_ex (\<lambda>x. x \<noteq> 0) (take (nat tagsize) om) then Some (0, set_tag s idx t1)
           else if int (length om) < tagsize then None
           else do {
             let t2 = t1\<lparr>t_attr := t_attr t AND NOT (TAG_ATTR_OVERRIDE OR TAG_ATTR_OVR_SET)\<rparr>;
             s2 \<leftarrow> status_write E ((set_tag s idx t2)\<lparr>ovrdinstalled := ovrdinstalled s - 1\<rparr>)
                    INDEX_OVRD_INSTALLED (ovrdinstalled s - 1);
             t3 \<leftarrow> get_tag s2 idx;
             Some (0, set_tag s2 idx (t3\<lparr>t_odata := None, t_omask := None\<rparr>))
           }
         }
       }
     })"

text \<open>\<^verbatim>\<open>override_get\<close>: the data it copies are those of the tag, from its start.\<close>

definition override_get ::
  "env \<Rightarrow> server \<Rightarrow> int \<Rightarrow> int \<Rightarrow> int \<Rightarrow> byte list \<Rightarrow> byte list \<Rightarrow> (int \<times> byte list \<times> byte list) option" where
  "override_get E s idx offset sz data msk =
    (if idx < 0 \<or> tagnextindex s \<le> idx then Some (ERR_ARG, data, msk)
     else do {
       t \<leftarrow> get_tag s idx;
       if t_data t = D_null then Some (ERR_DELETED, data, msk)
       else do {
         tagsize \<leftarrow> ovr_tag_size s t;
         if \<not> int32_ok (offset + sz) then None
         else if tagsize < offset + sz then Some (ERR_2BIG, data, msk)
         else do {
           d \<leftarrow> mem_get (data_bytes E t) 0 sz;
           m \<leftarrow> mem_get (ptr_bytes (t_omask t)) 0 sz;
           data' \<leftarrow> mem_put data 0 d;
           msk' \<leftarrow> mem_put msk 0 m;
           Some (0, data', msk')
         }
       }
     })"

definition override_set :: "env \<Rightarrow> server \<Rightarrow> int \<Rightarrow> bool \<Rightarrow> (int \<times> server) option" where
  "override_set E s idx flag =
    (if idx < 0 \<or> tagnextindex s \<le> idx then Some (ERR_ARG, s)
     else do {
       t \<leftarrow> get_tag s idx;
       if t_data t = D_null then Some (ERR_DELETED, s)
       else if flag then
         (if t_odata t = None then Some (ERR_ILLEGAL, s)
          else if attr_set (t_attr t) TAG_ATTR_OVR_SET then Some (0, s)
          else do {
            s1 \<leftarrow> status_write E (s\<lparr>ovrdset := ovrdset s + 1\<rparr>) INDEX_OVRD_SET (ovrdset s + 1);
            s2 \<leftarrow> tag_set_attribute s1 idx TAG_ATTR_OVR_SET;
            Some (0, s2)
          })
       else if attr_set (t_attr t) TAG_ATTR_OVR_SET then
         do {
           s1 \<leftarrow> status_write E (s\<lparr>ovrdset := ovrdset s - 1\<rparr>) INDEX_OVRD_SET (ovrdset s - 1);
           s2 \<leftarrow> tag_clr_attribute s1 idx TAG_ATTR_OVR_SET;
           Some (0, s2)
         }
       else Some (0, s)
     })"

end
