(* ===== verification/Messages.thy ===== *)
theory Messages
  imports Module_Admin Tag_Mapping Atomic_Ops Overrides
begin

text \<open>
  The message handlers of the server (\<^verbatim>\<open>message.c\<close>): each takes a message, unpacks its fields, calls
  the function of the server it stands for and sends an answer. The result is what the handler
  returns and the new state.
\<close>

abbreviation MSG_MOD_REG :: u32 where "MSG_MOD_REG \<equiv> 1"
abbreviation MSG_TAG_ADD :: u32 where "MSG_TAG_ADD \<equiv> 2"
abbreviation MSG_TAG_DEL :: u32 where "MSG_TAG_DEL \<equiv> 3"
abbreviation MSG_TAG_GET :: u32 where "MSG_TAG_GET \<equiv> 4"
abbreviation MSG_TAG_LIST :: u32 where "MSG_TAG_LIST \<equiv> 5"
abbreviation MSG_TAG_READ :: u32 where "MSG_TAG_READ \<equiv> 6"
abbreviation MSG_TAG_WRITE :: u32 where "MSG_TAG_WRITE \<equiv> 7"
abbreviation MSG_TAG_MWRITE :: u32 where "MSG_TAG_MWRITE \<equiv> 8"
abbreviation MSG_EVNT_ADD :: u32 where "MSG_EVNT_ADD \<equiv> 9"
abbreviation MSG_EVNT_DEL :: u32 where "MSG_EVNT_DEL \<equiv> 10"
abbreviation MSG_EVNT_GET :: u32 where "MSG_EVNT_GET \<equiv> 11"
abbreviation MSG_EVNT_OPT :: u32 where "MSG_EVNT_OPT \<equiv> 12"
abbreviation MSG_CDT_CREATE :: u32 where "MSG_CDT_CREATE \<equiv> 13"
abbreviation MSG_CDT_GET :: u32 where "MSG_CDT_GET \<equiv> 14"
abbreviation MSG_MAP_ADD :: u32 where "MSG_MAP_ADD \<equiv> 15"
abbreviation MSG_MAP_DEL :: u32 where "MSG_MAP_DEL \<equiv> 16"
abbreviation MSG_MAP_GET :: u32 where "MSG_MAP_GET \<equiv> 17"
abbreviation MSG_GRP_ADD :: u32 where "MSG_GRP_ADD \<equiv> 18"
abbreviation MSG_GRP_DEL :: u32 where "MSG_GRP_DEL \<equiv> 19"
abbreviation MSG_GRP_READ :: u32 where "MSG_GRP_READ \<equiv> 20"
abbreviation MSG_GRP_WRITE :: u32 where "MSG_GRP_WRITE \<equiv> 21"
abbreviation MSG_GRP_MWRITE :: u32 where "MSG_GRP_MWRITE \<equiv> 22"
abbreviation MSG_ATOMIC_OP :: u32 where "MSG_ATOMIC_OP \<equiv> 23"
abbreviation MSG_ADD_OVRD :: u32 where "MSG_ADD_OVRD \<equiv> 24"
abbreviation MSG_DEL_OVRD :: u32 where "MSG_DEL_OVRD \<equiv> 25"
abbreviation MSG_GET_OVRD :: u32 where "MSG_GET_OVRD \<equiv> 26"
abbreviation MSG_SET_OVRD :: u32 where "MSG_SET_OVRD \<equiv> 27"

definition NUM_COMMANDS :: u32 where "NUM_COMMANDS = 27"
definition MSG_RESPONSE :: u32 where "MSG_RESPONSE = 0x01000000"
definition MSG_ERROR :: u32 where "MSG_ERROR = 0x02000000"
definition MSG_DATA_SIZE :: nat where "MSG_DATA_SIZE = 4088"

text \<open>
  A message: \<^verbatim>\<open>x_data\<close> is the whole array of 4088 bytes, of which the first \<^verbatim>\<open>x_size\<close> came from the
  client and the rest are what was in the memory before.
\<close>

record dax_message =
  x_size :: u32
  x_type :: u32
  x_data :: "byte list"
  x_fd :: int

section \<open>Fields\<close>

definition msg_u32 :: "dax_message \<Rightarrow> nat \<Rightarrow> u32" where
  "msg_u32 m i = dec32 (take 4 (drop i (x_data m)))"

definition msg_int :: "dax_message \<Rightarrow> nat \<Rightarrow> int" where
  "msg_int m i = int_of_u32 (msg_u32 m i)"

definition msg_u16 :: "dax_message \<Rightarrow> nat \<Rightarrow> u16" where
  "msg_u16 m i = dec16 (take 2 (drop i (x_data m)))"

definition msg_net :: "dax_message \<Rightarrow> nat \<Rightarrow> u32" where
  "msg_net m i = of_nat (be_dec (take 4 (drop i (x_data m))))"

text \<open>A C string in a block: up to the first zero, which must be there.\<close>

definition cstr :: "byte list \<Rightarrow> string option" where
  "cstr bs =
    (if 0 \<in> set bs then Some (map (\<lambda>b. char_of (unat b)) (takeWhile (\<lambda>b. b \<noteq> 0) bs)) else None)"

definition msg_str :: "dax_message \<Rightarrow> nat \<Rightarrow> string option" where
  "msg_str m i = cstr (drop i (x_data m))"

section \<open>Sending\<close>

datatype answer = Async | Response | Error

text \<open>\<^verbatim>\<open>_message_send\<close>: the size in front is that of the payload.\<close>

definition answer_flag :: "answer \<Rightarrow> u32" where
  "answer_flag a = (case a of Async \<Rightarrow> 0 | Response \<Rightarrow> MSG_RESPONSE | Error \<Rightarrow> MSG_ERROR)"

definition message_send ::
  "env \<Rightarrow> server \<Rightarrow> int \<Rightarrow> u32 \<Rightarrow> byte list \<Rightarrow> int \<Rightarrow> answer \<Rightarrow> (int \<times> server) option" where
  "message_send E s fd command payload sz a =
    (if sz < 0 \<or> int MSG_DATA_SIZE < sz then Some (ERR_2BIG, s)
     else do {
       d \<leftarrow> mem_get payload 0 sz;
       let (r, s1) = xwrite E s fd (net32 (u32_of sz) @ net32 (command OR answer_flag a) @ d);
       Some (if r < 0 then ERR_MSG_SEND else 0, s1)
     })"

text \<open>The three endings of a handler: an error code, a payload, an empty response.\<close>

definition send_error :: "env \<Rightarrow> server \<Rightarrow> int \<Rightarrow> u32 \<Rightarrow> int \<Rightarrow> (int \<times> server) option" where
  "send_error E s fd command e =
    map_option (\<lambda>(r, s1). (0, s1)) (message_send E s fd command (enc_int e) 4 Error)"

definition send_data :: "env \<Rightarrow> server \<Rightarrow> int \<Rightarrow> u32 \<Rightarrow> byte list \<Rightarrow> int \<Rightarrow> (int \<times> server) option" where
  "send_data E s fd command payload sz =
    map_option (\<lambda>(r, s1). (0, s1)) (message_send E s fd command payload sz Response)"

text \<open>An answer that is an error for a negative result and a response with the number otherwise.\<close>

definition send_id :: "env \<Rightarrow> server \<Rightarrow> int \<Rightarrow> u32 \<Rightarrow> int \<Rightarrow> (int \<times> server) option" where
  "send_id E s fd command r =
    (if r < 0 then send_error E s fd command r else send_data E s fd command (enc_int r) 4)"

definition send_done :: "env \<Rightarrow> server \<Rightarrow> int \<Rightarrow> u32 \<Rightarrow> int \<Rightarrow> (int \<times> server) option" where
  "send_done E s fd command r =
    (if r < 0 then send_error E s fd command r else send_data E s fd command [] 0)"

section \<open>Modules and tags\<close>

definition REG_TEST_DATA :: "byte list" where
  "REG_TEST_DATA = enc16 0xBCDE @ enc32 0x56789ABC @ enc64 0x123456789ABCDEF0 @ enc32 0x40490FDB @
     enc64 0xC18C0584BF036A5B"

text \<open>
  \<^verbatim>\<open>msg_mod_register\<close>. The identification is made of the four low bytes of the start time; the last
  byte of the answer is not set.
\<close>

definition msg_mod_register :: "env \<Rightarrow> server \<Rightarrow> dax_message \<Rightarrow> (int \<times> server) option" where
  "msg_mod_register E s m =
    (if 0 < x_size m then
       (if msg_net m 4 AND 1 \<noteq> 0 then
          do {
            name \<leftarrow> msg_str m 8;
            (mp, s1) \<leftarrow> module_register E s name (msg_net m 0) (x_fd m);
            (case mp of
               None \<Rightarrow>
                 do {
                   (r, s2) \<leftarrow> send_error E s1 (x_fd m) MSG_MOD_REG ERR_NOTFOUND;
                   Some (ERR_NOTFOUND, s2)
                 }
             | Some _ \<Rightarrow>
                 do {
                   (r, b, s2) \<leftarrow> tag_read E s1 (- 1) INDEX_STARTED 0 (map (junk E) [0..<8]) 4;
                   send_data E s2 (x_fd m) MSG_MOD_REG (take 4 b @ REG_TEST_DATA @ [junk E 30]) 31
                 })
          }
        else send_error E s (x_fd m) MSG_MOD_REG ERR_MSG_BAD)
     else send_data E s (x_fd m) MSG_MOD_REG [] 0)"

definition msg_tag_add :: "env \<Rightarrow> server \<Rightarrow> dax_message \<Rightarrow> (int \<times> server) option" where
  "msg_tag_add E s m =
    do {
      (idx, s1) \<leftarrow>
        (if x_data m ! 12 = of_nat (ccode CHR ''_'') then Some (ERR_ILLEGAL, s)
         else do {
           name \<leftarrow> msg_str m 12;
           tag_add E s (x_fd m) name (msg_u32 m 0) (msg_u32 m 4) (msg_u32 m 8)
         });
      send_id E s1 (x_fd m) MSG_TAG_ADD idx
    }"

definition msg_tag_del :: "env \<Rightarrow> server \<Rightarrow> dax_message \<Rightarrow> (int \<times> server) option" where
  "msg_tag_del E s m =
    do {
      let idx = msg_int m 0;
      g \<leftarrow> tag_get_index s idx;
      (r, s1) \<leftarrow>
        (case g of
           Inl _ \<Rightarrow> Some (ERR_ARG, s)
         | Inr tag \<Rightarrow>
             if take 1 (dt_name tag) = ''_'' then Some (ERR_ILLEGAL, s) else tag_del E s idx);
      if r = 0 then send_data E s1 (x_fd m) MSG_TAG_DEL (enc_int idx) 4
      else send_error E s1 (x_fd m) MSG_TAG_DEL r
    }"

text \<open>
  \<^verbatim>\<open>msg_tag_get\<close>. On an error the length of the name is taken from a structure that was not filled;
  it is not used.
\<close>

definition msg_tag_get :: "env \<Rightarrow> server \<Rightarrow> dax_message \<Rightarrow> (int \<times> server) option" where
  "msg_tag_get E s m =
    do {
      g \<leftarrow>
        (if x_data m ! 0 = 2 then tag_get_index s (msg_int m 1)
         else do {
           name \<leftarrow> cstr (drop 1 ((x_data m)[DAX_TAGNAME_SIZE + 1 := 0]));
           tag_get_name s name
         });
      (case g of
         Inl e \<Rightarrow> send_error E s (x_fd m) MSG_TAG_GET e
       | Inr tag \<Rightarrow>
           let b = enc_int (dt_idx tag) @ enc32 (dt_type tag) @ enc32 (dt_count tag) @ enc16 (dt_attr tag) @
                   str_bytes (dt_name tag)
           in send_data E s (x_fd m) MSG_TAG_GET b (int (length b)))
    }"

definition msg_tag_list :: "env \<Rightarrow> server \<Rightarrow> dax_message \<Rightarrow> (int \<times> server) option" where
  "msg_tag_list E s m = Some (0, s)"

definition msg_tag_read :: "env \<Rightarrow> server \<Rightarrow> dax_message \<Rightarrow> (int \<times> server) option" where
  "msg_tag_read E s m =
    do {
      (r, b, s1) \<leftarrow> tag_read E s (x_fd m) (msg_int m 0) (msg_int m 4) (map (junk E) [0..<MSG_DATA_SIZE]) (msg_int m 8);
      if r \<noteq> 0 then send_error E s1 (x_fd m) MSG_TAG_READ r
      else send_data E s1 (x_fd m) MSG_TAG_READ b (msg_int m 8)
    }"

text \<open>
  \<^verbatim>\<open>msg_tag_write\<close> and \<^verbatim>\<open>msg_tag_mask_write\<close>: the attributes of the tag are read before anybody has
  checked the index.
\<close>

definition after_write :: "env \<Rightarrow> server \<Rightarrow> int \<Rightarrow> u32 \<Rightarrow> int \<Rightarrow> int \<Rightarrow> int \<Rightarrow> int \<Rightarrow> (int \<times> server) option" where
  "after_write E s fd command r idx offset sz =
    (if r \<noteq> 0 then send_error E s fd command r
     else do {
       (c, s1) \<leftarrow> map_check E s idx offset sz;
       send_data E s1 fd command [] 0
     })"

definition msg_tag_write :: "env \<Rightarrow> server \<Rightarrow> dax_message \<Rightarrow> (int \<times> server) option" where
  "msg_tag_write E s m =
    do {
      let sz = int_of_u32 (x_size m - 8);
      let idx = msg_int m 0;
      let offset = msg_int m 4;
      ro \<leftarrow> is_tag_readonly s idx;
      own \<leftarrow> is_tag_owned s (x_fd m) idx;
      (r, s1) \<leftarrow>
        (if ro \<and> \<not> own then Some (ERR_READONLY, s)
         else tag_write E s (x_fd m) idx offset (drop 8 (x_data m)) sz);
      after_write E s1 (x_fd m) MSG_TAG_WRITE r idx offset sz
    }"

definition msg_tag_mask_write :: "env \<Rightarrow> server \<Rightarrow> dax_message \<Rightarrow> (int \<times> server) option" where
  "msg_tag_mask_write E s m =
    (if x_size m < 8 then None
     else do {
       let sz = int_of_u32 ((x_size m - 8) div 2);
       let idx = msg_int m 0;
       let offset = msg_int m 4;
       ro \<leftarrow> is_tag_readonly s idx;
       (r, s1) \<leftarrow>
         (if ro then Some (ERR_READONLY, s)
          else tag_mask_write E s (x_fd m) idx offset (drop 8 (x_data m)) (drop (8 + nat sz) (x_data m)) sz);
       after_write E s1 (x_fd m) MSG_TAG_MWRITE r idx offset sz
     })"

section \<open>Events\<close>

definition msg_evnt_add :: "env \<Rightarrow> server \<Rightarrow> dax_message \<Rightarrow> (int \<times> server) option" where
  "msg_evnt_add E s m =
    (let (mp, s1) = module_find_fd s (x_fd m)
     in case mp of
          None \<Rightarrow> send_error E s1 (x_fd m) MSG_EVNT_ADD (- 1)
        | Some md \<Rightarrow>
            do {
              (r, s2) \<leftarrow> event_add E s1
                \<lparr>h_index = msg_int m 0, h_byte = msg_u32 m 4, h_bit = x_data m ! 24, h_count = msg_u32 m 8,
                 h_size = msg_u32 m 20, h_type = msg_u32 m 12\<rparr>
                (msg_int m 16) (drop 25 (x_data m)) (Some md);
              send_id E s2 (x_fd m) MSG_EVNT_ADD r
            })"

text \<open>
  \<^verbatim>\<open>msg_evnt_del\<close> and \<^verbatim>\<open>msg_evnt_opt\<close>: the answer depends on the sign of the index, not on the result,
  and its second half is memory behind the index.
\<close>

definition send_index8 :: "env \<Rightarrow> server \<Rightarrow> int \<Rightarrow> u32 \<Rightarrow> int \<Rightarrow> int \<Rightarrow> (int \<times> server) option" where
  "send_index8 E s fd command idx r =
    (if 0 \<le> idx then send_data E s fd command (enc_int idx @ map (junk E) [0..<4]) 8
     else send_error E s fd command r)"

definition msg_evnt_del :: "env \<Rightarrow> server \<Rightarrow> dax_message \<Rightarrow> (int \<times> server) option" where
  "msg_evnt_del E s m =
    (let (mp, s1) = module_find_fd s (x_fd m)
     in do {
       (r, s2) \<leftarrow> event_del s1 (msg_int m 0) (msg_int m 4) mp;
       send_index8 E s2 (x_fd m) MSG_EVNT_DEL (msg_int m 0) r
     })"

definition msg_evnt_get :: "env \<Rightarrow> server \<Rightarrow> dax_message \<Rightarrow> (int \<times> server) option" where
  "msg_evnt_get E s m = Some (0, s)"

definition msg_evnt_opt :: "env \<Rightarrow> server \<Rightarrow> dax_message \<Rightarrow> (int \<times> server) option" where
  "msg_evnt_opt E s m =
    (let (mp, s1) = module_find_fd s (x_fd m)
     in do {
       (r, s2) \<leftarrow> event_opt s1 (msg_int m 0) (msg_int m 4) (msg_u32 m 8) mp;
       send_index8 E s2 (x_fd m) MSG_EVNT_OPT (msg_int m 0) r
     })"

section \<open>Compound data types\<close>

text \<open>\<^verbatim>\<open>msg_cdt_create\<close>: when an identical type exists nothing was stored in \<^verbatim>\<open>result\<close>.\<close>

definition msg_cdt_create :: "env \<Rightarrow> server \<Rightarrow> dax_message \<Rightarrow> (int \<times> server) option" where
  "msg_cdt_create E s m =
    do {
      str \<leftarrow> cstr ((x_data m)[MSG_DATA_SIZE - 1 := 0]);
      (type, err, s1) \<leftarrow> cdt_create E s str;
      let result = (case err of Some e \<Rightarrow> e | None \<Rightarrow> dec_int (map (junk E) [0..<4]));
      if result < 0 then send_error E s1 (x_fd m) MSG_CDT_CREATE result
      else send_data E s1 (x_fd m) MSG_CDT_CREATE (enc32 type) 4
    }"

text \<open>\<^verbatim>\<open>msg_cdt_get\<close>: a name that is not known gives the type code 0, which is looked up like any other.\<close>

definition msg_cdt_get :: "env \<Rightarrow> server \<Rightarrow> dax_message \<Rightarrow> (int \<times> server) option" where
  "msg_cdt_get E s m =
    do {
      type \<leftarrow>
        (if x_data m ! 0 = 2 then Some (msg_u32 m 1)
         else map_option (cdt_get_type (cdts s)) (cstr (take DAX_TAGNAME_SIZE (drop 1 (x_data m)) @ [0])));
      r \<leftarrow> serialize_datatype E (cdts s) type;
      (case r of
         Inl e \<Rightarrow> send_error E s (x_fd m) MSG_CDT_GET e
       | Inr str \<Rightarrow>
           let b = enc32 type @ str_bytes str
           in if MSG_DATA_SIZE < length b then send_error E s (x_fd m) MSG_CDT_GET ERR_2BIG
              else send_data E s (x_fd m) MSG_CDT_GET b (int (length b)))
    }"

section \<open>Mappings\<close>

definition msg_handle :: "dax_message \<Rightarrow> nat \<Rightarrow> tag_handle" where
  "msg_handle m i =
    \<lparr>h_index = msg_int m i, h_byte = msg_u32 m (i + 4), h_bit = x_data m ! (i + 8),
     h_count = msg_u32 m (i + 9), h_size = msg_u32 m (i + 13), h_type = msg_u32 m (i + 17)\<rparr>"

definition enc_handle :: "tag_handle \<Rightarrow> byte list" where
  "enc_handle h =
    enc_int (h_index h) @ enc32 (h_byte h) @ [h_bit h] @ enc32 (h_count h) @ enc32 (h_size h) @ enc32 (h_type h)"

definition msg_map_add :: "env \<Rightarrow> server \<Rightarrow> dax_message \<Rightarrow> (int \<times> server) option" where
  "msg_map_add E s m =
    do {
      (r, s1) \<leftarrow> map_add E s (msg_handle m 0) (msg_handle m 21);
      send_id E s1 (x_fd m) MSG_MAP_ADD r
    }"

definition msg_map_del :: "env \<Rightarrow> server \<Rightarrow> dax_message \<Rightarrow> (int \<times> server) option" where
  "msg_map_del E s m =
    do {
      (r, s1) \<leftarrow> map_del s (msg_int m 0) (msg_int m 4);
      (c, s2) \<leftarrow> send_id E s1 (x_fd m) MSG_MAP_DEL r;
      Some (r, s2)
    }"

definition msg_map_get :: "env \<Rightarrow> server \<Rightarrow> dax_message \<Rightarrow> (int \<times> server) option" where
  "msg_map_get E s m =
    do {
      g \<leftarrow> map_get s (msg_int m 0) (msg_int m 4);
      (case g of
         Inl e \<Rightarrow> do { (c, s1) \<leftarrow> send_error E s (x_fd m) MSG_MAP_GET e; Some (e, s1) }
       | Inr (src, dest) \<Rightarrow>
           send_data E s (x_fd m) MSG_MAP_GET (enc_handle src @ enc_handle dest @ map (junk E) [42..<48]) 48)
    }"

section \<open>Groups\<close>

text \<open>A group message from a connection that is not registered follows a null pointer.\<close>

definition with_module ::
  "server \<Rightarrow> int \<Rightarrow> (mod_ptr \<Rightarrow> dax_module \<Rightarrow> server \<Rightarrow> (int \<times> server) option) \<Rightarrow> (int \<times> server) option" where
  "with_module s fd f =
    (let (mp, s1) = module_find_fd s fd in do { m \<leftarrow> mp; d \<leftarrow> mod_heap s1 m; f m d s1 })"

definition msg_group_add :: "env \<Rightarrow> server \<Rightarrow> dax_message \<Rightarrow> (int \<times> server) option" where
  "msg_group_add E s m =
    with_module s (x_fd m) (\<lambda>p d s1.
      do {
        (r, d') \<leftarrow> group_add E d (drop 2 (x_data m)) (unat (x_data m ! 0));
        send_id E (set_module s1 p d') (x_fd m) MSG_GRP_ADD r
      })"

definition msg_group_del :: "env \<Rightarrow> server \<Rightarrow> dax_message \<Rightarrow> (int \<times> server) option" where
  "msg_group_del E s m =
    with_module s (x_fd m) (\<lambda>p d s1.
      do {
        (r, d') \<leftarrow> group_del d (msg_int m 0);
        send_id E (set_module s1 p d') (x_fd m) MSG_GRP_DEL r
      })"

definition msg_group_read :: "env \<Rightarrow> server \<Rightarrow> dax_message \<Rightarrow> (int \<times> server) option" where
  "msg_group_read E s m =
    with_module s (x_fd m) (\<lambda>p d s1.
      do {
        (r, b, s2) \<leftarrow> group_read E s1 d (uint (msg_u32 m 0))
          (map (junk E) [0..<nat MSG_TAG_GROUP_DATA_SIZE]) MSG_TAG_GROUP_DATA_SIZE;
        if r < 0 then send_error E s2 (x_fd m) MSG_GRP_READ r
        else send_data E s2 (x_fd m) MSG_GRP_READ b r
      })"

definition msg_group_write :: "env \<Rightarrow> server \<Rightarrow> dax_message \<Rightarrow> (int \<times> server) option" where
  "msg_group_write E s m =
    with_module s (x_fd m) (\<lambda>p d s1.
      do {
        (r, s2) \<leftarrow> group_write E s1 d (uint (msg_u32 m 0)) (drop 4 (x_data m));
        send_done E s2 (x_fd m) MSG_GRP_WRITE r
      })"

definition msg_group_mask_write :: "env \<Rightarrow> server \<Rightarrow> dax_message \<Rightarrow> (int \<times> server) option" where
  "msg_group_mask_write E s m = send_error E s (x_fd m) MSG_GRP_MWRITE ERR_NOTIMPLEMENTED"

section \<open>Atomic operations and overrides\<close>

definition msg_atomic_op :: "env \<Rightarrow> server \<Rightarrow> dax_message \<Rightarrow> (int \<times> server) option" where
  "msg_atomic_op E s m =
    do {
      let h = \<lparr>h_index = msg_int m 0, h_byte = msg_u32 m 4, h_bit = x_data m ! 16, h_count = msg_u32 m 8,
               h_size = x_size m - 21, h_type = msg_u32 m 12\<rparr>;
      ro \<leftarrow> is_tag_readonly s (h_index h);
      own \<leftarrow> is_tag_owned s (x_fd m) (h_index h);
      (r, s1) \<leftarrow>
        (if ro \<and> \<not> own then Some (ERR_READONLY, s)
         else atomic_op E s h (drop 21 (x_data m)) (msg_u16 m 17));
      if r < 0 then send_error E s1 (x_fd m) MSG_ATOMIC_OP r
      else do {
        (c, s2) \<leftarrow> map_check E s1 (h_index h) (int_of_u32 (h_byte h)) (int_of_u32 (h_size h));
        send_data E s2 (x_fd m) MSG_ATOMIC_OP [] 0
      }
    }"

definition msg_add_override :: "env \<Rightarrow> server \<Rightarrow> dax_message \<Rightarrow> (int \<times> server) option" where
  "msg_add_override E s m =
    do {
      let sz = int_of_u32 ((x_size m - 12) div 2);
      (r, s1) \<leftarrow> override_add E s (msg_int m 0) (msg_int m 4) (drop 12 (x_data m))
        (drop (12 + nat sz) (x_data m)) sz;
      send_done E s1 (x_fd m) MSG_ADD_OVRD r
    }"

definition msg_del_override :: "env \<Rightarrow> server \<Rightarrow> dax_message \<Rightarrow> (int \<times> server) option" where
  "msg_del_override E s m =
    do {
      (r, s1) \<leftarrow> override_del E s (msg_int m 0) (msg_int m 4) (drop 8 (x_data m)) (int_of_u32 (x_size m - 8));
      send_done E s1 (x_fd m) MSG_DEL_OVRD r
    }"

definition msg_get_override :: "env \<Rightarrow> server \<Rightarrow> dax_message \<Rightarrow> (int \<times> server) option" where
  "msg_get_override E s m =
    do {
      let sz = msg_int m 8;
      let buff = map (junk E) [0..<MSG_DATA_SIZE];
      (r, d, k) \<leftarrow> override_get E s (msg_int m 0) (msg_int m 4) sz (take (nat sz) buff) (drop (nat sz) buff);
      if r < 0 then send_error E s (x_fd m) MSG_GET_OVRD r
      else send_data E s (x_fd m) MSG_GET_OVRD (d @ k) (sz * 2)
    }"

definition msg_set_override :: "env \<Rightarrow> server \<Rightarrow> dax_message \<Rightarrow> (int \<times> server) option" where
  "msg_set_override E s m =
    do {
      (r, s1) \<leftarrow> override_set E s (msg_int m 0) (x_data m ! 4 \<noteq> 0);
      send_done E s1 (x_fd m) MSG_SET_OVRD r
    }"

section \<open>The table of handlers\<close>

definition cmd_arr :: "(env \<Rightarrow> server \<Rightarrow> dax_message \<Rightarrow> (int \<times> server) option) list" where
  "cmd_arr =
    [msg_mod_register, msg_tag_add, msg_tag_del, msg_tag_get, msg_tag_list, msg_tag_read, msg_tag_write,
     msg_tag_mask_write, msg_evnt_add, msg_evnt_del, msg_evnt_get, msg_evnt_opt, msg_cdt_create, msg_cdt_get,
     msg_map_add, msg_map_del, msg_map_get, msg_group_add, msg_group_del, msg_group_read, msg_group_write,
     msg_group_mask_write, msg_atomic_op, msg_add_override, msg_del_override, msg_get_override,
     msg_set_override]"

end
