(* ===== verification/Server_Loop.thy ===== *)
theory Server_Loop
  imports Messages
begin

text \<open>
  The receive side of the server (\<^verbatim>\<open>buffer.c\<close> and the rest of \<^verbatim>\<open>message.c\<close>): bytes from a socket are
  collected in a buffer of their own until a message is there, which is then handed to its handler.
  What the operating system delivers is an input of the step function.
\<close>

section \<open>Communication buffers\<close>

record buffnode =
  b_fd :: int
  b_index :: int
  b_buffer :: "byte list"

text \<open>\<^verbatim>\<open>_new_buffnode\<close>: the bytes are not initialized.\<close>

definition new_buffnode :: "env \<Rightarrow> buffnode" where
  "new_buffnode E = \<lparr>b_fd = 0, b_index = 0, b_buffer = map (junk E) [0..<DAX_MSGMAX]\<rparr>"

text \<open>The state of the communication: the buffers, and the sockets that are watched.\<close>

record comm =
  c_nodes :: "buffnode list"
  c_fds :: "int list"
  c_maxfd :: int
  c_min :: nat

definition buff_initialize :: "env \<Rightarrow> nat \<Rightarrow> buffnode list" where
  "buff_initialize E n = replicate n (new_buffnode E)"

fun node_pos :: "(buffnode \<Rightarrow> bool) \<Rightarrow> buffnode list \<Rightarrow> nat option" where
  "node_pos P [] = None"
| "node_pos P (x # xs) = (if P x then Some 0 else map_option Suc (node_pos P xs))"

text \<open>
  \<^verbatim>\<open>find_buff_slot\<close>: the buffer of the socket, or the first free one, or a new one at the end of the
  list, which must not be empty. \<open>ok\<close> says whether the allocation succeeds.
\<close>

definition find_buff_slot :: "env \<Rightarrow> bool \<Rightarrow> buffnode list \<Rightarrow> int \<Rightarrow> (nat option \<times> buffnode list) option" where
  "find_buff_slot E ok nodes fd =
    (case node_pos (\<lambda>n. b_fd n = fd) nodes of
       Some i \<Rightarrow> Some (Some i, nodes)
     | None \<Rightarrow>
         (case node_pos (\<lambda>n. b_fd n = 0) nodes of
            Some i \<Rightarrow> Some (Some i, nodes[i := (nodes ! i)\<lparr>b_fd := fd\<rparr>])
          | None \<Rightarrow>
              if \<not> ok then Some (None, nodes)
              else if nodes = [] then None
              else Some (Some (length nodes), nodes @ [(new_buffnode E)\<lparr>b_fd := fd\<rparr>])))"

definition buff_free :: "buffnode list \<Rightarrow> int \<Rightarrow> buffnode list" where
  "buff_free nodes fd =
    (case node_pos (\<lambda>n. b_fd n = fd) nodes of
       Some i \<Rightarrow> nodes[i := (nodes ! i)\<lparr>b_fd := 0, b_index := 0\<rparr>]
     | None \<Rightarrow> nodes)"

definition buff_freeall :: "nat \<Rightarrow> buffnode list \<Rightarrow> buffnode list" where
  "buff_freeall mn nodes =
    (let cleared = map (\<lambda>n. n\<lparr>b_fd := 0, b_index := 0\<rparr>) nodes
     in if mn < length nodes \<and> 1 < length nodes then butlast cleared else cleared)"

section \<open>Dispatching a message\<close>

definition CHECK_COMMAND :: "u32 \<Rightarrow> bool" where
  "CHECK_COMMAND t \<longleftrightarrow> t = 0 \<or> NUM_COMMANDS < t"

text \<open>
  \<^verbatim>\<open>msg_dispatcher\<close>: the size that the client wrote into the header, less the header, is copied
  unchecked.
\<close>

definition unpack_message :: "env \<Rightarrow> int \<Rightarrow> byte list \<Rightarrow> dax_message option" where
  "unpack_message E fd buff =
    (let sz = of_nat (be_dec (take 4 buff)) - 8
     in do {
       d \<leftarrow> mem_get buff 8 (uint (sz :: u32));
       if MSG_DATA_SIZE < length d then None
       else Some \<lparr>x_size = sz, x_type = of_nat (be_dec (take 4 (drop 4 buff))),
                  x_data = d @ map (junk E) [length d..<MSG_DATA_SIZE], x_fd = fd\<rparr>
     })"

definition msg_dispatcher ::
  "env \<Rightarrow> server \<Rightarrow> buffnode list \<Rightarrow> int \<Rightarrow> byte list \<Rightarrow> (int \<times> server \<times> buffnode list) option" where
  "msg_dispatcher E s nodes fd buff =
    (if CHECK_COMMAND (of_nat (be_dec (take 4 (drop 4 buff)))) then Some (ERR_MSG_BAD, s, nodes)
     else do {
       m \<leftarrow> unpack_message E fd buff;
       (r, s1) \<leftarrow> (cmd_arr ! (unat (x_type m) - 1)) E s m;
       Some (r, s1, buff_free nodes fd)
     })"

section \<open>Receiving\<close>

text \<open>
  What \<^verbatim>\<open>read\<close> can do. \<^verbatim>\<open>buff_read\<close> keeps its result in an unsigned variable, so that an error counts as
  a very large number of bytes and moves the index back by one.
\<close>

datatype read_result = R_bytes "byte list" | R_error

definition read_into :: "buffnode \<Rightarrow> read_result \<Rightarrow> (bool \<times> buffnode) option" where
  "read_into n r =
    (if b_index n < 0 then None
     else
       let room = DAX_MSGMAX - nat (b_index n)
       in case r of
            R_error \<Rightarrow> Some (True, n\<lparr>b_index := b_index n - 1\<rparr>)
          | R_bytes bs \<Rightarrow>
              let got = take room bs
              in do {
                b \<leftarrow> mem_put (b_buffer n) (b_index n) got;
                Some (got \<noteq> [], n\<lparr>b_buffer := b, b_index := b_index n + int (length got)\<rparr>)
              })"

definition buff_read ::
  "env \<Rightarrow> bool \<Rightarrow> server \<Rightarrow> buffnode list \<Rightarrow> int \<Rightarrow> read_result \<Rightarrow> (int \<times> server \<times> buffnode list) option" where
  "buff_read E ok s nodes fd r =
    do {
      (slot, nodes1) \<leftarrow> find_buff_slot E ok nodes fd;
      (case slot of
         None \<Rightarrow> Some (ERR_ALLOC, s, nodes1)
       | Some i \<Rightarrow>
           do {
             (more, n) \<leftarrow> read_into (nodes1 ! i) r;
             let nodes2 = nodes1[i := n];
             if \<not> more then Some (ERR_NO_SOCKET, s, nodes2)
             else if u32_of (b_index n) < of_nat (be_dec (take 4 (b_buffer n))) - 1
             then Some (ERR_MSG_BAD, s, nodes2)
             else msg_dispatcher E s nodes2 fd (b_buffer n)
           })
    }"

definition msg_add_fd :: "comm \<Rightarrow> int \<Rightarrow> comm" where
  "msg_add_fd c fd = c\<lparr>c_fds := List.insert fd (c_fds c), c_maxfd := max fd (c_maxfd c)\<rparr>"

text \<open>\<^verbatim>\<open>msg_del_fd\<close>: the largest descriptor is looked up again among the ones that are left.\<close>

definition msg_del_fd :: "comm \<Rightarrow> int \<Rightarrow> comm" where
  "msg_del_fd c fd =
    (let fds = removeAll fd (c_fds c)
     in c\<lparr>c_fds := fds,
          c_maxfd := (if fd = c_maxfd c then foldr max (filter (\<lambda>n. 0 \<le> n \<and> n \<le> c_maxfd c) fds) 0 else c_maxfd c),
          c_nodes := buff_free (c_nodes c) fd\<rparr>)"

text \<open>\<^verbatim>\<open>msg_receive\<close>, for one ready socket, or for none when \<^verbatim>\<open>select\<close> timed out.\<close>

datatype input = In_timeout | In_accept int | In_read int read_result

definition msg_receive ::
  "env \<Rightarrow> bool \<Rightarrow> server \<Rightarrow> comm \<Rightarrow> input \<Rightarrow> (int \<times> server \<times> comm) option" where
  "msg_receive E ok s c i =
    (case i of
       In_timeout \<Rightarrow> Some (0, s, c\<lparr>c_nodes := buff_freeall (c_min c) (c_nodes c)\<rparr>)
     | In_accept fd \<Rightarrow> Some (0, s, if fd < 0 then c else msg_add_fd c fd)
     | In_read fd r \<Rightarrow>
         do {
           (res, s1, nodes) \<leftarrow> buff_read E ok s (c_nodes c) fd r;
           let c1 = c\<lparr>c_nodes := nodes\<rparr>;
           if res = ERR_NO_SOCKET then
             do { s2 \<leftarrow> module_unregister E s1 fd; Some (0, s2, msg_del_fd c1 fd) }
           else Some (if res < 0 then res else 0, s1, c1)
         })"

end
