(* ===== verification/Event_Laws.thy ===== *)
theory Event_Laws
  imports Events
begin

text \<open>
  What the events do: a check leaves everything but the \<^verbatim>\<open>test\<close> blocks and the output alone; change
  events fire exactly when a byte of their range changed; set and reset events fire on edges.
\<close>

section \<open>Frame\<close>

lemma send_event_frame:
  assumes "send_event E s idx ev = Some (r, s')"
  obtains x where "s' = s\<lparr>sent := sent s @ x\<rparr>"
proof (cases "of_nat DAX_MSGMAX < (if e_options ev AND EVENT_OPT_SEND_DATA \<noteq> 0 then e_size ev + 16 else 16)")
  case True
  with assms have "s' = s\<lparr>sent := sent s @ []\<rparr>" by (simp add: send_event_def Let_def)
  then show ?thesis by (rule that)
next
  case False
  with assms obtain fd b r1 where "xwrite E s fd b = (r1, s')"
    unfolding send_event_def Let_def by (auto split: prod.splits)
  then have "s' = s\<lparr>sent := sent s @ (if xwrite_ok E fd then [(fd, b)] else [])\<rparr>"
    by (cases "xwrite_ok E fd") (simp_all add: xwrite_def)
  then show ?thesis by (rule that)
qed

text \<open>The fields of an event that a check does not touch.\<close>

definition ev_static :: "dax_event \<Rightarrow> dax_event" where
  "ev_static ev = ev\<lparr>e_test := None\<rparr>"

lemma put_test_static [simp]: "ev_static (put_test ev b) = ev_static ev"
  by (simp add: put_test_def ev_static_def split: option.split)

lemma event_hit_static:
  assumes "event_hit E ev data offset sz = Some (hit, ev')"
  shows "ev_static ev' = ev_static ev"
  using assms unfolding event_hit_def Let_def by (auto split: if_splits)

lemma event_loop_frame:
  assumes "event_loop E s idx data offset sz evs = Some (evs', s')"
  shows "map ev_static evs' = map ev_static evs \<and> (\<exists>x. s' = s\<lparr>sent := sent s @ x\<rparr>)"
  using assms
proof (induction evs arbitrary: s evs' s')
  case Nil
  then have "evs' = [] \<and> s' = s\<lparr>sent := sent s @ []\<rparr>" by simp
  then show ?case by blast
next
  case (Cons ev evs)
  from Cons.prems obtain ev1 s1 evs1 where st: "ev_static ev1 = ev_static ev"
    and s1: "\<exists>x. s1 = s\<lparr>sent := sent s @ x\<rparr>"
    and rest: "event_loop E s1 idx data offset sz evs = Some (evs1, s')" and evs': "evs' = ev1 # evs1"
  proof (cases "event_touched ev offset sz")
    case False
    with Cons.prems obtain evs1 where "event_loop E s idx data offset sz evs = Some (evs1, s')"
      "evs' = ev # evs1" by auto
    moreover have "s = s\<lparr>sent := sent s @ []\<rparr>" by simp
    ultimately show ?thesis using that by blast
  next
    case True
    with Cons.prems obtain hit ev1 s1 evs1 where h: "event_hit E ev data offset sz = Some (hit, ev1)"
      "(if hit then map_option snd (send_event E s idx ev1) else Some s) = Some s1"
      "event_loop E s1 idx data offset sz evs = Some (evs1, s')" "evs' = ev1 # evs1"
      by auto
    have "\<exists>x. s1 = s\<lparr>sent := sent s @ x\<rparr>"
    proof (cases hit)
      case True
      with h(2) obtain r where "send_event E s idx ev1 = Some (r, s1)" by auto
      then show ?thesis by (rule send_event_frame) blast
    next
      case False
      with h(2) have "s1 = s\<lparr>sent := sent s @ []\<rparr>" by simp
      then show ?thesis by blast
    qed
    with h event_hit_static [OF h(1)] that show ?thesis by blast
  qed
  from s1 obtain x where x: "s1 = s\<lparr>sent := sent s @ x\<rparr>" by blast
  from Cons.IH [OF rest] obtain y where y: "map ev_static evs1 = map ev_static evs"
    "s' = s1\<lparr>sent := sent s1 @ y\<rparr>" by blast
  have "s' = s\<lparr>sent := sent s @ (x @ y)\<rparr>" by (simp add: y(2) x)
  with st y(1) evs' show ?case by auto
qed

lemma event_check_frame:
  assumes "event_check E s idx offset sz = Some s'"
  obtains t evs x where "get_tag s idx = Some t" and "map ev_static evs = map ev_static (t_events t)"
    and "s' = (set_tag s idx (t\<lparr>t_events := evs\<rparr>))\<lparr>sent := sent s @ x\<rparr>"
proof -
  from assms obtain t evs s1 where t: "get_tag s idx = Some t"
    "event_loop E s idx (data_bytes E t) offset sz (t_events t) = Some (evs, s1)"
    "s' = set_tag s1 idx (t\<lparr>t_events := evs\<rparr>)"
    by (auto simp: event_check_def)
  from event_loop_frame [OF t(2)] obtain x where x: "map ev_static evs = map ev_static (t_events t)"
    "s1 = s\<lparr>sent := sent s @ x\<rparr>" by blast
  have "s' = (set_tag s idx (t\<lparr>t_events := evs\<rparr>))\<lparr>sent := sent s @ x\<rparr>"
    by (simp add: t(3) x(2) set_tag_def)
  with t(1) x(1) that show ?thesis by blast
qed

section \<open>The intersection test\<close>

text \<open>For ranges inside a block of less than 2 GiB the test is the intersection of two intervals.\<close>

lemma event_touched_iff:
  assumes "0 \<le> offset" and "0 < sz" and "offset + sz \<le> 2 ^ 31"
    and "0 \<le> e_byte ev" and "e_byte ev + uint (e_size ev) \<le> 2 ^ 31" and "e_size ev \<noteq> 0"
  shows "event_touched ev offset sz \<longleftrightarrow>
    {offset..<offset + sz} \<inter> {e_byte ev..<e_byte ev + uint (e_size ev)} \<noteq> {}"
proof -
  have pos: "0 < uint (e_size ev)" using assms(6) by (simp add: word_neq_0_conv word_less_def)
  let ?e = "e_byte ev + uint (e_size ev) - 1"
  have "u32_of (e_byte ev) + e_size ev - 1 = word_of_int ?e"
    by (simp add: u32_of_def)
  moreover have "uint (word_of_int ?e :: u32) = ?e"
    using assms(4,5) pos by (intro uint_word_of_int_id) simp_all
  moreover have "uint (u32_of offset) = offset"
    using assms(1-3) by (simp add: u32_of_def unsigned_of_int take_bit_int_eq_self_iff)
  ultimately have "u32_of offset \<le> u32_of (e_byte ev) + e_size ev - 1 \<longleftrightarrow> offset \<le> ?e"
    by (simp add: word_le_def)
  then have "event_touched ev offset sz \<longleftrightarrow> offset \<le> ?e \<and> e_byte ev \<le> offset + sz - 1"
    by (simp add: event_touched_def)
  also have "\<dots> \<longleftrightarrow> max offset (e_byte ev) \<in> {offset..<offset + sz} \<inter> {e_byte ev..<e_byte ev + uint (e_size ev)}"
    using assms(2) pos by auto
  also have "\<dots> \<longleftrightarrow> {offset..<offset + sz} \<inter> {e_byte ev..<e_byte ev + uint (e_size ev)} \<noteq> {}"
    by auto
  finally show ?thesis .
qed

lemma event_len_eq:
  assumes "0 \<le> offset" and "0 \<le> sz" and "offset + sz < 2 ^ 31"
    and "0 \<le> e_byte ev" and "e_byte ev + uint (e_size ev) < 2 ^ 31"
  shows "event_len ev offset sz =
    min (e_byte ev + uint (e_size ev)) (offset + sz) - max offset (e_byte ev)"
proof -
  let ?a = "e_byte ev + uint (e_size ev)" and ?b = "offset + sz" and ?m = "max offset (e_byte ev)"
  have eq: "u32_of (e_byte ev) + e_size ev = word_of_int ?a" by (simp add: u32_of_def)
  have "0 \<le> ?a" "?a < 2 ^ 32" using assms(4,5) by simp_all
  then have ua: "uint (word_of_int ?a :: u32) = ?a" by (rule uint_word_of_int_id)
  have "0 \<le> ?b" "?b < 2 ^ 32" using assms(1-3) by simp_all
  then have ub: "uint (word_of_int ?b :: u32) = ?b" by (rule uint_word_of_int_id)
  have "(word_of_int ?a \<le> (word_of_int ?b :: u32)) = (?a \<le> ?b)"
    by (simp only: word_le_def ua ub)
  then have "min (u32_of (e_byte ev) + e_size ev) (u32_of ?b) = word_of_int (min ?a ?b)"
    unfolding eq unfolding u32_of_def min_def by (cases "?a \<le> ?b") (simp_all only: if_True if_False)
  then have "min (u32_of (e_byte ev) + e_size ev) (u32_of ?b) - u32_of ?m = u32_of (min ?a ?b - ?m)"
    by (simp add: u32_of_def)
  moreover have "int32_ok (min (e_byte ev + u) ?b - ?m)" if "0 \<le> u" "e_byte ev + u < 2 ^ 31" for u
    using assms(1-4) that by (auto simp: int32_ok_def min_def max_def)
  then have "int32_ok (min ?a ?b - ?m)" using assms(5) by simp
  ultimately show ?thesis by (simp add: event_len_def)
qed

section \<open>Change events\<close>

text \<open>
  An event on bytes that has seen the tag's data fires on a write exactly when the write changed
  a byte of its range, and has then seen the new data.
\<close>

definition ev_slice :: "dax_event \<Rightarrow> byte list \<Rightarrow> byte list" where
  "ev_slice ev data = take (unat (e_size ev)) (drop (nat (e_byte ev)) data)"

lemma splice_eqI:
  assumes "length xs = length ys" and "m + l \<le> length xs"
    and "\<And>i. i < length xs \<Longrightarrow> i < m \<or> m + l \<le> i \<Longrightarrow> xs ! i = ys ! i"
  shows "take m xs @ take l (drop m ys) @ drop (m + l) xs = ys"
    and "xs = ys \<longleftrightarrow> take l (drop m xs) = take l (drop m ys)"
proof -
  show e: "take m xs @ take l (drop m ys) @ drop (m + l) xs = ys"
    using assms by (intro nth_equalityI) (auto simp: nth_append)
  have "take m xs @ take l (drop m xs) @ drop (m + l) xs = xs"
    by (metis append_take_drop_id drop_drop add.commute)
  with e show "xs = ys \<longleftrightarrow> take l (drop m xs) = take l (drop m ys)" by metis
qed

lemma event_change_exact:
  assumes "e_datatype ev \<noteq> DAX_BOOL" and "0 \<le> e_byte ev" and "e_size ev \<noteq> 0"
    and "e_byte ev + uint (e_size ev) \<le> int (length data)" and "length data < 2 ^ 31"
    and "e_test ev = Some (ev_slice ev data)"
    and "mem_put data offset src = Some data'" and "src \<noteq> []"
    and "event_touched ev offset (int (length src))"
  shows "event_change ev data' offset (int (length src)) =
    Some (ev_slice ev data \<noteq> ev_slice ev data', ev_slice ev data')"
proof -
  define B S O' N where "B = nat (e_byte ev)" and "S = unat (e_size ev)" and "O' = nat offset"
    and "N = length src"
  have off: "0 \<le> offset" and fit: "O' + N \<le> length data"
    using assms(7) by (auto simp: mem_put_def O'_def N_def split: if_splits)
  have B: "e_byte ev = int B" and S: "uint (e_size ev) = int S" and O: "offset = int O'"
    using assms(2) off by (simp_all add: B_def S_def O'_def)
  have BS: "B + S \<le> length data" using assms(4) B S by simp
  have len': "length data' = length data" by (rule mem_put_length [OF assms(7)])
  have N: "0 < N" using assms(8) by (simp add: N_def)
  have Spos: "0 < S" using assms(3) by (simp add: S_def unat_gt_0)
  have "event_touched ev offset (int N) \<longleftrightarrow>
      {offset..<offset + int N} \<inter> {e_byte ev..<e_byte ev + uint (e_size ev)} \<noteq> {}"
    using off N fit O assms(2-5) by (intro event_touched_iff) auto
  with assms(9) have touch: "max O' B < min (B + S) (O' + N)"
    using N Spos by (auto simp: N_def O B S)
  define m l where "m = max O' B" and "l = min (B + S) (O' + N) - max O' B"
  have L: "event_len ev offset (int N) = int l"
    using event_len_eq [of offset "int N" ev] off N fit O assms(2-5) touch B S
    by (simp add: l_def of_nat_diff)
  have lpos: "0 < l" and ml: "m + l \<le> length data" "m - B + l \<le> S" "B \<le> m"
    using touch BS fit by (auto simp: m_def l_def)
  let ?xs = "ev_slice ev data" and ?ys = "ev_slice ev data'"
  have xs: "?xs = take S (drop B data)" "?ys = take S (drop B data')"
    by (simp_all add: ev_slice_def S_def B_def)
  have lxs: "length ?xs = S" "length ?ys = S" using BS len' by (simp_all add: xs)
  have same: "?xs ! i = ?ys ! i" if "i < length ?xs" "i < m - B \<or> m - B + l \<le> i" for i
  proof -
    have i: "i < S" using that(1) lxs by simp
    have "B + i < O' \<or> O' + N \<le> B + i"
      using that(2) i touch by (auto simp: m_def l_def)
    then have "data' ! (B + i) = data ! (B + i)"
      using mem_put_nth [OF assms(7), of "B + i"] BS i by (auto simp: O'_def N_def)
    then show ?thesis using i BS len' by (simp add: xs)
  qed
  have pre: "length ?xs = length ?ys" "m - B + l \<le> length ?xs" using lxs ml by simp_all
  have sp: "take (m - B) ?xs @ take l (drop (m - B) ?ys) @ drop (m - B + l) ?xs = ?ys"
    "?xs = ?ys \<longleftrightarrow> take l (drop (m - B) ?xs) = take l (drop (m - B) ?ys)"
    by (rule splice_eqI [OF pre], erule (1) same)+
  have mx: "max offset (e_byte ev) = int m" and toff: "max 0 (offset - e_byte ev) = int (m - B)"
    by (auto simp: O B m_def)
  have g1: "mem_get ?xs (int (m - B)) (int l) = Some (take l (drop (m - B) ?xs))"
  proof -
    have "mem_get ?xs (int d) (int l) = Some (take l (drop d ?xs))" if "d + l \<le> S" for d
      using that lxs by (simp add: mem_get_def)
    then show ?thesis using ml(2) by blast
  qed
  have g2: "mem_get data' (int m) (int l) = Some (take l (drop (m - B) ?ys))"
  proof -
    have "drop (m - B) ?ys = take (S - (m - B)) (drop m data')"
      using ml by (simp add: xs drop_take)
    then have "take l (drop (m - B) ?ys) = take l (drop m data')"
      using ml by (simp add: min_def)
    then show ?thesis using ml len' by (simp add: mem_get_def)
  qed
  have g3: "mem_put ?xs (int (m - B)) (take l (drop (m - B) ?ys)) = Some ?ys"
  proof -
    have "mem_put ?xs (int d) zs = Some (take d ?xs @ zs @ drop (d + l) ?xs)"
      if "d + l \<le> S" "length zs = l" for d zs
      using that lxs by (simp add: mem_put_def)
    moreover have "length (take l (drop (m - B) ?ys)) = l" using lxs ml by simp
    ultimately have "mem_put ?xs (int (m - B)) (take l (drop (m - B) ?ys)) =
        Some (take (m - B) ?xs @ take l (drop (m - B) ?ys) @ drop (m - B + l) ?xs)"
      using ml(2) by blast
    then show ?thesis unfolding sp(1) .
  qed
  show ?thesis
    using assms(1,6) lpos sp(2)
    by (simp add: event_change_def ptr_bytes_def N_def [symmetric] L mx toff g1 g2 g3)
qed

section \<open>Set and reset events\<close>

text \<open>
  The loop over the bits: after it the flag of every bit in the range says whether the bit has
  the value asked for, the other flags are unchanged, and the event fires when a flag was raised.
\<close>

definition bit_at :: "byte list \<Rightarrow> int \<Rightarrow> nat \<Rightarrow> bool" where
  "bit_at data base k = bit (data ! (nat base + k div 8)) (k mod 8)"

lemma and_mask_0: "(x :: byte) AND bit_mask b = 0 \<longleftrightarrow> \<not> bit x b"
proof -
  have "x AND push_bit b 1 = 0 \<longleftrightarrow> \<not> bit x b"
    by (metis bit_iff_and_push_bit_not_eq_0)
  then show ?thesis by (simp add: bit_mask_def)
qed

lemma bit_or_mask: "b < 8 \<Longrightarrow> bit ((x :: byte) OR bit_mask b) j = (bit x j \<or> j = b)"
  by (auto simp: bit_mask_def bit_simps)

lemma bit_andnot_mask: "b < 8 \<Longrightarrow> bit ((x :: byte) AND NOT (bit_mask b)) j = (bit x j \<and> j \<noteq> b)"
  by (auto simp: bit_mask_def bit_simps dest: bit_imp_le_length)

lemma get_bit_update:
  assumes "i < length test"
  shows "get_bit (test[i := v]) k = (if k div 8 = i then bit v (k mod 8) else get_bit test k)"
  using assms by (auto simp: get_bit_def nth_list_update)

text \<open>One step of the loop on the bit at position \<open>8 * i + b\<close>.\<close>

lemma flag_step_spec:
  assumes "b < 8" and "i < length test" and "flag_step pol y (test ! i) b = (r, x')"
  shows "get_bit (test[i := x']) k = (if k = 8 * i + b then bit y b = pol else get_bit test k)"
    and "r \<longleftrightarrow> bit y b = pol \<and> \<not> get_bit test (8 * i + b)"
proof -
  have k: "k = 8 * i + b \<longleftrightarrow> k div 8 = i \<and> k mod 8 = b" using assms(1) by auto
  have g: "get_bit test (8 * i + b) = bit (test ! i) b" using assms(1) by (simp add: get_bit_def)
  have gk: "k div 8 = i \<Longrightarrow> get_bit test k = bit (test ! i) (k mod 8)" by (simp add: get_bit_def)
  show "r \<longleftrightarrow> bit y b = pol \<and> \<not> get_bit test (8 * i + b)"
    using assms(3) by (auto simp: flag_step_def and_mask_0 g split: if_splits)
  show "get_bit (test[i := x']) k = (if k = 8 * i + b then bit y b = pol else get_bit test k)"
    using assms gk unfolding k flag_step_def
    by (auto simp: and_mask_0 get_bit_update bit_or_mask bit_andnot_mask split: if_splits)
qed

lemma ex_eq_or: "(\<exists>k. (k = p \<or> Q k) \<and> R k) \<longleftrightarrow> R p \<or> (\<exists>k. Q k \<and> R k)"
  by blast

lemma flag_bits_spec:
  assumes "b < 8" and "8 * i + b + n \<le> 8 * length test" and "0 \<le> base"
    and "8 * (nat base + i) + b + n \<le> 8 * length data"
  shows "\<exists>r' test'. flag_bits pol data base n b i r test = Some (r', test') \<and> length test' = length test \<and>
    (\<forall>k. get_bit test' k =
       (if 8 * i + b \<le> k \<and> k < 8 * i + b + n then bit_at data base k = pol else get_bit test k)) \<and>
    (r' \<longleftrightarrow> r \<or> (\<exists>k. 8 * i + b \<le> k \<and> k < 8 * i + b + n \<and> bit_at data base k = pol \<and> \<not> get_bit test k))"
  using assms(1,2,4)
proof (induction n arbitrary: b i r test)
  case 0
  then show ?case by auto
next
  case (Suc n)
  let ?p = "8 * i + b"
  have it: "i < length test" using Suc.prems(2) by simp
  have "8 * (nat base + i) < 8 * length data" using Suc.prems(3) by simp
  then have idd: "nat base + i < length data" by simp
  define y where "y = data ! (nat base + i)"
  have yb: "bit y b = bit_at data base ?p" using Suc.prems(1) by (simp add: y_def bit_at_def)
  obtain r1 x' where st: "flag_step pol y (test ! i) b = (r1, x')" by fastforce
  define test1 where "test1 = test[i := x']"
  note sp = flag_step_spec [OF Suc.prems(1) it st, folded test1_def]
  have lt: "length test1 = length test" by (simp add: test1_def)
  have gt: "arr_get test (int i) = Some (test ! i)" using it by simp
  have gd: "arr_get data (base + int i) = Some y"
    using idd assms(3) by (simp add: arr_get_def y_def nat_add_distrib)
  define b' i' where "b' = (if b + 1 = 8 then 0 else b + 1)" and "i' = (if b + 1 = 8 then i + 1 else i)"
  have p': "8 * i' + b' = ?p + 1" "b' < 8" using Suc.prems(1) by (auto simp: b'_def i'_def)
  have rec: "flag_bits pol data base (Suc n) b i r test = flag_bits pol data base n b' i' (r \<or> r1) test1"
    using st by (simp add: gt gd b'_def i'_def test1_def)
  have pre: "8 * i' + b' + n \<le> 8 * length test1" "8 * (nat base + i') + b' + n \<le> 8 * length data"
    using Suc.prems p' lt by auto
  from Suc.IH [OF p'(2) pre, of "r \<or> r1"] obtain r' test' where
    ih: "flag_bits pol data base n b' i' (r \<or> r1) test1 = Some (r', test')" "length test' = length test1"
      "\<forall>k. get_bit test' k = (if ?p + 1 \<le> k \<and> k < ?p + 1 + n then bit_at data base k = pol else get_bit test1 k)"
      "r' \<longleftrightarrow> (r \<or> r1) \<or> (\<exists>k. ?p + 1 \<le> k \<and> k < ?p + 1 + n \<and> bit_at data base k = pol \<and> \<not> get_bit test1 k)"
    unfolding p'(1) by blast
  have t1: "get_bit test1 k = (if k = ?p then bit_at data base ?p = pol else get_bit test k)" for k
    using sp(1) yb by simp
  have range: "(?p \<le> k \<and> k < ?p + Suc n) = (k = ?p \<or> ?p + 1 \<le> k \<and> k < ?p + 1 + n)" for k by auto
  have "get_bit test' k = (if ?p \<le> k \<and> k < ?p + Suc n then bit_at data base k = pol else get_bit test k)" for k
    unfolding range using ih(3) t1 by auto
  moreover have "r' \<longleftrightarrow> r \<or> (\<exists>k. ?p \<le> k \<and> k < ?p + Suc n \<and> bit_at data base k = pol \<and> \<not> get_bit test k)"
  proof -
    have r1: "r1 \<longleftrightarrow> bit_at data base ?p = pol \<and> \<not> get_bit test ?p" using sp(2) yb by simp
    have tk: "?p + 1 \<le> k \<Longrightarrow> get_bit test1 k = get_bit test k" for k using t1 by simp
    have ex: "(\<exists>k. ?p + 1 \<le> k \<and> k < ?p + 1 + n \<and> bit_at data base k = pol \<and> \<not> get_bit test1 k) =
        (\<exists>k. (?p + 1 \<le> k \<and> k < ?p + 1 + n) \<and> bit_at data base k = pol \<and> \<not> get_bit test k)"
      by (rule ex_cong1) (simp add: tk cong: conj_cong)
    show ?thesis unfolding ih(4) r1 ex unfolding conj_assoc [symmetric, of "_ \<le> _"] range ex_eq_or by simp
  qed
  ultimately show ?case using ih(1,2) rec lt by auto
qed

text \<open>Flags that do not suffice for the bits: the loop runs out of the block.\<close>

lemma flag_bits_overrun:
  assumes "b < 8" and "8 * i + b \<le> 8 * length test" and "8 * length test < 8 * i + b + n"
  shows "flag_bits pol data base n b i r test = None"
  using assms
proof (induction n arbitrary: b i r test)
  case (Suc n)
  show ?case
  proof (cases "arr_get data (base + int i)")
    case None
    then show ?thesis by simp
  next
    case (Some y)
    show ?thesis
    proof (cases "i < length test")
      case False
      then show ?thesis using Some by (simp add: arr_get_def)
    next
      case True
      obtain hit x' where st: "flag_step pol y (test ! i) b = (hit, x')" by fastforce
      have "flag_bits pol data base n (if b + 1 = 8 then 0 else b + 1) (if b + 1 = 8 then i + 1 else i)
          (r \<or> hit) (test[i := x']) = None"
        using Suc.prems True by (intro Suc.IH) auto
      then show ?thesis using Some True st by (simp split: if_splits)
    qed
  qed
qed simp

lemma flag_bits_None:
  assumes "b < 8" and "0 \<le> base" and "8 * i + b \<le> 8 * length test" and "8 * (nat base + i) + b + n \<le> 8 * length data"
  shows "flag_bits pol data base n b i r test = None \<longleftrightarrow> 8 * length test < 8 * i + b + n"
proof (cases "8 * length test < 8 * i + b + n")
  case True
  then show ?thesis using flag_bits_overrun [OF assms(1,3)] by simp
next
  case False
  then show ?thesis using flag_bits_spec [OF assms(1) _ assms(2,4), of test pol r] by auto
qed

text \<open>The loop over the bits of a change event ends under the same condition.\<close>

lemma change_bits_None:
  assumes "b < 8" and "0 \<le> base" and "8 * i + b \<le> 8 * length test" and "8 * (nat base + i) + b + n \<le> 8 * length data"
  shows "change_bits data base n b i r test = None \<longleftrightarrow> 8 * length test < 8 * i + b + n"
  using assms(1,3,4)
proof (induction n arbitrary: b i r test)
  case (Suc n)
  have "8 * (nat base + i) < 8 * length data" using Suc.prems(3) by simp
  then have gd: "arr_get data (base + int i) = Some (data ! (nat base + i))"
    using assms(2) by (simp add: arr_get_def nat_add_distrib)
  show ?case
  proof (cases "i < length test")
    case False
    then show ?thesis using Suc.prems(2) by (simp add: arr_get_def)
  next
    case True
    define y where "y = data ! (nat base + i)"
    define c where "c \<longleftrightarrow> test ! i AND bit_mask b \<noteq> y AND bit_mask b"
    define r' test' where "r' = (if c then True else r)" and "test' = (if c then test[i := y] else test)"
    have len: "length test' = length test" by (simp add: test'_def)
    have "change_bits data base n (if b + 1 = 8 then 0 else b + 1) (if b + 1 = 8 then i + 1 else i) r' test' = None \<longleftrightarrow>
        8 * length test' < 8 * i + b + Suc n"
      using Suc.prems True len by (subst Suc.IH) auto
    moreover have "change_bits data base (Suc n) b i r test =
        change_bits data base n (if b + 1 = 8 then 0 else b + 1) (if b + 1 = 8 then i + 1 else i) r' test'"
      using gd True by (cases c; cases "b + 1 = 8") (auto simp: y_def [symmetric] c_def r'_def test'_def)
    ultimately show ?thesis using len by simp
  qed
qed simp

section \<open>Events on BOOLs from their registration on\<close>

definition flag_bytes :: "dax_event \<Rightarrow> nat" where
  "flag_bytes ev = nat ((e_count ev - 1) div 8 + 1)"

text \<open>The block that an event on BOOLs gets: one bit for each of them, rounded up to bytes.\<close>

lemma set_event_flags:
  assumes "e_eventtype ev \<in> {EVENT_CHANGE, EVENT_SET, EVENT_RESET}" and "e_datatype ev = DAX_BOOL" and "0 < e_count ev"
    and "set_event_data E dts ev tagdata data = Some (Inr ev')"
  shows "\<exists>test. ev' = ev\<lparr>e_data := None, e_test := Some test\<rparr> \<and> length test = flag_bytes ev \<and>
    (e_eventtype ev \<noteq> EVENT_CHANGE \<longrightarrow> test = replicate (flag_bytes ev) 0)"
proof -
  define B where "B = (e_count ev - 1) div 8 + 1"
  have pos: "0 < B" using assms(3) by (simp add: B_def pos_imp_zdiv_nonneg_iff add_nonneg_pos)
  have sizes: "event_sizes dts ev = Some (0, B)" using assms(1-3) by (auto simp: event_sizes_def cdiv_def B_def)
  have len: "length x = nat B" if "mem_get tagdata i B = Some x" for i x
    using that by (auto simp: mem_get_def split: if_splits)
  show ?thesis
  proof (cases "e_eventtype ev = EVENT_CHANGE")
    case True
    then show ?thesis
      using assms(4) pos len by (auto simp: set_event_data_def sizes flag_bytes_def B_def [symmetric] split: if_splits)
  next
    case False
    with assms(1) have "e_eventtype ev = EVENT_SET \<or> e_eventtype ev = EVENT_RESET" by simp
    then have "set_event_data E dts ev tagdata data =
        Some (if alloc E A_event_test then Inr (ev\<lparr>e_data := None, e_test := Some (replicate (nat B) 0)\<rparr>) else Inl ERR_ALLOC)"
      using pos by (elim disjE) (simp_all add: set_event_data_def sizes)
    then show ?thesis
      using assms(4) by (intro exI [of _ "replicate (nat B) 0"]) (simp add: flag_bytes_def B_def [symmetric] split: if_splits)
  qed
qed

text \<open>The checks of an event after writes: the data of the tag, the offset and the size of each write.\<close>

primrec event_run ::
  "env \<Rightarrow> dax_event \<Rightarrow> (byte list \<times> int \<times> int) list \<Rightarrow> (bool list \<times> dax_event) option" where
  "event_run E ev [] = Some ([], ev)"
| "event_run E ev (w # ws) =
    do {
      (hit, ev1) \<leftarrow> event_hit E ev (fst w) (fst (snd w)) (snd (snd w));
      (hits, ev2) \<leftarrow> event_run E ev1 ws;
      Some (hit # hits, ev2)
    }"

text \<open>When does a bit of a set \<open>R\<close> come up that was down before, in a sequence of states?\<close>

primrec edges :: "nat set \<Rightarrow> (nat \<Rightarrow> bool) \<Rightarrow> (nat \<Rightarrow> bool) list \<Rightarrow> bool list" where
  "edges R before [] = []"
| "edges R before (now # later) = (\<exists>k\<in>R. now k \<and> \<not> before k) # edges R now later"

definition event_bits :: "dax_event \<Rightarrow> nat set" where
  "event_bits ev = {unat (e_bit ev)..<unat (e_bit ev) + nat (e_count ev)}"

lemma edges_cong: "(\<And>k. k \<in> R \<Longrightarrow> before k = before' k) \<Longrightarrow> edges R before xs = edges R before' xs"
  by (cases xs) auto

lemma flag_event_hit:
  assumes "e_eventtype ev = (if up then EVENT_SET else EVENT_RESET)" and "e_bit ev < 8" and "0 \<le> e_byte ev"
    and "e_test ev = Some test" and "unat (e_bit ev) + nat (e_count ev) \<le> 8 * length test"
    and "8 * nat (e_byte ev) + unat (e_bit ev) + nat (e_count ev) \<le> 8 * length data"
  shows "\<exists>test'. event_hit E ev data offset sz =
      Some (\<exists>k\<in>event_bits ev. bit_at data (e_byte ev) k = up \<and> \<not> get_bit test k, ev\<lparr>e_test := Some test'\<rparr>) \<and>
    length test' = length test \<and> (\<forall>k\<in>event_bits ev. get_bit test' k = (bit_at data (e_byte ev) k = up))"
proof -
  have b: "unat (e_bit ev) < 8" using assms(2) by (simp add: word_less_nat_alt)
  from flag_bits_spec [OF b, of 0 "nat (e_count ev)" test "e_byte ev" data up False] assms(3,5,6) obtain r test' where
    f0: "flag_bits up data (e_byte ev) (nat (e_count ev)) (unat (e_bit ev)) 0 False test = Some (r, test')"
    "length test' = length test"
    "\<forall>k. get_bit test' k = (if unat (e_bit ev) \<le> k \<and> k < unat (e_bit ev) + nat (e_count ev)
       then bit_at data (e_byte ev) k = up else get_bit test k)"
    "r \<longleftrightarrow> (\<exists>k. unat (e_bit ev) \<le> k \<and> k < unat (e_bit ev) + nat (e_count ev) \<and>
       bit_at data (e_byte ev) k = up \<and> \<not> get_bit test k)" by auto
  have f: "\<forall>k\<in>event_bits ev. get_bit test' k = (bit_at data (e_byte ev) k = up)"
    "r \<longleftrightarrow> (\<exists>k\<in>event_bits ev. bit_at data (e_byte ev) k = up \<and> \<not> get_bit test k)"
    using f0(3,4) unfolding event_bits_def atLeastLessThan_iff Bex_def Ball_def by (simp_all add: conj_assoc)
  have "event_hit E ev data offset sz = Some (r, ev\<lparr>e_test := Some test'\<rparr>)"
    using assms(1,4) f0(1) by (cases up) (simp_all add: event_hit_def event_set_def event_reset_def ptr_bytes_def put_test_def)
  then show ?thesis using f f0(2) by (intro exI [of _ test']) simp
qed

lemma flag_event_run:
  assumes "e_eventtype ev = (if up then EVENT_SET else EVENT_RESET)" and "e_bit ev < 8" and "0 \<le> e_byte ev"
    and "e_test ev = Some test" and "unat (e_bit ev) + nat (e_count ev) \<le> 8 * length test"
    and "\<forall>w\<in>set ws. 8 * nat (e_byte ev) + unat (e_bit ev) + nat (e_count ev) \<le> 8 * length (fst w)"
  shows "\<exists>ev'. event_run E ev ws =
    Some (edges (event_bits ev) (get_bit test) (map (\<lambda>w k. bit_at (fst w) (e_byte ev) k = up) ws), ev')"
  using assms
proof (induction ws arbitrary: ev test)
  case (Cons w ws)
  from flag_event_hit [OF Cons.prems(1-5), of "fst w" E] Cons.prems(6) obtain test' where
    h: "event_hit E ev (fst w) (fst (snd w)) (snd (snd w)) =
      Some (\<exists>k\<in>event_bits ev. bit_at (fst w) (e_byte ev) k = up \<and> \<not> get_bit test k, ev\<lparr>e_test := Some test'\<rparr>)"
    "length test' = length test" "\<forall>k\<in>event_bits ev. get_bit test' k = (bit_at (fst w) (e_byte ev) k = up)" by force
  have same: "event_bits (ev\<lparr>e_test := Some test'\<rparr>) = event_bits ev" by (simp add: event_bits_def)
  from Cons.IH [of "ev\<lparr>e_test := Some test'\<rparr>" test'] Cons.prems h(2) obtain ev' where
    "event_run E (ev\<lparr>e_test := Some test'\<rparr>) ws =
      Some (edges (event_bits ev) (get_bit test') (map (\<lambda>w k. bit_at (fst w) (e_byte ev) k = up) ws), ev')"
    unfolding same by auto
  moreover have "edges (event_bits ev) (get_bit test') xs =
      edges (event_bits ev) (\<lambda>k. bit_at (fst w) (e_byte ev) k = up) xs" for xs
    using h(3) by (intro edges_cong) simp
  ultimately show ?case using h(1) by simp
qed simp

end
