(* ===== verification/Core_Properties.thy ===== *)
theory Core_Properties
  imports Type_Table Tag_Queue Event_Laws
begin

text \<open>
  Properties of the data types, the tag name index, the list of modules, the tag queues and the
  event tests.
\<close>

section \<open>Data types\<close>

text \<open>C16: The size of a compound type that the server computes with 32 bit arithmetic is the size of
  the ideal layout in unbounded arithmetic (BOOLs packed bit by bit, everything else at the next
  byte), for every type of a well-formed table whose layouts fit into 32 bits.\<close>

theorem type_size_layout:
  assumes "wf_cdts dts" and "cdts_fit dts" and "j < length dts"
  shows "type_size dts (CDT_TO_TYPE (of_nat j)) = Some (int (ideal_size dts (CDT_TO_TYPE (of_nat j))))"
  using assms by (rule type_size_ideal)

definition sample_types :: "cdt list" where
  "sample_types =
    [\<lparr>d_name = ''pair'', d_flags = 0, d_refcount = 0,
      d_members = [\<lparr>m_name = ''a'', m_type = DAX_BOOL, m_count = 3\<rparr>,
                   \<lparr>m_name = ''b'', m_type = DAX_INT, m_count = 2\<rparr>]\<rparr>,
     \<lparr>d_name = ''two'', d_flags = 0, d_refcount = 0,
      d_members = [\<lparr>m_name = ''c'', m_type = CDT_TO_TYPE 0, m_count = 2\<rparr>,
                   \<lparr>m_name = ''d'', m_type = DAX_BOOL, m_count = 9\<rparr>]\<rparr>]"

lemma sample_ref: "CDT_TO_TYPE 0 = (0x80000000 :: u32)" "CDT_TO_TYPE 1 = (0x80000001 :: u32)"
  by (simp_all add: CDT_TO_TYPE_def)

lemma sample_wf: "wf_cdts sample_types"
proof -
  have "wf_cdt 0 (sample_types ! 0)" "wf_cdt 1 (sample_types ! 1)"
    by (simp_all add: sample_types_def wf_cdt_def cdt_ref_ok_def base_types_def base_names_def
        validate_name_def DAX_TAGNAME_SIZE_def isalpha_def isdigit_def name_char_def lname_def str_eval)
  moreover have "distinct (map (lname \<circ> d_name) sample_types)"
    by (simp add: sample_types_def lname_def str_eval)
  moreover have "length sample_types = 2" by (simp add: sample_types_def)
  ultimately show ?thesis by (auto simp: wf_cdts_def MAX_CDTS_def less_2_cases_iff)
qed

lemma sample_len: "length sample_types = Suc (Suc 0)"
  by (simp add: sample_types_def)

lemma sample_members:
  "d_members (sample_types ! 0) =
    [\<lparr>m_name = ''a'', m_type = DAX_BOOL, m_count = 3\<rparr>, \<lparr>m_name = ''b'', m_type = DAX_INT, m_count = 2\<rparr>]"
  "d_members (sample_types ! Suc 0) =
    [\<lparr>m_name = ''c'', m_type = 0x80000000, m_count = 2\<rparr>, \<lparr>m_name = ''d'', m_type = DAX_BOOL, m_count = 9\<rparr>]"
  by (simp_all add: sample_types_def sample_ref)

lemma sample_ideal:
  "ideal_size sample_types 0x80000000 = 5" "ideal_size sample_types 0x80000001 = 12"
  unfolding ideal_size_def sample_len
  by (simp_all add: sample_members IS_CUSTOM_def CDT_TO_INDEX_def
      member_start_def member_bits_def round8_def TYPESIZE_def)

lemma sample_fit: "cdts_fit sample_types"
  unfolding cdts_fit_def sample_len ideal_bits_def
  by (auto simp: less_Suc_eq sample_members sample_ideal member_start_def member_bits_def round8_def
      TYPESIZE_def IS_CUSTOM_def)

theorem type_size_layout_witness: "type_size sample_types 0x80000001 = Some 12"
  using type_size_layout [OF sample_wf sample_fit, of 1] by (simp add: sample_len sample_ref sample_ideal)

text \<open>C17: The table of compound types survives a round trip through its serialization: every type
  serializes to a definition string, and creating the types from these strings one after the other
  in an empty table gives the same types with the same type codes.\<close>

theorem type_table_roundtrip:
  assumes "wf_cdts dts" and "alloc_all E" and "cdts s = []"
  shows "\<exists>strs s'. length strs = length dts \<and>
    (\<forall>i<length dts. serialize_datatype E dts (CDT_TO_TYPE (of_nat i)) = Some (Inr (strs ! i))) \<and>
    create_types E s strs = Some s' \<and> cdts s' = map cdt_fresh dts"
proof -
  define strs where "strs = map (\<lambda>i. cdt_str dts (dts ! i)) [0..<length dts]"
  have "\<exists>s'. create_types E s strs = Some s' \<and> cdts s' = map cdt_fresh dts"
    unfolding strs_def using assms by (intro create_types_from [of _ _ 0]) simp_all
  moreover have "\<forall>i<length dts. serialize_datatype E dts (CDT_TO_TYPE (of_nat i)) = Some (Inr (strs ! i))"
    using assms(1,2) by (simp add: strs_def serialize_cdt)
  moreover have "length strs = length dts" by (simp add: strs_def)
  ultimately show ?thesis by blast
qed

theorem type_table_roundtrip_witness:
  "\<exists>strs s'. length strs = 2 \<and> create_types env0 (server_empty 1) strs = Some s' \<and>
    cdts s' = map cdt_fresh sample_types"
  using type_table_roundtrip [OF sample_wf alloc_all_env0, of "server_empty 1"]
  by (auto simp: server_empty_def sample_len numeral_2_eq_2)

text \<open>C25: A string that does not name a known type and parses adds exactly one type to the table, in
  the next free position; any other outcome of creating a type leaves the table as it was. In each
  case the table stays well-formed: names are valid and pairwise different (ignoring case),
  differ from the base types, and members refer only to types created before.\<close>

theorem cdt_create_keeps_table:
  assumes "cdt_create E s str = Some (t, e, s')" and "wf_cdts (cdts s)" and "length (cdts s) < MAX_CDTS"
  shows "wf_cdts (cdts s') \<and>
    (if e = Some 0 then t = CDT_TO_TYPE (of_nat (length (cdts s))) \<and> (\<exists>d. cdts s' = cdts s @ [d])
     else cdts s' = cdts s)"
proof (cases "e = Some 0")
  case True
  from cdt_create_new [OF assms(1) [unfolded True]]
  have "t = CDT_TO_TYPE (of_nat (length (cdts s))) \<and> (\<exists>d. cdts s' = cdts s @ [d])" by (metis server.select_convs(9) server.surjective server.update_convs(9,10))
  with True cdt_create_wf_table [OF assms] show ?thesis by simp
next
  case False
  with cdt_create_same [OF assms(1)] assms(2) show ?thesis by simp
qed

theorem cdt_create_keeps_table_witness:
  "\<exists>t s'. cdt_create env0 (server_empty 1) (cdt_str sample_types (sample_types ! 0)) = Some (t, Some 0, s') \<and>
    t = CDT_TO_TYPE 0 \<and> wf_cdts (cdts s')"
proof -
  have e: "cdts (server_empty n) = []" for n by (simp add: server_empty_def)
  have "0 < length sample_types" "cdts (server_empty 1) = take 0 (map cdt_fresh sample_types)"
    by (simp_all add: e sample_len)
  from cdt_create_next [OF sample_wf this alloc_all_env0] obtain t s' where
    c: "cdt_create env0 (server_empty 1) (cdt_str sample_types (sample_types ! 0)) = Some (t, Some 0, s')" by blast
  from cdt_create_keeps_table [OF c] show ?thesis using c by (auto simp: e wf_cdts_def MAX_CDTS_def)
qed

section \<open>The index of tag names\<close>

text \<open>C21: The sorted array with its bisection is a map from names to tag indices: adding a name that
  is not there succeeds when there is room, afterwards the name is found with its index, every
  other name is found or not found as before, and the array stays sorted.\<close>

theorem name_index_add:
  assumes "idx_inv (idx_of s)" and "idx_room (idx_of s)" and "idx_lookup (idx_of s) name = None"
    and "alloc E A_index_name" and "get_tag s i = Some t"
  shows "\<exists>s'. add_index E s name i = Some (0, s') \<and> idx_inv (idx_of s') \<and>
    get_by_name s' name = Some i \<and> (\<forall>other. other \<noteq> name \<longrightarrow> get_by_name s' other = get_by_name s other)"
proof -
  from add_index_spec [OF assms] obtain ix where ix: "add_index E s name i =
      Some (0, (set_tag s i (t\<lparr>t_name := Some name\<rparr>))\<lparr>name_index := ix_arr ix, indexcount := ix_count ix\<rparr>)"
    "idx_inv ix" "ix_size ix = dbsize s" "idx_lookup ix = (idx_lookup (idx_of s))(name \<mapsto> i)" by blast
  define s' where
    "s' = (set_tag s i (t\<lparr>t_name := Some name\<rparr>))\<lparr>name_index := ix_arr ix, indexcount := ix_count ix\<rparr>"
  have "idx_of s' = ix" using ix(3) by (simp add: idx_of_def s'_def name_idx_eta)
  then have inv: "idx_inv (idx_of s')" and look: "idx_lookup (idx_of s') = (idx_lookup (idx_of s))(name \<mapsto> i)"
    using ix(2,4) by simp_all
  have "add_index E s name i = Some (0, s')" using ix(1) by (simp add: s'_def)
  then show ?thesis
    using inv get_by_name_lookup [OF inv] get_by_name_lookup [OF assms(1)] look by auto
qed

theorem name_index_add_witness:
  "\<exists>s'. add_index env0 (server_empty 4) ''pump'' 2 = Some (0, s') \<and> get_by_name s' ''pump'' = Some 2"
proof -
  let ?s = "server_empty 4"
  have "idx_inv (idx_of ?s)" "idx_room (idx_of ?s)"
    by (simp_all add: server_empty_def idx_inv_def idx_room_def idx_of_def idx_entries_def)
  moreover have "idx_lookup (idx_of ?s) ''pump'' = None"
    by (simp add: server_empty_def idx_lookup_def idx_of_def idx_search.simps)
  moreover have "get_tag ?s 2 = Some tag_zero"
    by (simp add: server_empty_def get_tag_def arr_get_def)
  ultimately show ?thesis
    using name_index_add [of ?s "''pump''" env0 2 tag_zero] by (auto simp: env0_def)
qed

text \<open>C22: Removing a name from the index, which must be there, takes that name away and no other.\<close>

theorem name_index_del:
  assumes "idx_inv (idx_of s)" and "idx_lookup (idx_of s) name \<noteq> None"
  shows "\<exists>s'. del_index s name = Some s' \<and> idx_inv (idx_of s') \<and>
    get_by_name s' name = Some ERR_NOTFOUND \<and>
    (\<forall>other. other \<noteq> name \<longrightarrow> get_by_name s' other = get_by_name s other)"
proof -
  from del_index_spec [OF assms] obtain ix where
    ix: "del_index s name = Some (s\<lparr>name_index := ix_arr ix, indexcount := ix_count ix\<rparr>)"
    "idx_inv ix" "ix_size ix = dbsize s" "idx_lookup ix = (idx_lookup (idx_of s))(name := None)" by blast
  define s' where "s' = s\<lparr>name_index := ix_arr ix, indexcount := ix_count ix\<rparr>"
  have "idx_of s' = ix" using ix(3) by (simp add: idx_of_def s'_def name_idx_eta)
  then have inv: "idx_inv (idx_of s')" and look: "idx_lookup (idx_of s') = (idx_lookup (idx_of s))(name := None)"
    using ix(2,4) by simp_all
  have "del_index s name = Some s'" using ix(1) by (simp add: s'_def)
  then show ?thesis
    using inv get_by_name_lookup [OF inv] get_by_name_lookup [OF assms(1)] look by auto
qed

definition one_name :: server where
  "one_name = (server_empty 2)\<lparr>name_index := [(''pump'', 1), ([], 0)], indexcount := 1\<rparr>"

theorem name_index_del_witness:
  "\<exists>s'. del_index one_name ''pump'' = Some s' \<and> get_by_name s' ''pump'' = Some ERR_NOTFOUND"
proof -
  have inv: "idx_inv (idx_of one_name)"
    by (simp add: one_name_def server_empty_def idx_inv_def idx_of_def idx_entries_def)
  have "idx_lookup (idx_of one_name) ''pump'' \<noteq> None"
    unfolding idx_lookup_map_of [OF inv] by (simp add: one_name_def server_empty_def idx_of_def idx_entries_def)
  with name_index_del [OF inv] show ?thesis by blast
qed

section \<open>The list of modules\<close>

text \<open>C23: The circular doubly linked list of modules implements a list: adding a module and searching
  for its descriptor finds it, and a search of any descriptor ends and keeps the same modules in
  the ring, so that no walk around it can run forever.\<close>

theorem module_ring_search:
  assumes "ring_list r xs" and "m \<notin> set xs" and "fds m = fd"
  shows "(\<exists>r'. ring_find fds (ring_add r m) fd = Some (Some m, r') \<and> ring_list r' (list_add xs m)) \<and>
    (\<forall>fd'. \<exists>x r' ys. ring_find fds (ring_add r m) fd' = Some (x, r') \<and> ring_list r' ys \<and>
      set ys = insert m (set xs))"
proof -
  have add: "ring_list (ring_add r m) (list_add xs m)" by (rule mod_ring.radd_rep [OF assms(1,2)])
  have "set (list_add xs m) = insert m (set xs)" by (auto simp: list_add_def split: list.split)
  with mod_ring.find_added [where fds = fds, OF assms] mod_ring.find_keeps [OF add] show ?thesis by metis
qed

definition two_ring :: ring where
  "two_ring = \<lparr>r_next = (\<lambda>n. 1 - n), r_prev = (\<lambda>n. 1 - n), r_cur = Some 0\<rparr>"

theorem module_ring_search_witness:
  "\<exists>r'. ring_find (\<lambda>n. int n + 5) (ring_add two_ring 7) 12 = Some (Some 7, r')"
proof -
  have "ring_list two_ring [0, 1]" by (simp add: two_ring_def)
  from module_ring_search [OF this, of 7 "\<lambda>n. int n + 5" 12] show ?thesis by auto
qed

text \<open>C24: Deleting a module from the ring unlinks exactly that module, also when it is the current or
  the last one.\<close>

theorem module_ring_del:
  assumes "ring_list r xs" and "m \<in> set xs"
  shows "ring_list (ring_del r m) (remove1 m xs)"
  using assms by (rule mod_ring.rdel_rep)

theorem module_ring_del_witness: "ring_list (ring_del two_ring 0) [1]"
proof -
  have "ring_list two_ring [0, 1]" by (simp add: two_ring_def)
  from module_ring_del [OF this, of 0] show ?thesis by simp
qed

section \<open>Queues\<close>

text \<open>C15: A queue tag is a first-in first-out queue. Take any sequence of writes of whole items and reads in which a
  write never comes when as many items are queued as the array has slots, however long the sequence is. No step of it is
  undefined, its outputs are those of a plain list, where a write that finds no memory for its item is refused and
  changes nothing, no write is refused when there is memory, and the sizes of the items and of the array stay the same.\<close>

theorem queue_is_fifo:
  assumes "queue_inv q" and "\<forall>x. Enq x \<in> set ops \<longrightarrow> length x = unat (q_size q)"
    and "roomy (nat (q_qsize q)) (length (queue_items q)) ops"
  shows "\<exists>outs q'. queue_run (queue_enq E) queue_read q ops = Some (outs, q') \<and> queue_inv q' \<and>
    q_size q' = q_size q \<and> q_qsize q' = q_qsize q \<and>
    explains (queue_items q) ops outs (queue_items q') \<and> (alloc E A_queue_item \<longrightarrow> Q_refused \<notin> set outs)"
  using tag_fifo.run_explained [of q ops "length (queue_items q)" E] assms
  by (simp add: queue_fits_def queue_cap_def queue_kind_def)

theorem queue_is_fifo_witness:
  "\<exists>outs q'. queue_run (queue_enq env0) queue_read (new_queue DAX_INT 1 2) (concat (replicate 17 [Enq [1, 2], Deq])) =
      Some (outs, q') \<and> explains [] (concat (replicate 17 [Enq [1, 2], Deq])) outs (queue_items q')"
proof -
  let ?ops = "concat (replicate 17 [Enq [1, 2 :: byte], Deq])"
  have i: "queue_inv (new_queue DAX_INT 1 2)" "queue_items (new_queue DAX_INT 1 2) = []"
    using new_queue_inv [of DAX_INT 1 2] by blast+
  have s: "unat (q_size (new_queue DAX_INT 1 2)) = 2" "nat (q_qsize (new_queue DAX_INT 1 2)) = 16"
    by (simp_all add: new_queue_def u32_of_def START_QUEUE_SIZE_def)
  have r: "roomy 16 0 ?ops" "\<forall>x. Enq x \<in> set ?ops \<longrightarrow> length x = 2" by (simp_all add: numeral_eq_Suc)
  show ?thesis using queue_is_fifo [OF i(1), of ?ops env0] i(2) s r by auto
qed

text \<open>C33: A write to a full queue is undefined: the slot it looks at lies in the part of the array that
  was just added by \<^verbatim>\<open>realloc\<close>, which nobody initialized. The seventeenth item of a queue that
  nobody reads is such a write.\<close>

theorem queue_growth_undefined:
  assumes "queue_inv q" and "q_qcount q = q_qsize q" and "alloc E A_queue_grow"
  shows "queue_write E q 0 x (uint (q_size q)) = None"
  using assms by (rule queue_write_full)

definition full_queue :: tag_queue where
  "full_queue = \<lparr>q_type = DAX_BYTE, q_count = 1, q_size = 1, q_qsize = 2, q_qcount = 2, q_qread = 1,
     q_queue = [Ptr 0, Ptr 1], q_mem = [[7], [8]]\<rparr>"

theorem queue_growth_undefined_witness: "queue_write env0 full_queue 0 [9] 1 = None"
proof -
  have "queue_inv full_queue"
    by (simp add: full_queue_def queue_inv_def slot_ok_def is_ptr_def qpos_def less_Suc_eq numeral_2_eq_2)
  from queue_growth_undefined [OF this, of env0 "[9]"] show ?thesis by (simp add: full_queue_def env0_def)
qed

section \<open>Events\<close>

text \<open>C20: The intersection test of the event check, which mixes signed and unsigned arithmetic, is exact
  for ranges below 2 GiB: an event is examined if and only if the written bytes and the bytes of
  the event have a byte in common.\<close>

theorem event_touched_exact:
  assumes "0 \<le> offset" and "0 < sz" and "offset + sz \<le> 2 ^ 31"
    and "0 \<le> e_byte ev" and "e_byte ev + uint (e_size ev) \<le> 2 ^ 31" and "e_size ev \<noteq> 0"
  shows "event_touched ev offset sz \<longleftrightarrow>
    {offset..<offset + sz} \<inter> {e_byte ev..<e_byte ev + uint (e_size ev)} \<noteq> {}"
  using assms by (rule event_touched_iff)

definition sample_event :: dax_event where
  "sample_event = \<lparr>e_id = 1, e_byte = 2, e_bit = 0, e_count = 2, e_size = 4, e_options = 0, e_datatype = DAX_INT,
     e_eventtype = EVENT_CHANGE, e_data = None, e_test = Some [3, 4, 5, 6], e_notify = 0\<rparr>"

theorem event_touched_exact_witness:
  "event_touched sample_event 5 3 \<and> \<not> event_touched sample_event 6 3"
  using event_touched_exact [of 5 3 sample_event] event_touched_exact [of 6 3 sample_event]
  by (simp add: sample_event_def)

text \<open>C18: A change event on any type but BOOL fires exactly when a byte of its range differs from what
  was there before the write, and afterwards remembers the new bytes, whatever part of the range
  the write covered.\<close>

theorem change_event_exact:
  assumes "e_datatype ev \<noteq> DAX_BOOL" and "0 \<le> e_byte ev" and "e_size ev \<noteq> 0"
    and "e_byte ev + uint (e_size ev) \<le> int (length data)" and "length data < 2 ^ 31"
    and "e_test ev = Some (ev_slice ev data)"
    and "mem_put data offset src = Some data'" and "src \<noteq> []"
    and "event_touched ev offset (int (length src))"
  shows "event_change ev data' offset (int (length src)) =
    Some (ev_slice ev data \<noteq> ev_slice ev data', ev_slice ev data')"
  using assms by (rule event_change_exact)

theorem change_event_exact_witness:
  "event_change sample_event [1, 2, 3, 4, 5, 9, 8, 7] 5 2 = Some (True, [3, 4, 5, 9])"
proof -
  have put: "mem_put [1, 2, 3, 4, 5, 6, 7, 7] 5 [9, 8 :: byte] = Some [1, 2, 3, 4, 5, 9, 8, 7]"
    by (simp add: mem_put_def)
  have "event_touched sample_event 5 2" by (simp add: event_touched_def sample_event_def u32_of_def)
  with change_event_exact [OF _ _ _ _ _ _ put, of sample_event] show ?thesis
    by (simp add: sample_event_def ev_slice_def)
qed

definition bool_event :: dax_event where
  "bool_event = sample_event\<lparr>e_byte := 1, e_bit := 4, e_count := 4, e_datatype := DAX_BOOL, e_eventtype := EVENT_SET, e_test := None\<rparr>"

text \<open>C19: The history of a set event on BOOLs whose block of flags is long enough for them. Its first check after the
  registration fires when any bit of its range is set, even one that was set before the registration, as the flags start
  cleared whatever the tag holds; each later check fires exactly when a bit of the range is set that was clear at
  the check before it. A reset event does the same for cleared bits.\<close>

theorem set_event_history:
  assumes "e_eventtype ev = (if up then EVENT_SET else EVENT_RESET)" and "e_datatype ev = DAX_BOOL" and "e_bit ev < 8"
    and "0 \<le> e_byte ev" and "0 < e_count ev" and "unat (e_bit ev) + nat (e_count ev) \<le> 8 * flag_bytes ev"
    and "set_event_data E dts ev tagdata data = Some (Inr ev0)"
    and "\<forall>w\<in>set ws. 8 * nat (e_byte ev) + unat (e_bit ev) + nat (e_count ev) \<le> 8 * length (fst w)"
  shows "\<exists>ev'. event_run E ev0 ws =
    Some (edges (event_bits ev) (\<lambda>k. False) (map (\<lambda>w k. bit_at (fst w) (e_byte ev) k = up) ws), ev')"
proof -
  let ?z = "replicate (flag_bytes ev) (0 :: byte)"
  have t: "e_eventtype ev \<in> {EVENT_CHANGE, EVENT_SET, EVENT_RESET}" "e_eventtype ev \<noteq> EVENT_CHANGE"
    using assms(1) by (auto split: if_splits)
  from set_event_flags [OF t(1) assms(2,5,7)] t(2) have ev0: "ev0 = ev\<lparr>e_data := None, e_test := Some ?z\<rparr>" by auto
  have bits: "event_bits ev0 = event_bits ev" by (simp add: ev0 event_bits_def)
  have "\<exists>ev'. event_run E ev0 ws =
      Some (edges (event_bits ev0) (get_bit ?z) (map (\<lambda>w k. bit_at (fst w) (e_byte ev0) k = up) ws), ev')"
    using assms(1,3,4,6,8) by (intro flag_event_run) (simp_all add: ev0)
  moreover have "edges (event_bits ev) (get_bit ?z) xs = edges (event_bits ev) (\<lambda>k. False) xs" for xs
    using assms(6) by (intro edges_cong) (simp add: event_bits_def get_bit_def div_less_iff_less_mult mult.commute)
  ultimately show ?thesis unfolding bits by (simp add: ev0)
qed

theorem set_event_history_witness:
  "\<exists>ev0 ev'. set_event_data env0 [] bool_event [0, 0x20] [] = Some (Inr ev0) \<and>
    event_run env0 ev0 [([0, 0x20], 1, 1), ([0, 0x20], 1, 1), ([0, 0], 1, 1), ([0, 0x30], 1, 1)] =
      Some ([True, False, False, True], ev')"
proof -
  let ?ws = "[([0, 0x20 :: byte], 1 :: int, 1 :: int), ([0, 0x20], 1, 1), ([0, 0], 1, 1), ([0, 0x30], 1, 1)]"
  obtain ev0 where e: "set_event_data env0 [] bool_event [0, 0x20] [] = Some (Inr ev0)"
    by (simp add: set_event_data_def event_sizes_def bool_event_def sample_event_def cdiv_def env0_def)
  have bits: "event_bits bool_event = {4, 5, 6, 7}"
    by (auto simp: event_bits_def bool_event_def sample_event_def)
  have "\<exists>ev'. event_run env0 ev0 ?ws =
      Some (edges (event_bits bool_event) (\<lambda>k. False) (map (\<lambda>w k. bit_at (fst w) (e_byte bool_event) k = True) ?ws), ev')"
    by (rule set_event_history [OF _ _ _ _ _ _ e]) (simp_all add: bool_event_def sample_event_def flag_bytes_def)
  moreover have "edges (event_bits bool_event) (\<lambda>k. False) (map (\<lambda>w k. bit_at (fst w) (e_byte bool_event) k = True) ?ws) =
      [True, False, False, True]"
    unfolding bits by (simp add: bool_event_def sample_event_def bit_at_def bit_numeral_rec)
  ultimately show ?thesis using e by auto
qed

text \<open>C34: The block of a change, set or reset event on BOOLs has a bit for each BOOL, rounded up to bytes, but the check
  goes through it from the position of the first BOOL in its byte on. So for a tag that holds the whole range the check is
  undefined, as it leaves the block, exactly when that position plus the number of BOOLs exceeds the bits of the block, for example
  for eight BOOLs from bit 4 on.\<close>

theorem bool_event_overrun:
  assumes "e_eventtype ev \<in> {EVENT_CHANGE, EVENT_SET, EVENT_RESET}" and "e_datatype ev = DAX_BOOL" and "e_bit ev < 8"
    and "0 \<le> e_byte ev" and "0 < e_count ev" and "set_event_data E dts ev tagdata data = Some (Inr ev0)"
    and "8 * nat (e_byte ev) + unat (e_bit ev) + nat (e_count ev) \<le> 8 * length d"
  shows "event_hit E ev0 d offset sz = None \<longleftrightarrow> 8 * flag_bytes ev < unat (e_bit ev) + nat (e_count ev)"
proof -
  from set_event_flags [OF assms(1,2,5,6)] obtain test where
    ev0: "ev0 = ev\<lparr>e_data := None, e_test := Some test\<rparr>" "length test = flag_bytes ev" by auto
  have b: "unat (e_bit ev) < 8" using assms(3) by (simp add: word_less_nat_alt)
  have "0 < flag_bytes ev" using assms(5) by (simp add: flag_bytes_def pos_imp_zdiv_nonneg_iff add_nonneg_pos)
  then have pre: "8 * 0 + unat (e_bit ev) \<le> 8 * length test" using b ev0(2) by simp
  have n: "flag_bits pol d (e_byte ev) (nat (e_count ev)) (unat (e_bit ev)) 0 False test = None \<longleftrightarrow>
      8 * flag_bytes ev < unat (e_bit ev) + nat (e_count ev)"
    "change_bits d (e_byte ev) (nat (e_count ev)) (unat (e_bit ev)) 0 False test = None \<longleftrightarrow>
      8 * flag_bytes ev < unat (e_bit ev) + nat (e_count ev)" for pol
    using flag_bits_None [OF b assms(4) pre, of "nat (e_count ev)" d pol False]
      change_bits_None [OF b assms(4) pre, of "nat (e_count ev)" d False] assms(7) ev0(2) by simp_all
  show ?thesis
    using assms(1,2) by (auto simp: ev0(1) event_hit_def event_set_def event_reset_def event_change_def ptr_bytes_def n)
qed

theorem bool_event_overrun_witness:
  "\<exists>ev0. set_event_data env0 [] (bool_event\<lparr>e_count := 8\<rparr>) [0, 0, 0] [] = Some (Inr ev0) \<and>
    event_hit env0 ev0 [0, 0, 0] 1 2 = None"
proof -
  let ?ev = "bool_event\<lparr>e_count := 8\<rparr>"
  obtain ev0 where e: "set_event_data env0 [] ?ev [0, 0, 0] [] = Some (Inr ev0)"
    by (simp add: set_event_data_def event_sizes_def bool_event_def sample_event_def cdiv_def env0_def)
  from bool_event_overrun [OF _ _ _ _ _ e, of "[0, 0, 0]"] have "event_hit env0 ev0 [0, 0, 0] 1 2 = None"
    by (simp add: bool_event_def sample_event_def flag_bytes_def)
  with e show ?thesis by blast
qed

end
