(* ===== verification/Db_View.thy ===== *)
theory Db_View
  imports Tag_Admin Event_Laws
begin

text \<open>
  The part of the server that the consistency of the database depends on: for every tag its name,
  type, count and the kind and size of its data area, the index, the counters, the types, and the
  list of modules.
  Most operations leave this view as it is; the lemmas here say so for the operations of
  \<^verbatim>\<open>tagbase.c\<close> and \<^verbatim>\<open>virtualtag.c\<close> that only move data.
\<close>

datatype tag_shape = Sh_null | Sh_block nat | Sh_virt

definition data_shape :: "tag_data \<Rightarrow> tag_shape" where
  "data_shape d = (case d of D_null \<Rightarrow> Sh_null | D_block b \<Rightarrow> Sh_block (length b) | D_virt _ _ _ \<Rightarrow> Sh_virt)"

record tag_core =
  c_name :: "string option"
  c_type :: u32
  c_count :: u32
  c_shape :: tag_shape

definition core :: "tag_db \<Rightarrow> tag_core" where
  "core t = \<lparr>c_name = t_name t, c_type = t_type t, c_count = t_count t, c_shape = data_shape (t_data t)\<rparr>"

record db_view =
  v_tags :: "tag_core list"
  v_index :: name_idx
  v_next :: int
  v_count :: int
  v_types :: "cdt list"
  v_mods :: "mod_ptr set \<times> nat \<times> mod_ptr set \<times> int"

definition view :: "server \<Rightarrow> db_view" where
  "view s = \<lparr>v_tags = map core (db s), v_index = idx_of s, v_next = tagnextindex s, v_count = tagcount s,
     v_types = map cdt_fresh (cdts s),
     v_mods = (set (modules s), length (modules s), dom (mod_heap s), module_count s)\<rparr>"

named_theorems view_rules \<open>operations that keep the view\<close>

lemma data_shape_simps [simp]:
  "data_shape D_null = Sh_null" "data_shape (D_block b) = Sh_block (length b)" "data_shape (D_virt f g q) = Sh_virt"
  by (simp_all add: data_shape_def)

lemma view_set_tag:
  assumes "get_tag s i = Some t" and "core t' = core t"
  shows "view (set_tag s i t') = view s"
proof -
  from assms(1) have i: "nat i < length (db s)" "db s ! nat i = t"
    by (auto simp: get_tag_def arr_get_Some_iff nat_less_iff)
  have "map core ((db s)[nat i := t']) = (map core (db s))[nat i := core (db s ! nat i)]"
    using assms(2) i(2) by (simp add: map_update)
  also have "\<dots> = map core (db s)" using i(1) by (simp add: list_update_same_conv)
  finally show ?thesis by (simp add: view_def set_tag_def idx_of_def)
qed

lemma view_fields [simp]:
  "view (s\<lparr>sent := a\<rparr>) = view s" "view (s\<lparr>retained := b\<rparr>) = view s"
  "view (s\<lparr>mod_uuid := f\<rparr>) = view s" "view (s\<lparr>ovrdinstalled := e\<rparr>) = view s"
  "view (s\<lparr>ovrdset := e\<rparr>) = view s" "view (s\<lparr>module_tag_type := g\<rparr>) = view s"
  by (simp_all add: view_def idx_of_def)

text \<open>The modules: every object on the list is live, and they are counted.\<close>

lemma view_set_module [simp]: "mod_heap s m = Some d0 \<Longrightarrow> view (set_module s m d) = view s"
  by (auto simp: set_module_def view_def idx_of_def)

lemma wf_modules_view:
  assumes "view s' = view s" and "wf_modules s"
  shows "wf_modules s'"
proof -
  have v: "set (modules s') = set (modules s)" "length (modules s') = length (modules s)"
    "dom (mod_heap s') = dom (mod_heap s)" "module_count s' = module_count s"
    using assms(1) by (simp_all add: view_def)
  have "card (set (modules s)) = length (modules s)"
    using assms(2) by (simp add: wf_modules_def distinct_card)
  then have "distinct (modules s')" using v(1,2) by (intro card_distinct) simp
  moreover have "mod_heap s' m \<noteq> None \<longleftrightarrow> mod_heap s m \<noteq> None" for m
    using v(3) by (metis domIff)
  ultimately show ?thesis using assms(2) v by (simp add: wf_modules_def)
qed

lemma view_eqD:
  assumes "view s' = view s"
  shows "tagnextindex s' = tagnextindex s" "tagcount s' = tagcount s" "map cdt_fresh (cdts s') = map cdt_fresh (cdts s)"
    "name_index s' = name_index s" "indexcount s' = indexcount s" "dbsize s' = dbsize s"
    "length (db s') = length (db s)"
  using assms map_eq_imp_length_eq [of core "db s'" core "db s"]
  by (simp_all add: view_def idx_of_def)

lemma view_tag:
  assumes "view s' = view s" and "get_tag s i = Some t"
  obtains t' where "get_tag s' i = Some t'" and "core t' = core t"
proof -
  have len: "length (db s') = length (db s)" and m: "map core (db s') = map core (db s)"
    using assms(1) view_eqD(7) [OF assms(1)] by (simp_all add: view_def)
  from assms(2) have i: "0 \<le> i" "nat i < length (db s)" "i < int (length (db s))" "t = db s ! nat i"
    by (auto simp: get_tag_def arr_get_Some_iff)
  have "core (db s' ! nat i) = core t"
    using arg_cong [OF m, of "\<lambda>xs. xs ! nat i"] i len by simp
  moreover have "get_tag s' i = Some (db s' ! nat i)"
    using i len by (simp add: get_tag_def arr_get_def)
  ultimately show ?thesis using that by blast
qed

section \<open>Events, special tags and queues\<close>

lemma event_check_view [view_rules]: "event_check E s idx offset sz = Some s' \<Longrightarrow> view s' = view s"
  by (erule event_check_frame) (simp add: view_set_tag core_def)

lemma module_find_fd_view [view_rules]: "module_find_fd s fd = (m, s') \<Longrightarrow> view s' = view s"
  using rot_to_set rot_to_perm
  by (auto simp: module_find_fd_def list_find_def view_def idx_of_def)

lemma special_tag_write_view [view_rules]:
  "special_tag_write s fd idx offset sz = Some (r, s') \<Longrightarrow> view s' = view s"
  by (auto simp: special_tag_write_def Let_def split: prod.splits if_splits option.splits dest!: module_find_fd_view)

lemma special_tag_write_db:
  "special_tag_write s fd idx offset sz = Some (r, s') \<Longrightarrow> db s' = db s"
  using module_find_fd_frame(1) [of s fd]
  by (auto simp: special_tag_write_def Let_def split: prod.splits if_splits option.splits simp del: module_find_fd_frame)

lemma special_tag_write_frame:
  "special_tag_write s fd idx offset sz = Some (r, s') \<Longrightarrow> view s' = view s \<and> db s' = db s"
  by (simp add: special_tag_write_view special_tag_write_db)

lemma put_queue_core [simp]: "core (put_queue t q) = core t"
  by (simp add: put_queue_def core_def split: tag_data.split)

lemma write_queue_view [view_rules]:
  "write_queue E s idx offset data sz = Some (r, s') \<Longrightarrow> view s' = view s"
  by (auto simp: write_queue_def Let_def view_set_tag split: if_splits dest!: event_check_view)

lemma read_queue_view [view_rules]: "read_queue s idx buf = Some (r, b, s') \<Longrightarrow> view s' = view s"
  by (auto simp: read_queue_def view_set_tag)

lemma get_module_tag_name_view [view_rules]:
  "get_module_tag_name s fd buf = Some (r, b, s') \<Longrightarrow> view s' = view s"
  by (auto simp: get_module_tag_name_def Let_def split: prod.splits if_splits option.splits sum.splits
      dest!: module_find_fd_view)

lemma vf_read_view [view_rules]: "vf_read E s f fd idx buf sz = Some (r, b, s') \<Longrightarrow> view s' = view s"
  by (auto simp: vf_read_def split: vfunction.splits intro: get_module_tag_name_view read_queue_view)

lemma vf_write_view [view_rules]: "vf_write E s f idx offset data sz = Some (r, s') \<Longrightarrow> view s' = view s"
  by (auto simp: vf_write_def split: vfunction.splits intro: write_queue_view)

section \<open>Reading and writing\<close>

lemma tag_read_view [view_rules]:
  assumes "tag_read E s fd idx offset buf sz = Some (r, b, s')"
  shows "view s' = view s"
  using assms unfolding tag_read_def
  by (auto split: if_splits tag_data.splits dest!: vf_read_view)

lemma write_finish_view [view_rules]:
  "write_finish E s idx offset sz = Some (r, s') \<Longrightarrow> view s' = view s"
  by (auto simp: write_finish_def ret_tag_write_def dest!: event_check_view)

lemma tag_store_view:
  assumes "tag_store E s fd idx t offset upd sz = Some (r, s')" and "get_tag s idx = Some t"
    and "\<And>b b'. upd b = Some b' \<Longrightarrow> length b' = length b"
  shows "view s' = view s"
proof -
  have "view s' = view s" if "write_finish E (set_tag s1 idx (t\<lparr>t_data := D_block b'\<rparr>)) idx offset sz = Some (r, s')"
    "t_data t = D_block b" "upd b = Some b'" "view s1 = view s" "db s1 = db s" for s1 b b'
  proof -
    have "get_tag s1 idx = Some t" using assms(2) that(5) by (simp add: get_tag_def)
    then have "view (set_tag s1 idx (t\<lparr>t_data := D_block b'\<rparr>)) = view s1"
      using that(2) assms(3) [OF that(3)] by (auto intro: view_set_tag simp: core_def)
    with write_finish_view [OF that(1)] that(4) show ?thesis by simp
  qed
  with assms(1) show ?thesis
    unfolding tag_store_def
    by (auto split: if_splits tag_data.splits dest!: special_tag_write_frame)
qed

lemma tag_write_view [view_rules]:
  assumes "tag_write E s fd idx offset data sz = Some (r, s')"
  shows "view s' = view s"
  using assms unfolding tag_write_def
  by (auto split: if_splits tag_data.splits dest!: vf_write_view elim!: tag_store_view simp: mem_put_length)

lemma mask_update_length: "mask_update data m offset sz b = Some b' \<Longrightarrow> length b' = length b"
  by (auto simp: mask_update_def mem_put_length split: if_splits)

lemma tag_mask_write_view [view_rules]:
  assumes "tag_mask_write E s fd idx offset data msk sz = Some (r, s')"
  shows "view s' = view s"
  using assms unfolding tag_mask_write_def
  by (auto split: if_splits elim!: tag_store_view simp: mask_update_length)

lemma sys_write_view [view_rules]: "sys_write E s idx data = Some s' \<Longrightarrow> view s' = view s"
  by (auto simp: sys_write_def dest: tag_write_view)

lemma status_write_view [view_rules]: "status_write E s idx x = Some s' \<Longrightarrow> view s' = view s"
  by (auto simp: status_write_def split: if_splits dest: sys_write_view)

lemma set_dbsize_view [view_rules]: "set_dbsize E s x = Some s' \<Longrightarrow> view s' = view s"
  by (auto simp: set_dbsize_def split: if_splits dest: tag_write_view)

lemma set_attribute_view [view_rules]: "set_attribute s idx attr = Some s' \<Longrightarrow> view s' = view s"
  by (auto simp: set_attribute_def Let_def view_set_tag core_def)

section \<open>Reference counts\<close>

lemma fresh_update:
  assumes "arr_get dts (uint i) = Some d" and "cdt_fresh d' = cdt_fresh d"
  shows "map cdt_fresh (dts[unat i := d']) = map cdt_fresh dts"
proof -
  from assms(1) have i: "unat i < length dts" "dts ! unat i = d"
    by (simp_all add: arr_get_uint)
  have "map cdt_fresh (dts[unat i := d']) = (map cdt_fresh dts)[unat i := cdt_fresh (dts ! unat i)]"
    using assms(2) i(2) by (simp add: map_update)
  then show ?thesis using i(1) by (simp add: list_update_same_conv)
qed

lemma cdt_inc_refcount_view [view_rules]: "cdt_inc_refcount s t = Some s' \<Longrightarrow> view s' = view s"
  by (auto simp: cdt_inc_refcount_def view_def idx_of_def fresh_update cdt_fresh_def)

lemma cdt_dec_refcount_view [view_rules]: "cdt_dec_refcount s t = Some s' \<Longrightarrow> view s' = view s"
  by (auto simp: cdt_dec_refcount_def view_def idx_of_def fresh_update cdt_fresh_def split: if_split_asm)

end
