(* ===== verification/Db_Invariant.thy ===== *)
theory Db_Invariant
  imports Db_View
begin

text \<open>
  The invariant of the tag database, as a property of its view: the types are well-formed, the index is
  sorted and maps exactly the names of the tags in use to their positions, the counters count
  them, and every data block has the size that the type and the count of its tag require.
\<close>

section \<open>Sizes under changes of the type table\<close>

lemma checktype_length: "length dts' = length dts \<Longrightarrow> checktype dts' t = checktype dts t"
  by (simp add: checktype_def Let_def)

lemma type_size_fuel_members:
  "map d_members dts' = map d_members dts \<Longrightarrow> type_size_fuel k dts' t = type_size_fuel k dts t"
proof (induction k arbitrary: t)
  case (Suc k)
  have len: "length dts' = length dts" using Suc.prems by (rule map_eq_imp_length_eq)
  have "map_option d_members (arr_get dts' i) = map_option d_members (arr_get dts i)" for i
    using Suc.prems len by (simp add: arr_get_def) (metis nat_less_iff nth_map)
  then have "map_option d_members (arr_get dts' (uint (CDT_TO_INDEX t))) =
      map_option d_members (arr_get dts (uint (CDT_TO_INDEX t)))" .
  moreover have "type_size_fuel k dts' = type_size_fuel k dts"
    using Suc.IH [OF Suc.prems] by (rule ext)
  ultimately show ?case
    using checktype_length [OF len, of t]
    by (cases "arr_get dts (uint (CDT_TO_INDEX t))"; cases "arr_get dts' (uint (CDT_TO_INDEX t))")
      (simp_all add: type_size_fuel.simps)
qed (simp add: type_size_fuel.simps)

lemma type_size_fresh [simp]: "type_size (map cdt_fresh dts) t = type_size dts t"
  unfolding type_size_def by (simp add: type_size_fuel_members [of "map cdt_fresh dts" dts])

lemma wf_cdts_fresh [simp]: "wf_cdts (map cdt_fresh dts) \<longleftrightarrow> wf_cdts dts"
  by (simp add: wf_cdts_def wf_cdt_def comp_def)

lemma data_size_fresh [simp]: "data_size (map cdt_fresh dts) type count = data_size dts type count"
  by (simp add: data_size_def)

lemma checktype_fresh [simp]: "checktype (map cdt_fresh dts) t = checktype dts t"
  by (rule checktype_length) simp

text \<open>A compound type code whose size is defined is an index of the table.\<close>

lemma custom_type_code:
  assumes "IS_CUSTOM t"
  shows "CDT_TO_TYPE (CDT_TO_INDEX t) = t"
proof -
  have b: "bit t 31" using assms by (simp add: IS_CUSTOM_bit)
  have "bit (t OR push_bit 31 1) n = bit t n" if "n < 32" for n
  proof -
    have "31 \<le> n \<Longrightarrow> n = 31" using that by simp
    then show ?thesis using b by (auto simp only: bit_or_iff bit_push_bit_iff)
  qed
  then have "t OR push_bit 31 1 = t"
    by (intro bit_word_eqI) simp
  then have "t OR DAX_CUSTOM = t" by simp
  then show ?thesis
    by (simp add: CDT_TO_TYPE_def CDT_TO_INDEX_def bit.disj_conj_distrib2)
qed

lemma type_size_custom_index:
  assumes "type_size dts t = Some z" and "checktype dts t = 0" and "IS_CUSTOM t"
  obtains j where "j < length dts" and "t = CDT_TO_TYPE (of_nat j)"
proof -
  from assms obtain d where "arr_get dts (uint (CDT_TO_INDEX t)) = Some d"
    by (auto simp: type_size_def type_size_fuel.simps)
  then have "unat (CDT_TO_INDEX t) < length dts" by (simp add: arr_get_uint)
  moreover have "t = CDT_TO_TYPE (of_nat (unat (CDT_TO_INDEX t)))"
    using custom_type_code [OF assms(3)] by simp
  ultimately show ?thesis by (rule that)
qed

lemma type_size_append_cdt:
  assumes "wf_cdts dts" and "wf_cdts (dts @ ds)" and "j < length dts"
  shows "type_size (dts @ ds) (CDT_TO_TYPE (of_nat j)) = type_size dts (CDT_TO_TYPE (of_nat j))"
  using assms(3)
proof (induction j rule: less_induct)
  case (less j)
  have "members_pos (type_size (dts @ ds)) 0 (d_members (dts ! j)) =
      members_pos (type_size dts) 0 (d_members (dts ! j))"
  proof (rule members_pos_cong)
    fix m
    assume m: "m \<in> set (d_members (dts ! j))" "IS_CUSTOM (m_type m)"
    from wf_member_custom [OF assms(1) less.prems m] obtain i where "i < j" "m_type m = CDT_TO_TYPE (of_nat i)" .
    with less.IH [of i] less.prems show "type_size (dts @ ds) (m_type m) = type_size dts (m_type m)" by simp
  qed
  with less.prems show ?case
    by (simp add: type_size_cdt [OF assms(1)] type_size_cdt [OF assms(2)] nth_append)
qed

lemma type_size_append:
  assumes "wf_cdts dts" and "wf_cdts (dts @ ds)" and "checktype dts t = 0" and "type_size dts t = Some z"
  shows "checktype (dts @ ds) t = 0 \<and> type_size (dts @ ds) t = Some z"
proof -
  have ct: "checktype (dts @ ds) t = 0"
    using assms(3) by (auto simp: checktype_def Let_def split: if_splits)
  show ?thesis
  proof (cases "IS_CUSTOM t")
    case True
    from type_size_custom_index [OF assms(4,3) True] obtain j where "j < length dts" "t = CDT_TO_TYPE (of_nat j)" .
    with type_size_append_cdt [OF assms(1,2)] assms(4) ct show ?thesis by simp
  next
    case False
    with assms(3,4) ct show ?thesis by (simp add: type_size_def type_size_fuel.simps)
  qed
qed

lemma data_size_append:
  assumes "wf_cdts dts" and "wf_cdts (dts @ ds)" and "checktype dts t = 0" and "data_size dts t c = Some z"
  shows "checktype (dts @ ds) t = 0 \<and> data_size (dts @ ds) t c = Some z"
proof (cases "t = DAX_BOOL")
  case True
  then show ?thesis using assms(4) by (simp add: data_size_def checktype_base base_types_def)
next
  case False
  with assms(4) obtain y where "type_size dts t = Some y" "z = u32_of y * c" by (auto simp: data_size_def)
  with type_size_append [OF assms(1-3)] False show ?thesis by (simp add: data_size_def)
qed

section \<open>The invariant\<close>

definition core_ok :: "cdt list \<Rightarrow> tag_core \<Rightarrow> bool" where
  "core_ok dts c \<longleftrightarrow>
    (c_name c = None \<longrightarrow> c_shape c = Sh_null) \<and>
    (\<forall>n. c_shape c = Sh_block n \<longrightarrow>
      checktype dts (c_type c) = 0 \<and> map_option unat (data_size dts (c_type c) (c_count c)) = Some n)"

definition live :: "db_view \<Rightarrow> nat set" where
  "live v = {i. i < nat (v_next v) \<and> c_name (v_tags v ! i) \<noteq> None}"

definition index_ok :: "db_view \<Rightarrow> bool" where
  "index_ok v \<longleftrightarrow>
    (\<forall>nm i. idx_lookup (v_index v) nm = Some i \<longleftrightarrow>
      0 \<le> i \<and> i < v_next v \<and> c_name (v_tags v ! nat i) = Some nm)"

definition inv_view :: "db_view \<Rightarrow> bool" where
  "inv_view v \<longleftrightarrow>
    wf_cdts (v_types v) \<and> idx_inv (v_index v) \<and>
    int (length (v_tags v)) = ix_size (v_index v) \<and> 9 \<le> length (v_tags v) \<and>
    0 \<le> v_next v \<and> v_next v \<le> ix_size (v_index v) \<and>
    ix_count (v_index v) = v_count v \<and> v_count v = int (card (live v)) \<and>
    index_ok v \<and> (\<forall>i < nat (v_next v). core_ok (v_types v) (v_tags v ! i))"

definition db_inv :: "server \<Rightarrow> bool" where
  "db_inv s \<longleftrightarrow> inv_view (view s)"

lemma db_inv_view: "view s' = view s \<Longrightarrow> db_inv s \<Longrightarrow> db_inv s'"
  by (simp add: db_inv_def)

lemma inv_view_mods [simp]: "inv_view (v\<lparr>v_mods := x\<rparr>) \<longleftrightarrow> inv_view v"
  by (simp add: inv_view_def live_def index_ok_def)

lemma live_finite [simp]: "finite (live v)"
  by (rule finite_subset [of _ "{..<nat (v_next v)}"]) (auto simp: live_def)

lemma live_count: "inv_view v \<Longrightarrow> v_count v \<le> v_next v"
proof -
  assume v: "inv_view v"
  have "card (live v) \<le> card {..<nat (v_next v)}" by (rule card_mono) (auto simp: live_def)
  moreover have "0 \<le> v_next v" "v_count v = int (card (live v))" using v by (simp_all add: inv_view_def)
  ultimately show ?thesis by (simp add: le_nat_iff)
qed

section \<open>Changes of the view\<close>

text \<open>A new tag at the end, with a name that was not in use.\<close>

lemma inv_view_add:
  assumes "inv_view v" and "v_next v < int (length (v_tags v))" and "idx_lookup (v_index v) nm = None"
    and "idx_inv ix" and "ix_size ix = ix_size (v_index v)" and "ix_count ix = ix_count (v_index v) + 1"
    and "idx_lookup ix = (idx_lookup (v_index v))(nm \<mapsto> v_next v)"
    and "c_name c = Some nm" and "core_ok (v_types v) c"
  shows "inv_view (v\<lparr>v_tags := (v_tags v)[nat (v_next v) := c], v_index := ix, v_next := v_next v + 1,
    v_count := v_count v + 1\<rparr>)" (is "inv_view ?v")
proof -
  note v = assms(1) [unfolded inv_view_def]
  have nx: "nat (v_next v + 1) = Suc (nat (v_next v))" "nat (v_next v) < length (v_tags v)"
    using v assms(2) by (auto simp: nat_add_distrib)
  have tags: "v_tags ?v ! i = (if i = nat (v_next v) then c else v_tags v ! i)" for i
    using nx(2) by (simp add: nth_list_update)
  have "live ?v = insert (nat (v_next v)) (live v)"
    unfolding live_def tags using nx(1) assms(8) by (auto simp: less_Suc_eq)
  moreover have "nat (v_next v) \<notin> live v" by (simp add: live_def)
  ultimately have card: "card (live ?v) = card (live v) + 1" by simp
  have idx: "index_ok ?v"
    unfolding index_ok_def
  proof (intro allI)
    fix n i
    have old: "idx_lookup (v_index v) n = Some i \<longleftrightarrow> 0 \<le> i \<and> i < v_next v \<and> c_name (v_tags v ! nat i) = Some n"
      using v by (simp add: index_ok_def)
    show "idx_lookup (v_index ?v) n = Some i \<longleftrightarrow> 0 \<le> i \<and> i < v_next ?v \<and> c_name (v_tags ?v ! nat i) = Some n"
    proof (cases "n = nm")
      case True
      have "\<not> (0 \<le> i \<and> i < v_next v \<and> c_name (v_tags v ! nat i) = Some n)"
        using old assms(3) True by simp
      then show ?thesis using True assms(7,8) v nx(2) by (auto simp: nth_list_update)
    next
      case False
      with old assms(7,8) v nx(2) show ?thesis by (auto simp: nth_list_update)
    qed
  qed
  have ok: "\<forall>i < nat (v_next ?v). core_ok (v_types v) (v_tags ?v ! i)"
    using v assms(9) nx unfolding tags by (auto simp: less_Suc_eq)
  show ?thesis
    using v assms(2,4-6) card idx ok by (simp add: inv_view_def)
qed

text \<open>A tag that loses its name and its data.\<close>

lemma inv_view_del:
  assumes "inv_view v" and "i < nat (v_next v)" and "c_name (v_tags v ! i) = Some nm"
    and "idx_inv ix" and "ix_size ix = ix_size (v_index v)" and "ix_count ix = ix_count (v_index v) - 1"
    and "idx_lookup ix = (idx_lookup (v_index v))(nm := None)"
    and "c_name c = None" and "c_shape c = Sh_null"
  shows "inv_view (v\<lparr>v_tags := (v_tags v)[i := c], v_index := ix, v_count := v_count v - 1\<rparr>)"
    (is "inv_view ?v")
proof -
  note v = assms(1) [unfolded inv_view_def]
  have i: "i < length (v_tags v)" using assms(2) v by linarith
  have tags: "v_tags ?v ! k = (if k = i then c else v_tags v ! k)" for k
    using i by (simp add: nth_list_update)
  have "live ?v = live v - {i}"
    unfolding live_def tags using assms(8) by auto
  moreover have "i \<in> live v" using assms(2,3) by (simp add: live_def)
  ultimately have card: "card (live ?v) = card (live v) - 1" "0 < card (live v)"
    by (auto simp: card_gt_0_iff)
  have idx: "index_ok ?v"
    unfolding index_ok_def
  proof (intro allI)
    fix n k
    have old: "idx_lookup (v_index v) n = Some k \<longleftrightarrow> 0 \<le> k \<and> k < v_next v \<and> c_name (v_tags v ! nat k) = Some n"
      for n k using v by (simp add: index_ok_def)
    have "idx_lookup (v_index v) nm = Some (int i)"
      using assms(2,3) by (simp add: old)
    then have un: "0 \<le> k \<Longrightarrow> k < v_next v \<Longrightarrow> c_name (v_tags v ! nat k) = Some nm \<Longrightarrow> nat k = i"
      using old [of nm k] by simp
    show "idx_lookup (v_index ?v) n = Some k \<longleftrightarrow> 0 \<le> k \<and> k < v_next ?v \<and> c_name (v_tags ?v ! nat k) = Some n"
      using assms(3,7,8) old [of n k] un unfolding tags by auto
  qed
  have ok: "\<forall>k < nat (v_next ?v). core_ok (v_types v) (v_tags ?v ! k)"
    using v assms(8,9) unfolding tags by (auto simp: core_ok_def)
  show ?thesis
    using v assms(4-6) card idx ok by (simp add: inv_view_def of_nat_diff)
qed

text \<open>A tag that keeps its name.\<close>

lemma inv_view_update:
  assumes "inv_view v" and "i < nat (v_next v)" and "c_name c = c_name (v_tags v ! i)"
    and "core_ok (v_types v) c"
  shows "inv_view (v\<lparr>v_tags := (v_tags v)[i := c]\<rparr>)" (is "inv_view ?v")
proof -
  note v = assms(1) [unfolded inv_view_def]
  have i: "i < length (v_tags v)" using assms(2) v by linarith
  have names: "c_name (v_tags ?v ! k) = c_name (v_tags v ! k)" for k
    using i assms(3) by (simp add: nth_list_update)
  have "live ?v = live v" unfolding live_def names by simp
  moreover have "index_ok ?v" using v unfolding index_ok_def names by simp
  moreover have "\<forall>k < nat (v_next v). core_ok (v_types v) (v_tags ?v ! k)"
    using v i assms(4) by (simp add: nth_list_update)
  ultimately show ?thesis using v by (simp add: inv_view_def)
qed

text \<open>Larger arrays.\<close>

lemma idx_grow:
  assumes "idx_inv i" and "length xs = n" and "n = nat (ix_size i)"
  shows "idx_inv (i\<lparr>ix_arr := ix_arr i @ xs, ix_size := ix_size i * 2\<rparr>)"
    and "idx_lookup (i\<lparr>ix_arr := ix_arr i @ xs, ix_size := ix_size i * 2\<rparr>) = idx_lookup i"
proof -
  let ?i = "i\<lparr>ix_arr := ix_arr i @ xs, ix_size := ix_size i * 2\<rparr>"
  have e: "idx_entries ?i = idx_entries i"
    using assms by (auto simp: idx_entries_def idx_inv_def)
  show inv: "idx_inv ?i"
    using assms e by (auto simp: idx_inv_def)
  show "idx_lookup ?i = idx_lookup i"
    using idx_lookup_map_of [OF inv] idx_lookup_map_of [OF assms(1)] e by (simp add: fun_eq_iff)
qed

lemma inv_view_grow:
  assumes "inv_view v" and "length ts = length (v_tags v)" and "length xs = length (v_tags v)"
  shows "inv_view (v\<lparr>v_tags := v_tags v @ ts,
    v_index := (v_index v)\<lparr>ix_arr := ix_arr (v_index v) @ xs, ix_size := ix_size (v_index v) * 2\<rparr>\<rparr>)"
    (is "inv_view ?v")
proof -
  note v = assms(1) [unfolded inv_view_def]
  have n: "length xs = nat (ix_size (v_index v))" using v assms(3) by linarith
  note g = idx_grow [OF conjunct1 [OF conjunct2 [OF v]] refl n]
  have nx: "nat (v_next v) \<le> length (v_tags v)" using v by linarith
  have names: "k < nat (v_next v) \<Longrightarrow> v_tags ?v ! k = v_tags v ! k" for k
    using nx by (simp add: nth_append)
  have "live ?v = live v" unfolding live_def using names by auto
  moreover have "index_ok ?v"
    using v names g(2) unfolding index_ok_def by (auto simp: nat_less_iff)
  moreover have "\<forall>k < nat (v_next v). core_ok (v_types v) (v_tags ?v ! k)"
    using v names by simp
  ultimately show ?thesis using v g(1) assms(2) by (simp add: inv_view_def)
qed

text \<open>More types.\<close>

lemma core_ok_append:
  assumes "wf_cdts dts" and "wf_cdts (dts @ ds)" and "core_ok dts c"
  shows "core_ok (dts @ ds) c"
  using assms data_size_append [OF assms(1,2)] by (fastforce simp: core_ok_def)

lemma inv_view_types:
  assumes "inv_view v" and "wf_cdts (v_types v @ ds)"
  shows "inv_view (v\<lparr>v_types := v_types v @ ds\<rparr>)"
  using assms core_ok_append [of "v_types v" ds]
  by (simp add: inv_view_def live_def index_ok_def)

end
