(* ===== verification/Frames.thy ===== *)
theory Frames
  imports Messages Db_View
begin

text \<open>
  The remaining operations that keep the view of the database: events, overrides, mappings, atomic
  operations, groups, and all message handlers except the four that add or delete something.
\<close>

section \<open>Attributes, events and modules\<close>

lemma tag_set_attribute_view [view_rules]: "tag_set_attribute s idx a = Some s' \<Longrightarrow> view s' = view s"
  by (auto simp: tag_set_attribute_def view_set_tag core_def)

lemma tag_clr_attribute_view [view_rules]: "tag_clr_attribute s idx a = Some s' \<Longrightarrow> view s' = view s"
  by (auto simp: tag_clr_attribute_def view_set_tag core_def)

lemma event_add_view [view_rules]:
  assumes "event_add E s h etype data mp = Some (r, s')"
  shows "view s' = view s"
  using assms unfolding event_add_def Let_def
  by (auto split: if_splits option.splits sum.splits simp: view_set_tag core_def)

lemma event_del_view [view_rules]:
  assumes "event_del s idx i mp = Some (r, s')"
  shows "view s' = view s"
  using assms unfolding event_del_def
  by (auto split: if_splits option.splits list.splits simp: view_set_tag core_def)

lemma event_opt_view [view_rules]:
  assumes "event_opt s idx i opts mp = Some (r, s')"
  shows "view s' = view s"
  using assms unfolding event_opt_def
  by (auto split: if_splits option.splits simp: view_set_tag core_def)

lemma event_del_loop_frame:
  "event_del_loop E s idx evs = Some s' \<Longrightarrow> \<exists>x. s' = s\<lparr>sent := sent s @ x\<rparr>"
proof (induction evs arbitrary: s)
  case Nil
  then have "s' = s\<lparr>sent := sent s @ []\<rparr>" by simp
  then show ?case by blast
next
  case (Cons ev evs)
  from Cons.prems obtain s1 where s1: "event_del_loop E s1 idx evs = Some s'"
    "(if e_eventtype ev = EVENT_DELETED then map_option snd (send_event E s idx ev) else Some s) = Some s1"
    by auto
  have "\<exists>x. s1 = s\<lparr>sent := sent s @ x\<rparr>"
  proof (cases "e_eventtype ev = EVENT_DELETED")
    case True
    with s1(2) obtain r where "send_event E s idx ev = Some (r, s1)" by auto
    then show ?thesis by (rule send_event_frame) blast
  next
    case False
    with s1(2) have "s1 = s\<lparr>sent := sent s @ []\<rparr>" by simp
    then show ?thesis by blast
  qed
  then obtain x where x: "s1 = s\<lparr>sent := sent s @ x\<rparr>" by blast
  from Cons.IH [OF s1(1)] obtain y where "s' = s1\<lparr>sent := sent s1 @ y\<rparr>" by blast
  then have "s' = s\<lparr>sent := sent s @ (x @ y)\<rparr>" by (simp add: x)
  then show ?case by blast
qed

lemma event_del_check_frame:
  "event_del_check E s idx = Some s' \<Longrightarrow> \<exists>x. s' = s\<lparr>sent := sent s @ x\<rparr>"
  by (auto simp: event_del_check_def dest: event_del_loop_frame)

lemma events_cleanup_from_same: "events_cleanup_from s m n = Some s' \<Longrightarrow> s' = s"
  by (induction n) (auto split: if_splits)

lemma events_cleanup_same: "events_cleanup s m = Some s' \<Longrightarrow> s' = s"
  by (simp add: events_cleanup_def events_cleanup_from_same)

section \<open>Overrides\<close>

lemma ovr_install_core: "ovr_install E t z sz = Some (Inr t') \<Longrightarrow> core t' = core t"
  by (auto simp: ovr_install_def core_def split: if_splits)

lemma override_add_view [view_rules]:
  assumes "override_add E s idx offset data msk sz = Some (r, s')"
  shows "view s' = view s"
proof -
  have keep: "view (set_tag s idx (t1\<lparr>t_odata := x, t_omask := y\<rparr>)) = view s" "view (set_tag s idx t1) = view s"
    if "get_tag s idx = Some t" "ovr_install E t z sz = Some (Inr t1)" for t t1 z x y
    using that ovr_install_core [OF that(2)] by (simp_all add: view_set_tag core_def)
  show ?thesis
    using assms unfolding override_add_def Let_def
    by (auto split: if_splits sum.splits dest!: status_write_view tag_set_attribute_view simp: keep)
qed

lemma override_del_view [view_rules]:
  assumes "override_del E s idx offset msk sz = Some (r, s')"
  shows "view s' = view s"
  using assms unfolding override_del_def Let_def
  by (auto split: if_splits dest!: status_write_view simp: view_set_tag core_def)

lemma override_set_view [view_rules]:
  assumes "override_set E s idx flag = Some (r, s')"
  shows "view s' = view s"
  using assms unfolding override_set_def
  by (auto split: if_splits dest!: status_write_view tag_set_attribute_view tag_clr_attribute_view)

section \<open>Mappings\<close>

lemma map_add_view [view_rules]:
  assumes "map_add E s src dest = Some (r, s')"
  shows "view s' = view s"
  using assms unfolding map_add_def new_map_def
  by (auto split: if_splits option.splits simp: view_set_tag core_def)

lemma map_del_view [view_rules]:
  assumes "map_del s idx i = Some (r, s')"
  shows "view s' = view s"
  using assms unfolding map_del_def
  by (auto split: if_splits option.splits list.splits simp: view_set_tag core_def)

lemma map_carry_view [view_rules]:
  assumes "map_carry E s m = Some (r, s')"
  shows "view s' = view s"
  using assms unfolding map_carry_def Let_def
  by (auto split: if_splits option.splits dest!: tag_write_view tag_mask_write_view)

lemma map_loop_view [view_rules]:
  "map_loop E s offset sz ms = Some (r, s') \<Longrightarrow> view s' = view s"
  by (induction ms arbitrary: s) (auto split: if_splits dest!: map_carry_view)

lemma map_check_view [view_rules]: "map_check E s idx offset sz = Some (r, s') \<Longrightarrow> view s' = view s"
  by (auto simp: map_check_def dest!: map_loop_view)

section \<open>Atomic operations\<close>

lemma not_bits_length: "not_bits n b i blk = Some blk' \<Longrightarrow> length blk' = length blk"
  by (induction n b i blk rule: not_bits.induct) (auto simp: Let_def split: if_splits)

lemma map_bytes_length: "map_bytes f blk i n = Some blk' \<Longrightarrow> length blk' = length blk"
  by (auto simp: map_bytes_def mem_put_length split: if_splits)

lemma logic_range_length: "logic_range f blk i d = Some blk' \<Longrightarrow> length blk' = length blk"
  by (auto simp: logic_range_def mem_put_length)

lemma toggle_range_length: "toggle_range h blk = Some blk' \<Longrightarrow> length blk' = length blk"
  by (auto simp: toggle_range_def Let_def dest!: map_bytes_length)

lemma atomic_incdec_length: "atomic_incdec E pos blk h data = Some (r, blk') \<Longrightarrow> length blk' = length blk"
  by (auto simp: atomic_incdec_def mem_put_length split: if_splits option.splits)

lemma atomic_not_length: "atomic_not blk h = Some (r, blk') \<Longrightarrow> length blk' = length blk"
  by (auto simp: atomic_not_def not_bits_length map_bytes_length split: if_splits)

lemma atomic_logic_length: "atomic_logic f ones neg blk h data = Some (r, blk') \<Longrightarrow> length blk' = length blk"
  by (auto simp: atomic_logic_def split: if_splits dest!: logic_range_length toggle_range_length)

lemmas atomic_defs = atomic_inc_def atomic_dec_def atomic_or_def atomic_and_def atomic_nor_def
  atomic_nand_def atomic_xor_def atomic_xnor_def

lemma atomic_dispatch_length:
  assumes "atomic_dispatch E blk h data op = Some (r, blk')"
  shows "length blk' = length blk"
  using assms unfolding atomic_dispatch_def atomic_defs
  by (auto split: if_splits dest!: atomic_incdec_length atomic_not_length atomic_logic_length)

lemma atomic_op_view [view_rules]:
  assumes "atomic_op E s h data op = Some (r, s')"
  shows "view s' = view s"
  using assms unfolding atomic_op_def
  by (auto split: if_splits tag_data.splits dest!: write_finish_view atomic_dispatch_length
      simp: view_set_tag core_def)

section \<open>Groups\<close>

lemma group_read_loop_view [view_rules]:
  "group_read_loop E s hs offset buf = Some (r, b, s') \<Longrightarrow> view s' = view s"
  by (induction hs arbitrary: s offset buf) (auto simp: Let_def split: if_splits dest!: tag_read_view)

lemma group_read_view [view_rules]: "group_read E s m idx buf sz = Some (r, b, s') \<Longrightarrow> view s' = view s"
  by (auto simp: group_read_def split: if_splits dest!: group_read_loop_view)

lemma group_write_loop_view [view_rules]:
  "group_write_loop E s hs offset buf = Some (r, s') \<Longrightarrow> view s' = view s"
  by (induction hs arbitrary: s offset) (auto split: if_splits dest!: tag_write_view)

lemma group_write_view [view_rules]: "group_write E s m idx buf = Some (r, s') \<Longrightarrow> view s' = view s"
  by (auto simp: group_write_def split: if_splits dest!: group_write_loop_view)

section \<open>Answers\<close>

lemma xwrite_view: "xwrite E s fd b = (r, s') \<Longrightarrow> view s' = view s"
  by (auto simp: xwrite_def split: if_splits)

lemma message_send_view [view_rules]:
  "message_send E s fd command payload sz a = Some (r, s') \<Longrightarrow> view s' = view s"
  by (auto simp: message_send_def Let_def split: if_splits prod.splits dest!: xwrite_view)

lemma send_view [view_rules]:
  "send_error E s fd command e = Some (r, s') \<Longrightarrow> view s' = view s"
  "send_data E s fd command payload sz = Some (r, s') \<Longrightarrow> view s' = view s"
  "send_id E s fd command e = Some (r, s') \<Longrightarrow> view s' = view s"
  "send_done E s fd command e = Some (r, s') \<Longrightarrow> view s' = view s"
  "send_index8 E s fd command i e = Some (r, s') \<Longrightarrow> view s' = view s"
  by (auto simp: send_error_def send_data_def send_id_def send_done_def send_index8_def
      split: if_splits dest!: message_send_view)

lemma after_write_view [view_rules]:
  "after_write E s fd command c idx offset sz = Some (r, s') \<Longrightarrow> view s' = view s"
  by (auto simp: after_write_def split: if_splits dest!: send_view map_check_view)

section \<open>Handlers\<close>

lemma with_module_view:
  assumes "with_module s fd f = Some (r, s')"
    and "\<And>m d s1 r s2. mod_heap s1 m = Some d \<Longrightarrow> f m d s1 = Some (r, s2) \<Longrightarrow> view s2 = view s1"
  shows "view s' = view s"
proof -
  from assms(1) obtain m s1 d where "module_find_fd s fd = (Some m, s1)" "mod_heap s1 m = Some d" "f m d s1 = Some (r, s')"
    unfolding with_module_def Let_def by (auto split: prod.splits)
  then show ?thesis using assms(2) module_find_fd_view by metis
qed

lemma msg_group_view:
  "msg_group_add E s m = Some (r, s') \<Longrightarrow> view s' = view s"
  "msg_group_del E s m = Some (r, s') \<Longrightarrow> view s' = view s"
  "msg_group_read E s m = Some (r, s') \<Longrightarrow> view s' = view s"
  "msg_group_write E s m = Some (r, s') \<Longrightarrow> view s' = view s"
  "msg_group_mask_write E s m = Some (r, s') \<Longrightarrow> view s' = view s"
  unfolding msg_group_add_def msg_group_del_def msg_group_read_def msg_group_write_def msg_group_mask_write_def
  by (auto elim!: with_module_view split: if_splits dest!: send_view group_read_view group_write_view)

lemma msg_tag_view:
  "msg_tag_get E s m = Some (r, s') \<Longrightarrow> view s' = view s"
  "msg_tag_list E s m = Some (r, s') \<Longrightarrow> view s' = view s"
  "msg_tag_read E s m = Some (r, s') \<Longrightarrow> view s' = view s"
  "msg_tag_write E s m = Some (r, s') \<Longrightarrow> view s' = view s"
  "msg_tag_mask_write E s m = Some (r, s') \<Longrightarrow> view s' = view s"
  unfolding msg_tag_get_def msg_tag_list_def msg_tag_read_def msg_tag_write_def msg_tag_mask_write_def Let_def
  by (auto split: if_splits sum.splits
      dest!: send_view tag_read_view tag_write_view tag_mask_write_view after_write_view)

lemma msg_evnt_view:
  "msg_evnt_add E s m = Some (r, s') \<Longrightarrow> view s' = view s"
  "msg_evnt_del E s m = Some (r, s') \<Longrightarrow> view s' = view s"
  "msg_evnt_get E s m = Some (r, s') \<Longrightarrow> view s' = view s"
  "msg_evnt_opt E s m = Some (r, s') \<Longrightarrow> view s' = view s"
  unfolding msg_evnt_add_def msg_evnt_del_def msg_evnt_get_def msg_evnt_opt_def Let_def
  by (auto split: prod.splits option.splits
      dest!: send_view event_add_view event_del_view event_opt_view module_find_fd_view)

lemma msg_map_view:
  "msg_cdt_get E s m = Some (r, s') \<Longrightarrow> view s' = view s"
  "msg_map_add E s m = Some (r, s') \<Longrightarrow> view s' = view s"
  "msg_map_del E s m = Some (r, s') \<Longrightarrow> view s' = view s"
  "msg_map_get E s m = Some (r, s') \<Longrightarrow> view s' = view s"
  unfolding msg_cdt_get_def msg_map_add_def msg_map_del_def msg_map_get_def Let_def
  by (auto split: if_splits sum.splits dest!: send_view map_add_view map_del_view)

lemma msg_override_view:
  "msg_atomic_op E s m = Some (r, s') \<Longrightarrow> view s' = view s"
  "msg_add_override E s m = Some (r, s') \<Longrightarrow> view s' = view s"
  "msg_del_override E s m = Some (r, s') \<Longrightarrow> view s' = view s"
  "msg_get_override E s m = Some (r, s') \<Longrightarrow> view s' = view s"
  "msg_set_override E s m = Some (r, s') \<Longrightarrow> view s' = view s"
  unfolding msg_atomic_op_def msg_add_override_def msg_del_override_def msg_get_override_def
    msg_set_override_def Let_def
  by (auto split: if_splits dest!: send_view atomic_op_view map_check_view override_add_view
      override_del_view override_set_view)

lemmas msg_view = msg_group_view msg_tag_view msg_evnt_view msg_map_view msg_override_view

end
