(* ===== verification/Tag_Laws.thy ===== *)
theory Tag_Laws
  imports Db_Invariant Frames
begin

text \<open>
  Adding and deleting tags and creating types keep the invariant of the database, whatever the
  allocator does; and what a client sees of the database afterwards.
\<close>

section \<open>The view after single assignments\<close>

lemma view_set_tag_upd: "view (set_tag s i t) = (view s)\<lparr>v_tags := (v_tags (view s))[nat i := core t]\<rparr>"
  by (simp add: view_def set_tag_def map_update idx_of_def)

lemma view_counters:
  "view (s\<lparr>tagnextindex := a\<rparr>) = (view s)\<lparr>v_next := a\<rparr>"
  "view (s\<lparr>tagcount := b\<rparr>) = (view s)\<lparr>v_count := b\<rparr>"
  by (simp_all add: view_def idx_of_def)

lemma view_index:
  "view (s\<lparr>name_index := a, indexcount := b\<rparr>) =
    (view s)\<lparr>v_index := (v_index (view s))\<lparr>ix_arr := a, ix_count := b\<rparr>\<rparr>"
  by (simp add: view_def idx_of_def)

lemma view_simps [simp]:
  "v_next (view s) = tagnextindex s" "v_count (view s) = tagcount s" "v_index (view s) = idx_of s"
  "length (v_tags (view s)) = length (db s)" "v_types (view s) = map cdt_fresh (cdts s)"
  by (simp_all add: view_def)

lemma view_tags: "get_tag s i = Some t \<Longrightarrow> v_tags (view s) ! nat i = core t"
  by (auto simp: view_def get_tag_def arr_get_Some_iff nat_less_iff)

lemma core_simps [simp]:
  "c_name (core t) = t_name t" "c_type (core t) = t_type t" "c_count (core t) = t_count t"
  "c_shape (core t) = data_shape (t_data t)"
  by (simp_all add: core_def)

lemma set_tag_set_tag [simp]: "set_tag (set_tag s i a) i b = set_tag s i b"
  by (simp add: set_tag_def)

lemma idx_of_set_tag [simp]: "idx_of (set_tag s i t) = idx_of s"
  by (simp add: idx_of_def)

lemma db_invD:
  assumes "db_inv s"
  shows "wf_cdts (cdts s)" "idx_inv (idx_of s)" "int (length (db s)) = dbsize s" "9 \<le> length (db s)"
    "0 \<le> tagnextindex s" "tagnextindex s \<le> dbsize s" "indexcount s = tagcount s" "index_ok (view s)"
  using assms by (simp_all add: db_inv_def inv_view_def)

lemma db_inv_lookup:
  assumes "db_inv s" and "idx_lookup (idx_of s) nm = Some i"
  obtains t where "get_tag s i = Some t" and "t_name t = Some nm" and "0 \<le> i" and "i < tagnextindex s"
proof -
  have i: "0 \<le> i" "i < tagnextindex s" "c_name (v_tags (view s) ! nat i) = Some nm"
    using db_invD(8) [OF assms(1)] assms(2) by (auto simp: index_ok_def)
  then have "i < int (length (db s))" using db_invD(3,6) [OF assms(1)] by linarith
  then have g: "get_tag s i = Some (db s ! nat i)" using i(1) by (simp add: get_tag_def arr_get_def)
  with i(3) have "t_name (db s ! nat i) = Some nm" by (simp add: view_tags)
  with g i(1,2) that show ?thesis by blast
qed

lemma db_inv_lookup_name:
  assumes "db_inv s" and "get_tag s i = Some t" and "i < tagnextindex s" and "t_name t = Some nm"
  shows "idx_lookup (idx_of s) nm = Some i"
  using db_invD(8) [OF assms(1)] assms get_tag_Some_range [OF assms(2)] view_tags [OF assms(2)]
  by (simp add: index_ok_def)

lemma db_inv_core:
  assumes "db_inv s" and "get_tag s i = Some t" and "i < tagnextindex s"
  shows "core_ok (cdts s) (core t)"
proof -
  have "core_ok (map cdt_fresh (cdts s)) (v_tags (view s) ! nat i)"
    using assms(1,3) get_tag_Some_range [OF assms(2)] by (simp add: db_inv_def inv_view_def nat_mono_iff)
  then show ?thesis by (simp add: view_tags [OF assms(2)] core_ok_def)
qed

lemma db_inv_get_tag:
  assumes "db_inv s" and "0 \<le> i" and "i < tagnextindex s"
  obtains t where "get_tag s i = Some t"
proof -
  have "i < int (length (db s))" using db_invD(3,6) [OF assms(1)] assms(3) by linarith
  then have "get_tag s i = Some (db s ! nat i)" using assms(2) by (simp add: get_tag_def arr_get_def)
  then show ?thesis by (rule that)
qed

section \<open>Adding a tag\<close>

text \<open>The memory for the head of a queue.\<close>

definition queue_mem :: "env \<Rightarrow> bool" where
  "queue_mem E \<longleftrightarrow> alloc E A_queue \<and> alloc E A_queue_array"

lemma tag_alloc_spec:
  assumes "tag_alloc E s type count sz = Some (r, s1)" and "queue_mem E"
  obtains t where "s1 = set_tag s (tagnextindex s) t" and "get_tag s1 (tagnextindex s) = Some t"
    and "t_type t = type" and "t_count t = count"
    and "r = 0 \<Longrightarrow> data_shape (t_data t) = (if IS_QUEUE type then Sh_virt else Sh_block (unat sz))"
proof -
  let ?n = "tagnextindex s"
  from assms(1) obtain t0 where t0: "get_tag s ?n = Some t0" by (auto simp: tag_alloc_def Let_def)
  have set: "get_tag (set_tag s ?n t) ?n = Some t" for t
    using get_tag_Some_range [OF t0] by simp
  show ?thesis
  proof (cases "IS_QUEUE type")
    case True
    with assms t0 obtain r1 where q: "queue_add E (set_tag s ?n (t0\<lparr>t_count := count, t_type := type\<rparr>)) ?n type count = Some (r1, s1)"
      by (auto simp: tag_alloc_def Let_def)
    with assms(2) set show ?thesis
      by (auto simp: queue_add_def queue_mem_def Let_def True intro!: that split: if_splits)
  next
    case False
    show ?thesis
    proof (cases "alloc E A_tag_data")
      case True
      show ?thesis
        by (rule that [of "t0\<lparr>t_count := count, t_type := type, t_data := D_block (replicate (unat sz) 0)\<rparr>"])
          (use assms(1) t0 False True set in \<open>auto simp: tag_alloc_def Let_def\<close>)
    next
      case nf: False
      show ?thesis
        by (rule that [of "t0\<lparr>t_count := count, t_type := type, t_data := D_null\<rparr>"])
          (use assms(1) t0 False nf set in \<open>auto simp: tag_alloc_def Let_def\<close>)
    qed
  qed
qed

lemma tag_publish_view:
  assumes "tag_publish E s n name type count attr = Some (r, s')"
  shows "r = n \<and> view s' = (view s)\<lparr>v_next := tagnextindex s + 1, v_count := tagcount s + 1\<rparr>"
proof -
  from assms obtain s1 s2 s4 s5 where
    s: "(if IS_CUSTOM type then cdt_inc_refcount s type else Some s) = Some s1"
      "status_write E s1 INDEX_LASTINDEX (tagnextindex s1) = Some s2"
      "status_write E (s2\<lparr>tagnextindex := tagnextindex s2 + 1, tagcount := tagcount s2 + 1\<rparr>) INDEX_TAGCOUNT
        (tagcount s2 + 1) = Some s4"
      "set_attribute s4 n attr = Some s5"
      "sys_write E s5 INDEX_ADDED_TAG (tag_desc E n type count (ucast attr) name) = Some s'" "r = n"
    by (auto simp: tag_publish_def Let_def)
  have v1: "view s1 = view s" using s(1) by (auto split: if_splits dest: cdt_inc_refcount_view)
  have v2: "view s2 = view s" using status_write_view [OF s(2)] v1 by simp
  have "view s' = view (s2\<lparr>tagnextindex := tagnextindex s2 + 1, tagcount := tagcount s2 + 1\<rparr>)"
    using status_write_view [OF s(3)] set_attribute_view [OF s(4)] sys_write_view [OF s(5)] by simp
  then show ?thesis using s(6) v2 view_eqD(1,2) [OF v2] by (simp add: view_counters)
qed

text \<open>An entry above the last tag does not matter.\<close>

lemma inv_view_unused:
  assumes "inv_view v" and "nat (v_next v) \<le> i"
  shows "inv_view (v\<lparr>v_tags := (v_tags v)[i := c]\<rparr>)" (is "inv_view ?v")
proof -
  note v = assms(1) [unfolded inv_view_def]
  have tags: "k < nat (v_next v) \<Longrightarrow> v_tags ?v ! k = v_tags v ! k" for k
    using assms(2) by simp
  have "live ?v = live v" unfolding live_def using tags by auto
  moreover have "index_ok ?v" using v tags unfolding index_ok_def by (auto simp: nat_mono_iff)
  moreover have "\<forall>k < nat (v_next v). core_ok (v_types v) (v_tags ?v ! k)" using v tags by simp
  ultimately show ?thesis using v by (simp add: inv_view_def)
qed

lemma tag_add_new_view:
  assumes "tag_add_new E s fd name type count attr sz = Some (r, s')" and "db_inv s" and "queue_mem E"
    and "tagnextindex s < dbsize s" and "idx_lookup (idx_of s) name = None"
    and "checktype (cdts s) type = 0" and "data_size (cdts s) type count = Some sz"
  shows "db_inv s' \<and> (r < 0 \<and> r = ERR_ALLOC \<and> idx_of s' = idx_of s \<or>
    r = tagnextindex s \<and>
    (\<exists>ix. idx_lookup ix = (idx_lookup (idx_of s))(name \<mapsto> r) \<and>
      view s' = (view s)\<lparr>v_tags := (v_tags (view s))[nat r :=
          \<lparr>c_name = Some name, c_type = type, c_count = count,
           c_shape = (if IS_QUEUE type then Sh_virt else Sh_block (unat sz))\<rparr>],
        v_index := ix, v_next := r + 1, v_count := tagcount s + 1\<rparr>))"
proof -
  let ?n = "tagnextindex s"
  note inv = db_invD [OF assms(2)]
  have iv: "inv_view (view s)" using assms(2) by (simp add: db_inv_def)
  from assms(1) obtain r1 s1 where al: "tag_alloc E s type count sz = Some (r1, s1)"
    by (auto simp: tag_add_new_def Let_def)
  from tag_alloc_spec [OF al assms(3)] obtain t where
    t: "s1 = set_tag s ?n t" "get_tag s1 ?n = Some t" "t_type t = type" "t_count t = count"
      "r1 = 0 \<Longrightarrow> data_shape (t_data t) = (if IS_QUEUE type then Sh_virt else Sh_block (unat sz))"
    by blast
  have unused: "db_inv (set_tag s ?n x)" for x
    unfolding db_inv_def view_set_tag_upd using iv by (rule inv_view_unused) simp
  show ?thesis
  proof (cases "r1 = 0")
    case False
    with assms(1) al have "r = ERR_ALLOC" "s' = s1" by (auto simp: tag_add_new_def Let_def)
    with unused t(1) show ?thesis by simp
  next
    case ok: True
    define t2 where "t2 = t\<lparr>t_nextevent := 1, t_nextmap := 1, t_fd := fd, t_events := [],
              t_omask := None, t_odata := None\<rparr>"
    define s2 where "s2 = set_tag s ?n t2"
    have s2: "set_tag s1 ?n t2 = s2" by (simp add: s2_def t(1))
    have g2: "get_tag s2 ?n = Some t2"
      using get_tag_Some_range [OF t(2)] by (simp add: s2_def t(1))
    have idx2: "idx_of s2 = idx_of s" by (simp add: s2_def idx_of_def)
    from assms(1) al ok t(2) s2 obtain r3 s3 where
      ai: "add_index E s2 name ?n = Some (r3, s3)"
      and rest: "if r3 \<noteq> 0 then r = ERR_ALLOC \<and> s' = s3 else tag_publish E s3 ?n name type count attr = Some (r, s')"
      by (auto simp: tag_add_new_def Let_def t2_def split: if_splits)
    show ?thesis
    proof (cases "alloc E A_index_name")
      case False
      with ai have "r3 = ERR_ALLOC" "s3 = s2" by (auto simp: add_index_def)
      with rest unused show ?thesis by (simp add: s2_def)
    next
      case True
      have room: "idx_room (idx_of s2)"
        using inv live_count [OF iv] assms(4) by (simp add: idx2 idx_room_def)
      from add_index_spec [of s2 name E ?n t2] obtain ix where
        ix: "add_index E s2 name ?n =
          Some (0, (set_tag s2 ?n (t2\<lparr>t_name := Some name\<rparr>))\<lparr>name_index := ix_arr ix, indexcount := ix_count ix\<rparr>)"
          "idx_inv ix" "ix_size ix = dbsize s2" "ix_count ix = indexcount s2 + 1"
          "idx_lookup ix = (idx_lookup (idx_of s2))(name \<mapsto> ?n)"
        using inv assms(5) True room g2 by (auto simp: idx2)
      define t3 where "t3 = t2\<lparr>t_name := Some name\<rparr>"
      have s3: "r3 = 0" "s3 = (set_tag s ?n t3)\<lparr>name_index := ix_arr ix, indexcount := ix_count ix\<rparr>"
        using ai ix(1) by (simp_all add: s2_def t3_def)
      have sz: "ix_size ix = dbsize s" using ix(3) by (simp add: s2_def)
      have pub: "tag_publish E s3 ?n name type count attr = Some (r, s')" using rest s3(1) by simp
      note tp = tag_publish_view [OF pub]
      let ?c = "\<lparr>c_name = Some name, c_type = type, c_count = count,
           c_shape = (if IS_QUEUE type then Sh_virt else Sh_block (unat sz))\<rparr>"
      have c: "core t3 = ?c" using t(3-5) ok by (simp add: core_def t3_def t2_def)
      have "view s3 = (view s)\<lparr>v_tags := (v_tags (view s))[nat ?n := ?c], v_index := ix\<rparr>"
        using c sz by (simp add: s3(2) view_index view_set_tag_upd name_idx_eta idx_of_def)
      then have v': "view s' = (view s)\<lparr>v_tags := (v_tags (view s))[nat ?n := ?c], v_index := ix,
          v_next := ?n + 1, v_count := tagcount s + 1\<rparr>"
        using tp by (simp add: s3(2))
      have "core_ok (v_types (view s)) ?c"
        using assms(6,7) by (simp add: core_ok_def)
      moreover have l: "idx_lookup ix = (idx_lookup (idx_of s))(name \<mapsto> ?n)" "ix_count ix = indexcount s + 1"
        using ix(4,5) idx2 by (simp_all add: s2_def)
      ultimately have "inv_view (view s')"
        unfolding v' using inv_view_add [OF iv, of name ix ?c] assms(4,5) inv ix(2) sz
        by (simp only: view_simps idx_of_simps tag_core.simps)
      then show ?thesis
        using tp v' l by (auto simp: db_inv_def)
    qed
  qed
qed

text \<open>Twice as many entries.\<close>

lemma database_grow_inv:
  assumes "database_grow E s = Some (r, s')" and "db_inv s"
  shows "db_inv s' \<and> cdts s' = cdts s \<and> tagnextindex s' = tagnextindex s \<and> tagcount s' = tagcount s \<and>
    idx_lookup (idx_of s') = idx_lookup (idx_of s) \<and> (r = 0 \<or> s' = s) \<and>
    (\<forall>i. i < tagnextindex s \<longrightarrow> get_tag s' i = get_tag s i) \<and> (r = 0 \<longrightarrow> tagnextindex s' < dbsize s')"
proof (cases "alloc E A_grow_index \<and> alloc E A_grow_db")
  case False
  with assms show ?thesis by (auto simp: database_grow_def split: if_splits)
next
  case True
  note inv = db_invD [OF assms(2)]
  have n: "nat (dbsize s) = length (db s)" using inv(3) by linarith
  let ?ts = "map (junk_tag E) [length (db s)..<length (db s) + nat (dbsize s)]"
  let ?xs = "replicate (nat (dbsize s)) ([], 0) :: (string \<times> int) list"
  have s': "r = 0" "s' = s\<lparr>name_index := name_index s @ ?xs, db := db s @ ?ts, dbsize := dbsize s * 2\<rparr>"
    using assms(1) True by (simp_all add: database_grow_def)
  have ix: "idx_of s' = (idx_of s)\<lparr>ix_arr := ix_arr (idx_of s) @ ?xs, ix_size := ix_size (idx_of s) * 2\<rparr>"
    by (simp add: s'(2) idx_of_def)
  have "view s' = (view s)\<lparr>v_tags := v_tags (view s) @ map core ?ts, v_index := idx_of s'\<rparr>"
    by (simp add: view_def s'(2))
  then have "db_inv s'"
    using inv_view_grow [of "view s" "map core ?ts" ?xs] assms(2) n
    by (simp add: db_inv_def ix)
  moreover have "idx_lookup (idx_of s') = idx_lookup (idx_of s)"
    unfolding ix by (rule idx_grow(2) [OF inv(2)]) simp_all
  moreover have "\<forall>i. i < tagnextindex s \<longrightarrow> get_tag s' i = get_tag s i"
    using inv(3,6) by (auto simp: s'(2) get_tag_def arr_get_def nth_append nat_less_iff)
  moreover have "tagnextindex s' < dbsize s'"
    using inv(3,4,6) by (simp add: s'(2))
  ultimately show ?thesis using s' by simp
qed

lemma realloc_data_shape:
  assumes "realloc_data E d n = Some d'"
  shows "data_shape d' = Sh_block n \<or> data_shape d' = Sh_virt \<and> d' = d"
  using assms by (cases d) (auto simp: realloc_data_def split: if_splits)

lemma tag_add_existing_inv:
  assumes "tag_add_existing E s fd n type count attr sz = Some (r, s')" and "db_inv s"
    and "get_tag s n = Some t" and "n < tagnextindex s" and "t_name t = Some name"
    and "checktype (cdts s) type = 0" and "data_size (cdts s) type count = Some sz"
  shows "db_inv s' \<and> idx_of s' = idx_of s \<and> tagnextindex s' = tagnextindex s \<and>
    (r < 0 \<or> r = n \<and> (\<exists>t'. get_tag s' n = Some t' \<and> t_type t' = type \<and> count \<le> t_count t'))"
proof -
  consider "s' = s" "r < 0"
    | "set_attribute s n attr = Some s'" "r = n" "t_type t = type" "count \<le> t_count t"
    | d s1 where "realloc_data E (t_data t) (unat sz) = Some d" "r = n" "t_type t = type"
        "set_attribute (set_tag s n (t\<lparr>t_data := d, t_count := count\<rparr>)) n attr = Some s1"
        "sys_write E s1 INDEX_ADDED_TAG (enc_int n) = Some s'"
    using assms(1,3) by (auto simp: tag_add_existing_def split: if_splits)
  then show ?thesis
  proof cases
    case 1
    with assms(2) show ?thesis by simp
  next
    case 2
    then have v: "view s' = view s" by (simp add: set_attribute_view)
    from view_tag [OF v assms(3)] obtain t' where "get_tag s' n = Some t'" "core t' = core t" .
    with db_inv_view [OF v assms(2)] view_eqD [OF v] 2 show ?thesis by (simp add: idx_of_def core_def)
  next
    case 3
    let ?t = "t\<lparr>t_data := d, t_count := count\<rparr>"
    have v: "view s' = view (set_tag s n ?t)"
      using set_attribute_view [OF 3(4)] sys_write_view [OF 3(5)] by simp
    have r: "0 \<le> n" "n < int (length (db s))" using get_tag_Some_range [OF assms(3)] by simp_all
    have "core_ok (cdts s) (core ?t)"
      using realloc_data_shape [OF 3(1)] assms(5-7) 3(3) by (auto simp: core_ok_def)
    then have "core_ok (map cdt_fresh (cdts s)) (core ?t)" by (simp add: core_ok_def)
    then have "inv_view (view (set_tag s n ?t))"
      unfolding view_set_tag_upd using assms(2,4) r view_tags [OF assms(3)]
      by (intro inv_view_update) (simp_all add: db_inv_def nat_mono_iff)
    then have "db_inv s'" using v by (simp add: db_inv_def)
    moreover from view_tag [OF v, of n ?t] r obtain t' where "get_tag s' n = Some t'" "core t' = core ?t"
      by auto
    ultimately show ?thesis using view_eqD [OF v] 3(2,3) by (simp add: idx_of_def core_def)
  qed
qed

text \<open>Adding a tag runs through a search; this is what a caller can rely on in either case.\<close>

lemma tag_add_cases:
  assumes "tag_add E s fd name type count attr = Some (r, s')" and "db_inv s"
  obtains "r < 0" "db_inv s'" "idx_lookup (idx_of s') = idx_lookup (idx_of s)"
  | s1 sz where "db_inv s1" "idx_lookup (idx_of s1) = idx_lookup (idx_of s)" "tagnextindex s1 = tagnextindex s"
      "tagnextindex s1 < dbsize s1" "checktype (cdts s1) type = 0" "data_size (cdts s1) type count = Some sz"
      "validate_name name = 0" "idx_lookup (idx_of s) name = None"
      "\<forall>i. i < tagnextindex s \<longrightarrow> get_tag s1 i = get_tag s i"
      "tag_add_new E s1 fd name type count attr sz = Some (r, s')"
  | s1 sz n t where "db_inv s1" "idx_lookup (idx_of s1) = idx_lookup (idx_of s)" "tagnextindex s1 = tagnextindex s"
      "checktype (cdts s1) type = 0" "data_size (cdts s1) type count = Some sz"
      "get_tag s1 n = Some t" "t_name t = Some name" "0 \<le> n" "n < tagnextindex s1"
      "idx_lookup (idx_of s) name = Some n"
      "tag_add_existing E s1 fd n type count attr sz = Some (r, s')"
proof (cases "count = 0")
  case True
  with assms that(1) show ?thesis by (simp add: tag_add_def)
next
  case False
  with assms(1) obtain g s1 where
    g: "(if dbsize s \<le> tagnextindex s then database_grow E s else Some (0, s)) = Some (g, s1)"
    and rest: "(if g \<noteq> 0 then Some (ERR_ALLOC, s1)
       else if checktype (cdts s1) type \<noteq> 0 then Some (ERR_BADTYPE, s1)
       else if validate_name name \<noteq> 0 then Some (ERR_TAG_BAD, s1)
       else do {
         sz \<leftarrow> data_size (cdts s1) type count;
         n \<leftarrow> get_by_name s1 name;
         if 0 \<le> n then tag_add_existing E s1 fd n type count attr sz
         else tag_add_new E s1 fd name type count attr sz
       }) = Some (r, s')"
    by (auto simp: tag_add_def)
  have s1: "db_inv s1" "g = 0 \<Longrightarrow> tagnextindex s1 < dbsize s1" "idx_lookup (idx_of s1) = idx_lookup (idx_of s)"
    "tagnextindex s1 = tagnextindex s" "\<forall>i. i < tagnextindex s \<longrightarrow> get_tag s1 i = get_tag s i"
    using g database_grow_inv [of E s g s1] assms(2) by (auto split: if_splits)
  show ?thesis
  proof (cases "g = 0 \<and> checktype (cdts s1) type = 0 \<and> validate_name name = 0")
    case False
    with rest have "r < 0" "s' = s1" by (auto split: if_splits)
    with that(1) s1(1,3) show ?thesis by simp
  next
    case True
    with rest obtain sz n where sz: "data_size (cdts s1) type count = Some sz"
      and n: "get_by_name s1 name = Some n"
      and op: "(if 0 \<le> n then tag_add_existing E s1 fd n type count attr sz
         else tag_add_new E s1 fd name type count attr sz) = Some (r, s')"
      by auto
    have look: "n = (case idx_lookup (idx_of s1) name of Some v \<Rightarrow> v | None \<Rightarrow> ERR_NOTFOUND)"
      using get_by_name_lookup [OF db_invD(2) [OF s1(1)], of name] n by simp
    show ?thesis
    proof (cases "idx_lookup (idx_of s1) name")
      case None
      with look op that(2) [OF s1(1,3,4)] s1(2,3,5) sz True show ?thesis by simp
    next
      case (Some i)
      from db_inv_lookup [OF s1(1) Some] obtain t where
        t: "get_tag s1 i = Some t" "t_name t = Some name" "0 \<le> i" "i < tagnextindex s1" .
      with Some look op that(3) [OF s1(1,3,4) _ sz t] s1(3) True show ?thesis by simp
    qed
  qed
qed

theorem tag_add_inv:
  assumes "tag_add E s fd name type count attr = Some (r, s')" and "db_inv s" and "queue_mem E"
  shows "db_inv s'"
  using assms(1,2)
proof (cases rule: tag_add_cases)
  case (2 s1 sz)
  then show ?thesis using tag_add_new_view [OF 2(10) 2(1) assms(3) 2(4) _ 2(5,6)] by simp
next
  case (3 s1 sz n t)
  then show ?thesis using tag_add_existing_inv [OF 3(11) 3(1) 3(6,9,7) 3(4,5)] by simp
qed

text \<open>A tag that was added can be found; other names are not affected.\<close>

lemma tag_add_found:
  assumes "tag_add E s fd name type count attr = Some (r, s')" and "db_inv s" and "queue_mem E" and "0 \<le> r"
  shows "r < tagnextindex s' \<and> idx_lookup (idx_of s') = (idx_lookup (idx_of s))(name \<mapsto> r) \<and>
    (\<exists>t. get_tag s' r = Some t \<and> t_name t = Some name \<and> t_type t = type \<and> count \<le> t_count t)"
  using assms(1,2)
proof (cases rule: tag_add_cases)
  case 1
  with assms(4) show ?thesis by simp
next
  case (2 s1 sz)
  let ?c = "\<lparr>c_name = Some name, c_type = type, c_count = count,
           c_shape = (if IS_QUEUE type then Sh_virt else Sh_block (unat sz))\<rparr>"
  have none: "idx_lookup (idx_of s1) name = None" using 2(2,8) by simp
  from tag_add_new_view [OF 2(10) 2(1) assms(3) 2(4) none 2(5,6)] assms(4) obtain ix where
    r: "r = tagnextindex s1" "idx_lookup ix = (idx_lookup (idx_of s1))(name \<mapsto> r)"
    and v: "view s' = (view s1)\<lparr>v_tags := (v_tags (view s1))[nat r := ?c],
        v_index := ix, v_next := r + 1, v_count := tagcount s1 + 1\<rparr>" by auto
  have len: "length (db s') = length (db s1)" using arg_cong [OF v, of "\<lambda>x. length (v_tags x)"] by simp
  have ix: "idx_of s' = ix" "tagnextindex s' = r + 1"
    using arg_cong [OF v, of v_index] arg_cong [OF v, of v_next] by simp_all
  have rl: "r < int (length (db s'))" using 2(4) db_invD(3) [OF 2(1)] r(1) len by simp
  then have g: "get_tag s' r = Some (db s' ! nat r)" using assms(4) by (simp add: get_tag_def arr_get_def)
  have "core (db s' ! nat r) = ?c"
    using view_tags [OF g] arg_cong [OF v, of "\<lambda>x. v_tags x ! nat r"] rl len assms(4) by (simp add: nat_less_iff)
  then have "t_name (db s' ! nat r) = Some name" "t_type (db s' ! nat r) = type" "t_count (db s' ! nat r) = count"
    by (simp_all add: core_def)
  with g ix r 2(2) show ?thesis by simp
next
  case (3 s1 sz n t)
  note ex = tag_add_existing_inv [OF 3(11) 3(1) 3(6,9,7) 3(4,5)]
  with assms(4) have r: "r = n" by auto
  with ex assms(4) obtain t' where t': "get_tag s' n = Some t'" "t_type t' = type" "count \<le> t_count t'" by auto
  have look: "idx_lookup (idx_of s') = idx_lookup (idx_of s)" using ex 3(2) by simp
  then have "idx_lookup (idx_of s') name = Some n" using 3(10) by simp
  from db_inv_lookup [OF _ this] ex t'(1) have "t_name t' = Some name" by auto
  with t' look r ex 3(3,9,10) show ?thesis by (auto simp: fun_upd_idem)
qed

text \<open>A tag that could not be added has not changed the index.\<close>

lemma tag_add_failed:
  assumes "tag_add E s fd name type count attr = Some (r, s')" and "db_inv s" and "queue_mem E" and "r < 0"
  shows "idx_lookup (idx_of s') = idx_lookup (idx_of s)"
  using assms(1,2)
proof (cases rule: tag_add_cases)
  case (2 s1 sz)
  have "idx_lookup (idx_of s1) name = None" using 2(2,8) by simp
  from tag_add_new_view [OF 2(10) 2(1) assms(3) 2(4) this 2(5,6)] assms(4) db_invD(5) [OF 2(1)] 2(2) show ?thesis
    by auto
next
  case (3 s1 sz n t)
  with assms(4) have "s' = s1" by (auto simp: tag_add_existing_def split: if_splits)
  with 3(2) show ?thesis by simp
qed

section \<open>Deleting a tag\<close>

lemma tag_detach_view:
  assumes "tag_detach E s idx = Some (t1, name, s')" and "db_inv s" and "idx < tagnextindex s"
  obtains ix where "view s' = (view s)\<lparr>v_index := ix\<rparr>" and "idx_inv ix" and "ix_size ix = dbsize s"
    and "ix_count ix = indexcount s - 1" and "idx_lookup ix = (idx_lookup (idx_of s))(name := None)"
    and "idx_lookup (idx_of s) name = Some idx" and "get_tag s' idx = Some t1"
proof -
  from assms(1) obtain s1 t s2 where
    s: "event_del_check E s idx = Some s1" "get_tag s1 idx = Some t"
      "(if IS_CUSTOM (t_type t) then cdt_dec_refcount s1 (t_type t) else Some s1) = Some s2"
      "t_name t = Some name" "t1 = t\<lparr>t_events := [], t_mappings := []\<rparr>"
      "del_index (set_tag (if attr_set (t_attr t) TAG_ATTR_RETAIN then s2\<lparr>retained := retained s2 @ [Ret_del idx]\<rparr> else s2)
         idx t1) name = Some s'"
    by (auto simp: tag_detach_def Let_def)
  define s3 where "s3 = (if attr_set (t_attr t) TAG_ATTR_RETAIN then s2\<lparr>retained := retained s2 @ [Ret_del idx]\<rparr> else s2)"
  from event_del_check_frame [OF s(1)] obtain x where x: "s1 = s\<lparr>sent := sent s @ x\<rparr>" by blast
  have db1: "get_tag s idx = Some t" using s(2) by (simp add: x get_tag_def)
  have db2: "db s2 = db s1"
    using s(3) by (auto simp: cdt_dec_refcount_def split: if_splits)
  have g3: "get_tag s3 idx = Some t" using db2 s(2) by (simp add: s3_def get_tag_def)
  have "view s2 = view s1" using s(3) by (auto split: if_splits dest: cdt_dec_refcount_view)
  then have v3: "view s3 = view s" by (simp add: s3_def x)
  define s4 where "s4 = set_tag s3 idx t1"
  have v4: "view s4 = view s"
    using view_set_tag [OF g3, of t1] v3 by (simp add: s4_def s(5) core_def)
  have g4: "get_tag s4 idx = Some t1"
    using get_tag_Some_range [OF g3] by (simp add: s4_def)
  have i4: "idx_of s4 = idx_of s" using v4 by (simp add: view_def)
  have look: "idx_lookup (idx_of s) name = Some idx"
    by (rule db_inv_lookup_name [OF assms(2) db1 assms(3) s(4)])
  from del_index_spec [of s4 name] db_invD(2) [OF assms(2)] look obtain ix where
    ix: "del_index s4 name = Some (s4\<lparr>name_index := ix_arr ix, indexcount := ix_count ix\<rparr>)"
      "idx_inv ix" "ix_size ix = dbsize s4" "ix_count ix = indexcount s4 - 1"
      "idx_lookup ix = (idx_lookup (idx_of s4))(name := None)"
    by (auto simp: i4)
  have s': "s' = s4\<lparr>name_index := ix_arr ix, indexcount := ix_count ix\<rparr>"
    using s(6) ix(1) by (simp add: s4_def s3_def)
  have z: "ix_size ix = dbsize s" using ix(3) view_eqD(6) [OF v4] by simp
  show ?thesis
  proof (rule that)
    show "view s' = (view s)\<lparr>v_index := ix\<rparr>"
      using v4 z by (simp add: s' view_index i4 name_idx_eta idx_of_def)
    show "get_tag s' idx = Some t1" using g4 by (simp add: s' get_tag_def)
  qed (use ix(2,4,5) z look i4 view_eqD(5) [OF v4] in simp_all)
qed

lemma tag_del_view:
  assumes "tag_del E s idx = Some (r, s')" and "db_inv s"
  shows "db_inv s' \<and> (r < 0 \<and> s' = s \<or>
    r = 0 \<and> 0 \<le> idx \<and> idx < tagnextindex s \<and>
    (\<exists>name ix c. idx_lookup (idx_of s) name = Some idx \<and> idx_lookup ix = (idx_lookup (idx_of s))(name := None) \<and>
      c_name c = None \<and> c_shape c = Sh_null \<and>
      view s' = (view s)\<lparr>v_tags := (v_tags (view s))[nat idx := c], v_index := ix, v_count := tagcount s - 1\<rparr>))"
proof -
  consider "r < 0" "s' = s"
    | t1 name s1 s2 t2 where "0 \<le> idx" "idx < tagnextindex s" "r = 0" "tag_detach E s idx = Some (t1, name, s1)"
        "sys_write E s1 INDEX_DELETED_TAG (tag_desc E idx (t_type t1) (t_count t1) (t_attr t1) name) = Some s2"
        "get_tag s2 idx = Some t2"
        "status_write E ((set_tag s2 idx (t2\<lparr>t_name := None, t_data := D_null, t_attr := 0\<rparr>))
            \<lparr>tagcount := tagcount s2 - 1\<rparr>) INDEX_TAGCOUNT (tagcount s2 - 1) = Some s'"
    using assms(1) by (auto simp: tag_del_def Let_def split: if_splits)
  then show ?thesis
  proof cases
    case 1
    with assms(2) show ?thesis by simp
  next
    case 2
    from tag_detach_view [OF 2(4) assms(2) 2(2)] obtain ix where
      ix: "view s1 = (view s)\<lparr>v_index := ix\<rparr>" "idx_inv ix" "ix_size ix = dbsize s" "ix_count ix = indexcount s - 1"
        "idx_lookup ix = (idx_lookup (idx_of s))(name := None)" "idx_lookup (idx_of s) name = Some idx" .
    let ?c = "core (t2\<lparr>t_name := None, t_data := D_null, t_attr := 0\<rparr>)"
    have v2: "view s2 = view s1" by (rule sys_write_view [OF 2(5)])
    have tc: "tagcount s2 = tagcount s" using v2 ix(1) by (simp add: view_def)
    have v': "view s' = (view s)\<lparr>v_tags := (v_tags (view s))[nat idx := ?c], v_index := ix, v_count := tagcount s - 1\<rparr>"
      using status_write_view [OF 2(7)] by (simp add: view_counters view_set_tag_upd v2 ix(1) tc)
    from db_inv_lookup [OF assms(2) ix(6)] obtain t where t: "get_tag s idx = Some t" "t_name t = Some name" .
    have "inv_view (view s')"
      unfolding v' using inv_view_del [of "view s" "nat idx" name ix ?c] assms(2) 2(1,2) ix(2-5) t view_tags [OF t(1)]
      by (simp add: db_inv_def nat_mono_iff)
    with 2(1-3) v' ix(5,6) show ?thesis
      unfolding db_inv_def by (intro conjI disjI2 exI) auto
  qed
qed

theorem tag_del_inv: "tag_del E s idx = Some (r, s') \<Longrightarrow> db_inv s \<Longrightarrow> db_inv s'"
  using tag_del_view by blast

section \<open>Creating a type\<close>

lemma cdt_create_view:
  assumes "cdt_create E s str = Some (t, e, s')"
  shows "s' = s \<or> (\<exists>d. view s' = (view s)\<lparr>v_types := v_types (view s) @ [d]\<rparr>)"
proof (cases "e = Some 0")
  case True
  with assms obtain name ms sz where
    "s' = s\<lparr>cdts := cdts s @ [\<lparr>d_name = name, d_flags = 0, d_refcount = 0, d_members = ms\<rparr>], datatype_size := sz\<rparr>"
    by (auto elim: cdt_create_new)
  then show ?thesis by (simp add: view_def idx_of_def)
next
  case False
  with cdt_create_same [OF assms] show ?thesis by simp
qed

theorem cdt_create_inv:
  assumes "cdt_create E s str = Some (t, e, s')" and "db_inv s" and "length (cdts s) < MAX_CDTS"
  shows "db_inv s'"
proof -
  have wf: "wf_cdts (map cdt_fresh (cdts s'))"
    using cdt_create_wf_table [OF assms(1)] db_invD(1) [OF assms(2)] assms(3) by simp
  from cdt_create_view [OF assms(1)] show ?thesis
  proof (elim disjE exE)
    fix d
    assume v: "view s' = (view s)\<lparr>v_types := v_types (view s) @ [d]\<rparr>"
    then have "wf_cdts (v_types (view s) @ [d])" using wf by (simp add: view_def)
    with inv_view_types [of "view s" "[d]"] assms(2) v show ?thesis by (simp add: db_inv_def)
  qed (use assms(2) in simp)
qed

end
