(* ===== verification/Server_Inv.thy ===== *)
theory Server_Inv
  imports Tag_Laws Server_Loop
begin

text \<open>
  The invariant of the whole server: every pass of the receive loop keeps it, whatever a client sends
  and whatever the allocator does, as long as no step has undefined behaviour.
\<close>

section \<open>Types and modules are kept\<close>

definition kept :: "server \<Rightarrow> cdt list \<times> mod_ptr set \<times> nat \<times> mod_ptr set \<times> int" where
  "kept s = (v_types (view s), v_mods (view s))"

lemma kept_simps [simp]:
  "kept (set_tag s i t) = kept s" "kept (s\<lparr>name_index := a\<rparr>) = kept s" "kept (s\<lparr>indexcount := b\<rparr>) = kept s"
  "kept (s\<lparr>db := c\<rparr>) = kept s" "kept (s\<lparr>dbsize := b\<rparr>) = kept s" "kept (s\<lparr>tagnextindex := b\<rparr>) = kept s"
  "kept (s\<lparr>tagcount := b\<rparr>) = kept s" "kept (s\<lparr>sent := e\<rparr>) = kept s" "kept (s\<lparr>retained := f\<rparr>) = kept s"
  by (simp_all add: kept_def view_def set_tag_def)

lemma kept_view: "view s' = view s \<Longrightarrow> kept s' = kept s"
  by (simp add: kept_def)

lemma kept_cdts: "kept s' = kept s \<Longrightarrow> length (cdts s') = length (cdts s)"
  by (auto simp: kept_def view_def dest: map_eq_imp_length_eq)

lemmas view_kept = view_rules [THEN kept_view]

lemma tag_add_existing_kept: "tag_add_existing E s fd n type count attr sz = Some (r, s') \<Longrightarrow> kept s' = kept s"
  by (auto simp: tag_add_existing_def split: if_splits dest!: view_kept)

lemma queue_add_kept: "queue_add E s idx type count = Some (r, s') \<Longrightarrow> kept s' = kept s"
  by (auto simp: queue_add_def Let_def split: if_splits)

lemma tag_alloc_kept: "tag_alloc E s type count sz = Some (r, s') \<Longrightarrow> kept s' = kept s"
  by (auto simp: tag_alloc_def Let_def split: if_splits dest!: queue_add_kept)

lemma add_index_kept: "add_index E s name n = Some (r, s') \<Longrightarrow> kept s' = kept s"
  by (auto simp: add_index_def split: if_splits)

lemma tag_publish_kept: "tag_publish E s n name type count attr = Some (r, s') \<Longrightarrow> kept s' = kept s"
  using tag_publish_view [of E s n name type count attr r s'] by (simp add: kept_def)

lemma tag_add_new_kept: "tag_add_new E s fd name type count attr sz = Some (r, s') \<Longrightarrow> kept s' = kept s"
  by (auto simp: tag_add_new_def Let_def split: if_splits dest!: tag_alloc_kept add_index_kept tag_publish_kept)

lemma database_grow_kept: "database_grow E s = Some (r, s') \<Longrightarrow> kept s' = kept s"
  by (auto simp: database_grow_def split: if_splits)

lemma tag_add_kept: "tag_add E s fd name type count attr = Some (r, s') \<Longrightarrow> kept s' = kept s"
  by (auto simp: tag_add_def split: if_splits
      dest!: tag_add_new_kept tag_add_existing_kept database_grow_kept)

lemma tag_del_kept:
  assumes "tag_del E s idx = Some (r, s')"
  shows "kept s' = kept s"
proof -
  have "kept s1 = kept s" if "tag_detach E s idx = Some (t, name, s1)" for t name s1
    using that event_del_check_frame [of E s idx]
    by (auto simp: tag_detach_def Let_def del_index_def split: if_splits dest!: view_kept)
  with assms show ?thesis
    by (auto simp: tag_del_def Let_def split: if_splits dest!: view_kept)
qed

section \<open>Start-up\<close>

definition srv_inv :: "server \<Rightarrow> bool" where
  "srv_inv s \<longleftrightarrow> db_inv s \<and> wf_modules s"

lemma wf_modules_kept: "kept s' = kept s \<Longrightarrow> wf_modules s \<Longrightarrow> wf_modules s'"
  using wf_modules_view [of "s\<lparr>modules := modules s', mod_heap := mod_heap s', module_count := module_count s'\<rparr>" s]
  by (simp add: kept_def view_def wf_modules_def idx_of_def)

lemma srv_inv_view: "view s' = view s \<Longrightarrow> srv_inv s \<Longrightarrow> srv_inv s'"
  by (simp add: srv_inv_def db_inv_def wf_modules_view)

lemma srv_inv_cong: "view s' = view s \<Longrightarrow> srv_inv s' = srv_inv s"
  using srv_inv_view [of s' s] srv_inv_view [of s s'] by auto

lemmas view_srv = view_rules [THEN srv_inv_cong] send_view [THEN srv_inv_cong]

lemma tag_add_srv:
  "tag_add E s fd name type count attr = Some (r, s') \<Longrightarrow> srv_inv s \<Longrightarrow> queue_mem E \<Longrightarrow> srv_inv s'"
  using tag_add_inv wf_modules_kept [OF tag_add_kept] by (simp add: srv_inv_def)

lemma tag_del_srv: "tag_del E s idx = Some (r, s') \<Longrightarrow> srv_inv s \<Longrightarrow> srv_inv s'"
  using tag_del_inv wf_modules_kept [OF tag_del_kept] by (simp add: srv_inv_def)

lemma cdt_create_srv:
  assumes "cdt_create E s str = Some (t, e, s')" and "srv_inv s" and "length (cdts s) < MAX_CDTS"
  shows "srv_inv s'"
proof -
  have "wf_modules s'"
    using cdt_create_view [OF assms(1)] assms(2) wf_modules_view [of "s'\<lparr>cdts := cdts s\<rparr>" s]
    by (auto simp: srv_inv_def view_def wf_modules_def idx_of_def)
  with cdt_create_inv [OF assms(1) _ assms(3)] assms(2) show ?thesis by (simp add: srv_inv_def)
qed

lemma server_empty_inv: "9 \<le> n \<Longrightarrow> srv_inv (server_empty n)"
proof -
  assume n: "9 \<le> n"
  have ix: "idx_of (server_empty n) = \<lparr>ix_arr = replicate n ([], 0), ix_count = 0, ix_size = int n\<rparr>"
    by (simp add: idx_of_def server_empty_def)
  have inv: "idx_inv (idx_of (server_empty n))" by (simp add: ix idx_inv_def idx_entries_def)
  have "idx_lookup (idx_of (server_empty n)) nm = None" for nm
    using idx_lookup_map_of [OF inv] by (simp add: ix idx_entries_def)
  with n inv show ?thesis
    by (simp add: srv_inv_def db_inv_def inv_view_def index_ok_def live_def wf_modules_def)
      (simp add: server_empty_def wf_cdts_def)
qed

lemma add_system_tags_srv:
  "add_system_tags E s i ts = Some s' \<Longrightarrow> srv_inv s \<Longrightarrow> queue_mem E \<Longrightarrow> srv_inv s'"
proof (induction E s i ts arbitrary: s' rule: add_system_tags.induct)
  case (2 E s i name type count rest)
  from 2(2) obtain s1 where s1: "add_system_tag E s name type count i = Some s1"
    "add_system_tags E s1 (i + 1) rest = Some s'" by auto
  from s1(1) obtain r s2 t where t: "tag_add E s (- 1) name type count 0 = Some (r, s2)"
    "get_tag s2 i = Some t" "s1 = set_tag s2 i (t\<lparr>t_attr := TAG_ATTR_READONLY\<rparr>)"
    by (auto simp: add_system_tag_def split: if_splits)
  have "view s1 = view s2" using t(2,3) by (simp add: view_set_tag core_def)
  with tag_add_srv [OF t(1) 2(3,4)] have "srv_inv s1" by (simp add: srv_inv_view)
  with 2(1) [OF s1] 2(4) show ?case by blast
qed simp

lemma virtual_tag_add_srv:
  assumes "virtual_tag_add E s name type count rd wr = Some (r, s')" and "srv_inv s" and "queue_mem E"
  shows "srv_inv s'"
proof -
  from assms(1) obtain i s1 t where s: "tag_add E s (- 1) name type count 0 = Some (i, s1)" "get_tag s1 i = Some t"
    by (auto simp: virtual_tag_add_def)
  define t' where "t' = (if \<not> alloc E A_virt then t\<lparr>t_data := D_null\<rparr>
    else t\<lparr>t_data := D_virt rd wr None,
            t_attr := (if wr = VF_null then (t_attr t OR TAG_ATTR_VIRTUAL) OR TAG_ATTR_READONLY
                       else t_attr t OR TAG_ATTR_VIRTUAL)\<rparr>)"
  have s': "s' = set_tag s1 i t'"
    using assms(1) s by (simp add: virtual_tag_add_def t'_def split: if_split_asm)
  have t': "data_shape (t_data t') = Sh_null \<or> data_shape (t_data t') = Sh_virt" "t_name t' = t_name t"
    by (simp_all add: t'_def)
  have i: "0 \<le> i" using get_tag_Some_range [OF s(2)] by simp
  have s1: "srv_inv s1" by (rule tag_add_srv [OF s(1) assms(2,3)])
  from tag_add_found [OF s(1) _ assms(3) i] assms(2) s(2) have f: "i < tagnextindex s1" "t_name t = Some name"
    by (auto simp: srv_inv_def)
  have "core_ok (v_types (view s1)) (core t')"
    using t' f(2) by (auto simp: core_ok_def)
  then have "inv_view (view s')"
    unfolding s' view_set_tag_upd using s1 f i t'(2) view_tags [OF s(2)]
    by (intro inv_view_update) (simp_all add: srv_inv_def db_inv_def nat_mono_iff)
  moreover have "wf_modules s'" using s1 by (simp add: s' srv_inv_def wf_modules_def)
  ultimately show ?thesis by (simp add: srv_inv_def db_inv_def)
qed

theorem initialize_tagbase_inv:
  assumes "initialize_tagbase E n = Some s" and "9 \<le> n" and "queue_mem E"
  shows "srv_inv s"
proof -
  from assms(1) obtain mt e1 s1 tt e2 s2 s3 r4 s4 r5 s5 s6 where
    s: "cdt_create E (server_empty n) mod_cdt_str = Some (mt, e1, s1)"
      "cdt_create E (special_set_module_type s1 mt) tag_cdt_str = Some (tt, e2, s2)"
      "add_system_tags E s2 0 (system_tags tt) = Some s3"
      "virtual_tag_add E s3 ''_time'' DAX_TIME 1 VF_server_time VF_null = Some (r4, s4)"
      "virtual_tag_add E s4 ''_my_tagname'' DAX_CHAR 33 VF_get_module_tag_name VF_null = Some (r5, s5)"
      "sys_write E s5 INDEX_STARTED (enc64 (clock E)) = Some s6"
      "set_dbsize E s6 (dbsize s6) = Some s"
    unfolding initialize_tagbase_def by (auto split: if_splits)
  have l1: "length (cdts s1) \<le> 1"
    using cdt_create_view [OF s(1)] by (auto simp: view_def server_empty_def dest: map_eq_imp_length_eq)
  have "srv_inv s1"
    using cdt_create_srv [OF s(1) server_empty_inv [OF assms(2)]] by (simp add: server_empty_def MAX_CDTS_def)
  then have i1: "srv_inv (special_set_module_type s1 mt)"
    using srv_inv_view [of "special_set_module_type s1 mt" s1] by (simp add: special_set_module_type_def)
  have "srv_inv s2"
    using cdt_create_srv [OF s(2) i1] l1 by (simp add: special_set_module_type_def MAX_CDTS_def)
  then have "srv_inv s5"
    using add_system_tags_srv [OF s(3)] virtual_tag_add_srv [OF s(4)] virtual_tag_add_srv [OF s(5)] assms(3) by blast
  with sys_write_view [OF s(6)] set_dbsize_view [OF s(7)] show ?thesis by (simp add: srv_inv_view)
qed

section \<open>Modules come and go\<close>

lemma module_add_srv: "module_add E s name flags = (mp, s') \<Longrightarrow> srv_inv s \<Longrightarrow> srv_inv s'"
proof -
  assume a: "module_add E s name flags = (mp, s')" and s: "srv_inv s"
  have "wf_modules s'" using module_add_wf [of s E name flags] a s by (simp add: srv_inv_def)
  moreover have "view s' = (view s)\<lparr>v_mods := v_mods (view s')\<rparr>"
    using a by (auto simp: module_add_def Let_def view_def idx_of_def split: if_splits)
  then have "inv_view (view s')" using s by (metis inv_view_mods srv_inv_def db_inv_def)
  ultimately show ?thesis by (simp add: srv_inv_def db_inv_def)
qed

lemma module_del_srv:
  assumes "srv_inv s" and "mod_heap s m \<noteq> None"
  shows "srv_inv (snd (module_del s (Some m)))"
proof -
  let ?s = "snd (module_del s (Some m))"
  have "m \<in> set (modules s)" using assms by (simp add: srv_inv_def wf_modules_def)
  then have "wf_modules ?s" using module_del_wf assms(1) by (simp add: srv_inv_def)
  moreover have "view ?s = (view s)\<lparr>v_mods := v_mods (view ?s)\<rparr>"
    by (simp add: module_del_def view_def idx_of_def)
  then have "inv_view (view ?s)" using assms(1) by (metis inv_view_mods srv_inv_def db_inv_def)
  ultimately show ?thesis by (simp add: srv_inv_def db_inv_def)
qed

lemma del_owned_srv:
  "del_owned E s fd n k = Some s' \<Longrightarrow> srv_inv s \<Longrightarrow> srv_inv s' \<and> kept s' = kept s"
proof (induction k arbitrary: s n)
  case (Suc k)
  from Suc.prems(1) obtain own s1 where s1: "(if own then map_option snd (tag_del E s n) else Some s) = Some s1"
    "del_owned E s1 fd (n + 1) k = Some s'" by auto
  have "srv_inv s1 \<and> kept s1 = kept s"
    using s1(1) Suc.prems(2) by (auto split: if_splits dest: tag_del_srv tag_del_kept)
  with Suc.IH [OF s1(2)] show ?case by simp
qed simp

lemma kept_dom: "kept s' = kept s \<Longrightarrow> mod_heap s' m \<noteq> None \<longleftrightarrow> mod_heap s m \<noteq> None"
proof -
  assume "kept s' = kept s"
  then have "dom (mod_heap s') = dom (mod_heap s)" by (simp add: kept_def view_def)
  then show ?thesis by (metis domIff)
qed

lemma module_unregister_srv:
  assumes "module_unregister E s fd = Some s'" and "srv_inv s"
  shows "srv_inv s'"
proof -
  obtain mp s1 where f: "module_find_fd s fd = (mp, s1)" by fastforce
  have s1: "srv_inv s1" using module_find_fd_view [OF f] assms(2) by (rule srv_inv_view)
  show ?thesis
  proof (cases mp)
    case None
    with assms(1) f s1 show ?thesis by (simp add: module_unregister_def)
  next
    case (Some m)
    with assms(1) f obtain s2 d d' s3 r s4 where
      s: "events_cleanup s1 m = Some s2" "mod_heap s2 m = Some d"
        "del_owned E (set_module s2 m d') fd 0 (nat (get_tagindex s2)) = Some s3"
        "tag_del E s3 (mod_tagindex d') = Some (r, s4)" "s' = snd (module_del s4 (Some m))"
      by (auto simp: module_unregister_def)
    have s2: "s2 = s1" by (rule events_cleanup_same [OF s(1)])
    have v: "view (set_module s2 m d') = view s2" using s(2) by simp
    have i2: "srv_inv (set_module s2 m d')" using v s1 by (simp add: s2 srv_inv_view)
    note d3 = del_owned_srv [OF s(3) i2]
    have i4: "srv_inv s4" using tag_del_srv [OF s(4)] d3 by simp
    have "kept s4 = kept s2" using tag_del_kept [OF s(4)] d3 kept_view [OF v] by simp
    then have "mod_heap s4 m \<noteq> None" using s(2) kept_dom [of s4 s2 m] by simp
    with i4 s(5) show ?thesis by (simp add: module_del_srv)
  qed
qed

lemma choose_tagname_view: "choose_tagname s name = Some (n, s') \<Longrightarrow> view s' = view s"
  by (auto simp: choose_tagname_def Let_def split: sum.splits)

lemma module_tag_add_srv:
  assumes "module_tag_add E s m name fd = Some s'" and "srv_inv s" and "queue_mem E"
  shows "srv_inv s'"
proof -
  from assms(1) obtain tagname s1 r s2 d r4 s4 r5 s5 s6 where
    s: "choose_tagname s name = Some (tagname, s1)"
      "tag_add E s1 (- 1) tagname (cdt_get_type (cdts s1) ''_module'') 1 0 = Some (r, s2)"
      "mod_heap s2 m = Some d"
      "tag_write E (if r < 0 then s2 else set_module s2 m (d\<lparr>mod_tagindex := r\<rparr>)) (- 1) r 0 (enc64 (clock E)) 8 = Some (r4, s4)"
      "tag_write E s4 (- 1) r MOD_ID_OFFSET (enc_int fd) 4 = Some (r5, s5)"
      "tag_set_attribute s5 r TAG_ATTR_SPECIAL = Some s6"
      "sys_write E s6 INDEX_LASTMODULE (name_field tagname) = Some s'"
    by (auto simp: module_tag_add_def Let_def)
  have "srv_inv s1" using choose_tagname_view [OF s(1)] assms(2) by (rule srv_inv_view)
  then have i2: "srv_inv s2" using tag_add_srv [OF s(2)] assms(3) by simp
  have "view s' = view s2"
    using tag_write_view [OF s(4)] tag_write_view [OF s(5)] tag_set_attribute_view [OF s(6)]
      sys_write_view [OF s(7)] s(3) by (simp split: if_splits)
  then show ?thesis using i2 by (rule srv_inv_view)
qed

lemma module_register_srv:
  assumes "module_register E s name timeout fd = Some (mp, s')" and "srv_inv s" and "queue_mem E"
  shows "srv_inv s'"
proof -
  obtain test s1 where f: "module_find_fd s fd = (test, s1)" by fastforce
  have i1: "srv_inv s1" using module_find_fd_view [OF f] assms(2) by (rule srv_inv_view)
  from assms(1) f obtain s2 mp1 s3 where
    s2: "(case test of Some t \<Rightarrow> module_unregister E s1 (mod_fd_of s1 t) | None \<Rightarrow> Some s1) = Some s2"
    and s3: "module_add E s2 name 0 = (mp1, s3)"
    and rest: "(case mp1 of
          None \<Rightarrow> Some (None, s3)
        | Some m \<Rightarrow>
            do {
              d \<leftarrow> mod_heap s3 m;
              let s4 = set_module s3 m (d\<lparr>mod_fd := fd, mod_timeout := timeout, mod_host := peer_host E fd\<rparr>);
              s5 \<leftarrow> (if check_module_tag_exclusion E name then Some s4 else module_tag_add E s4 m name fd);
              Some (Some m, s5)
            }) = Some (mp, s')"
    by (auto simp: module_register_def Let_def split: prod.splits)
  have "srv_inv s2" using s2 i1 module_unregister_srv by (auto split: option.splits)
  then have i3: "srv_inv s3" by (rule module_add_srv [OF s3])
  show ?thesis
  proof (cases mp1)
    case None
    with rest i3 show ?thesis by simp
  next
    case (Some m)
    with rest obtain d d' where d: "mod_heap s3 m = Some d"
      and op: "(if check_module_tag_exclusion E name then Some (set_module s3 m d')
         else module_tag_add E (set_module s3 m d') m name fd) = Some s'"
      by (auto simp: Let_def)
    have "srv_inv (set_module s3 m d')" using d i3 by (simp add: srv_inv_view)
    with op assms(3) module_tag_add_srv show ?thesis by (auto split: if_splits)
  qed
qed

section \<open>Handlers\<close>

lemma msg_mod_register_srv:
  "msg_mod_register E s m = Some (r, s') \<Longrightarrow> srv_inv s \<Longrightarrow> queue_mem E \<Longrightarrow> srv_inv s'"
  by (auto simp: msg_mod_register_def split: if_splits option.splits
      dest!: view_srv dest: module_register_srv)

lemma msg_tag_add_srv: "msg_tag_add E s m = Some (r, s') \<Longrightarrow> srv_inv s \<Longrightarrow> queue_mem E \<Longrightarrow> srv_inv s'"
  by (auto simp: msg_tag_add_def split: if_splits dest!: view_srv dest: tag_add_srv)

lemma msg_tag_del_srv: "msg_tag_del E s m = Some (r, s') \<Longrightarrow> srv_inv s \<Longrightarrow> srv_inv s'"
  by (auto simp: msg_tag_del_def Let_def split: if_splits sum.splits dest!: view_srv dest: tag_del_srv)

lemma msg_cdt_create_srv:
  "msg_cdt_create E s m = Some (r, s') \<Longrightarrow> srv_inv s \<Longrightarrow> length (cdts s) < MAX_CDTS \<Longrightarrow> srv_inv s'"
  by (auto simp: msg_cdt_create_def Let_def split: if_splits option.splits dest!: view_srv
      dest: cdt_create_srv)

lemmas msg_srv = msg_view [THEN srv_inv_cong]

lemma cmd_arr_srv:
  assumes "f \<in> set cmd_arr" and "f E s m = Some (r, s')" and "srv_inv s" and "queue_mem E"
    and "length (cdts s) < MAX_CDTS"
  shows "srv_inv s'"
proof -
  consider "f = msg_mod_register" | "f = msg_tag_add" | "f = msg_tag_del" | "f = msg_cdt_create"
    | "srv_inv s' = srv_inv s"
    using assms(1,2) unfolding cmd_arr_def list.set insert_iff empty_iff by (elim disjE) (auto dest!: msg_srv)
  then show ?thesis
    using assms(2-5) msg_mod_register_srv msg_tag_add_srv msg_tag_del_srv msg_cdt_create_srv
    by cases simp_all
qed

section \<open>The receive loop\<close>

lemma msg_dispatcher_srv:
  assumes "msg_dispatcher E s nodes fd buff = Some (r, s', nodes')" and "srv_inv s" and "queue_mem E"
    and "length (cdts s) < MAX_CDTS"
  shows "srv_inv s'"
proof (cases "CHECK_COMMAND (of_nat (be_dec (take 4 (drop 4 buff))))")
  case True
  with assms(1,2) show ?thesis by (simp add: msg_dispatcher_def)
next
  case False
  with assms(1) obtain m where m: "unpack_message E fd buff = Some m"
    "(cmd_arr ! (unat (x_type m) - 1)) E s m = Some (r, s')"
    by (auto simp: msg_dispatcher_def)
  have ty: "x_type m = of_nat (be_dec (take 4 (drop 4 buff)))"
    using m(1) by (auto simp: unpack_message_def Let_def split: if_splits)
  with False have "x_type m \<noteq> 0" "x_type m \<le> 27" by (simp_all add: CHECK_COMMAND_def NUM_COMMANDS_def linorder_not_less)
  then have "unat (x_type m) - 1 < length cmd_arr"
    by (simp add: cmd_arr_def word_le_nat_alt unat_gt_0)
  then have "cmd_arr ! (unat (x_type m) - 1) \<in> set cmd_arr" by (rule nth_mem)
  then show ?thesis using m(2) assms(2-4) by (rule cmd_arr_srv)
qed

lemma buff_read_srv:
  assumes "buff_read E ok s nodes fd i = Some (r, s', nodes')" and "srv_inv s" and "queue_mem E"
    and "length (cdts s) < MAX_CDTS"
  shows "srv_inv s'"
  using assms(1,2) unfolding buff_read_def Let_def
  by (auto split: if_splits option.splits dest!: msg_dispatcher_srv [OF _ assms(2-4)])

lemma msg_receive_srv:
  assumes "msg_receive E ok s c i = Some (r, s', c')" and "srv_inv s" and "queue_mem E"
    and "length (cdts s) < MAX_CDTS"
  shows "srv_inv s'"
  using assms(1,2) unfolding msg_receive_def Let_def
  by (auto split: input.splits if_splits dest!: buff_read_srv [OF _ assms(2-4)]
      dest: module_unregister_srv)

text \<open>
  The states of a running server. Each step has surroundings of its own. The number of types is bounded
  by the bits of a type code.
\<close>

inductive reachable :: "server \<Rightarrow> comm \<Rightarrow> bool" where
  start: "initialize_tagbase E n = Some s \<Longrightarrow> 9 \<le> n \<Longrightarrow> queue_mem E \<Longrightarrow>
    reachable s \<lparr>c_nodes = buff_initialize E k, c_fds = [], c_maxfd = 0, c_min = k\<rparr>"
| step: "reachable s c \<Longrightarrow> queue_mem E \<Longrightarrow> length (cdts s) < MAX_CDTS \<Longrightarrow>
    msg_receive E ok s c i = Some (r, s', c') \<Longrightarrow> reachable s' c'"

lemma reachable_srv: "reachable s c \<Longrightarrow> srv_inv s"
  by (induction rule: reachable.induct) (auto intro: initialize_tagbase_inv msg_receive_srv)

end
