(* ===== verification/Memory_Safety.thy ===== *)
theory Memory_Safety
  imports Tag_Laws
begin

text \<open>
  Operations that never leave the blocks they work on: reading and writing the data of a tag with
  a block of its own, whose events have blocks that are large enough, and adding tags to a database
  whose system tags are in place. Here the operations are shown to be defined, and what they do.
\<close>

section \<open>Events whose blocks are large enough\<close>

text \<open>
  Write, change, set and reset events. (Comparisons and deadbands read a whole element from wherever
  a write starts, which may cross the end of the tag; the deadband of a DINT may overflow.)
\<close>

definition bits_fit :: "nat \<Rightarrow> dax_event \<Rightarrow> bool" where
  "bits_fit n ev \<longleftrightarrow>
    unat (e_bit ev) < 8 \<and> unat (e_bit ev) + nat (e_count ev) \<le> 8 * length (ptr_bytes (e_test ev)) \<and>
    8 * nat (e_byte ev) + unat (e_bit ev) + nat (e_count ev) \<le> 8 * n"

definition ev_ok :: "(mod_ptr \<Rightarrow> dax_module option) \<Rightarrow> nat \<Rightarrow> dax_event \<Rightarrow> bool" where
  "ev_ok heap n ev \<longleftrightarrow>
    heap (e_notify ev) \<noteq> None \<and> 0 \<le> e_byte ev \<and> e_byte ev + uint (e_size ev) \<le> int n \<and> n < 2 ^ 31 \<and>
    e_eventtype ev \<notin> {EVENT_EQUAL, EVENT_GREATER, EVENT_LESS, EVENT_DEADBAND} \<and>
    (e_eventtype ev \<in> {EVENT_SET, EVENT_RESET} \<longrightarrow> bits_fit n ev) \<and>
    (e_eventtype ev = EVENT_CHANGE \<longrightarrow>
      (if e_datatype ev = DAX_BOOL then bits_fit n ev
       else length (ptr_bytes (e_test ev)) = unat (e_size ev)))"

lemma change_bits_total:
  assumes "b < 8" and "8 * i + b + n \<le> 8 * length test" and "0 \<le> base"
    and "8 * (nat base + i) + b + n \<le> 8 * length data"
  shows "\<exists>r' test'. change_bits data base n b i r test = Some (r', test') \<and> length test' = length test"
  using assms(1,2,4)
proof (induction n arbitrary: b i r test)
  case (Suc n)
  have it: "i < length test" using Suc.prems(2) by simp
  have idd: "nat base + i < length data" using Suc.prems(3) by simp
  have gt: "arr_get test (int i) = Some (test ! i)" using it by simp
  have gd: "arr_get data (base + int i) = Some (data ! (nat base + i))"
    using idd assms(3) by (simp add: arr_get_def nat_add_distrib)
  define b' i' where "b' = (if b + 1 = 8 then 0 else b + 1)" and "i' = (if b + 1 = 8 then i + 1 else i)"
  have p': "8 * i' + b' = 8 * i + b + 1" "b' < 8" using Suc.prems(1) by (auto simp: b'_def i'_def)
  obtain r1 test1 where st: "(if test ! i AND bit_mask b \<noteq> data ! (nat base + i) AND bit_mask b
      then (True, test[i := data ! (nat base + i)]) else (r, test)) = (r1, test1)" by fastforce
  then have lt: "length test1 = length test" by (auto split: if_splits)
  have rec: "change_bits data base (Suc n) b i r test = change_bits data base n b' i' r1 test1"
    using st by (simp add: gt gd b'_def i'_def)
  have "8 * i' + b' + n \<le> 8 * length test1" "8 * (nat base + i') + b' + n \<le> 8 * length data"
    using Suc.prems p' lt by auto
  from Suc.IH [OF p'(2) this, of r1] lt show ?case unfolding rec by simp
qed simp

lemma event_change_total:
  assumes "ev_ok heap (length data) ev" and "e_eventtype ev = EVENT_CHANGE"
    and "0 \<le> offset" and "0 \<le> sz" and "offset + sz \<le> int (length data)"
  shows "\<exists>r test. event_change ev data offset sz = Some (r, test) \<and> length test = length (ptr_bytes (e_test ev))"
proof (cases "e_datatype ev = DAX_BOOL")
  case True
  with assms(1,2) have "bits_fit (length data) ev" "0 \<le> e_byte ev" by (simp_all add: ev_ok_def)
  with change_bits_total [of "unat (e_bit ev)" 0 "nat (e_count ev)" "ptr_bytes (e_test ev)" "e_byte ev" data False] True
  show ?thesis by (simp add: event_change_def bits_fit_def)
next
  case False
  let ?test = "ptr_bytes (e_test ev)"
  have ok: "0 \<le> e_byte ev" "e_byte ev + uint (e_size ev) \<le> int (length data)" "int (length data) < 2 ^ 31"
    and lt: "int (length ?test) = uint (e_size ev)"
    using assms(1,2) False by (auto simp: ev_ok_def)
  define a where "a = max offset (e_byte ev)"
  define l where "l = min (e_byte ev + uint (e_size ev)) (offset + sz) - a"
  have len: "event_len ev offset sz = l"
    unfolding l_def a_def using assms(3-5) ok by (intro event_len_eq) simp_all
  have toff: "max 0 (offset - e_byte ev) = a - e_byte ev" by (simp add: a_def max_def)
  show ?thesis
  proof (cases "l \<le> 0")
    case True
    with False len have "event_change ev data offset sz = Some (False, ?test)" by (simp add: event_change_def)
    then show ?thesis by blast
  next
    case pos: False
    have b: "0 \<le> a - e_byte ev" "a - e_byte ev + l \<le> int (length ?test)" "0 \<le> a" "a + l \<le> int (length data)"
      using lt ok assms(3,5) by (auto simp: l_def a_def)
    obtain old where old: "mem_get ?test (a - e_byte ev) l = Some old" using b pos by (simp add: mem_get_def)
    obtain new where new: "mem_get data a l = Some new" using b pos by (simp add: mem_get_def)
    have "int (length new) = l" by (rule mem_get_length [OF new])
    then obtain test' where put: "mem_put ?test (a - e_byte ev) new = Some test'" using b by (simp add: mem_put_def)
    have "length test' = length ?test" by (rule mem_put_length [OF put])
    with False len pos old new put show ?thesis
      by (simp add: event_change_def toff a_def [symmetric])
  qed
qed

lemma event_hit_total:
  assumes "ev_ok heap (length data) ev" and "0 \<le> offset" and "0 \<le> sz" and "offset + sz \<le> int (length data)"
  shows "\<exists>hit ev'. event_hit E ev data offset sz = Some (hit, ev') \<and> ev_ok heap (length data) ev'"
proof -
  have put: "ev_ok heap (length data) (put_test ev test)" if "length test = length (ptr_bytes (e_test ev))" for test
    using assms(1) that by (auto simp: ev_ok_def bits_fit_def put_test_def ptr_bytes_def split: option.splits)
  have flags: "\<exists>r test. flag_bits pol data (e_byte ev) (nat (e_count ev)) (unat (e_bit ev)) 0 False (ptr_bytes (e_test ev)) =
      Some (r, test) \<and> length test = length (ptr_bytes (e_test ev))" if "bits_fit (length data) ev" for pol
    using flag_bits_spec [of "unat (e_bit ev)" 0 "nat (e_count ev)" "ptr_bytes (e_test ev)" "e_byte ev" data pol False]
      that assms(1) by (fastforce simp: bits_fit_def ev_ok_def)
  consider (wr) "e_eventtype ev = EVENT_WRITE" | (change) "e_eventtype ev = EVENT_CHANGE"
    | (set) "e_eventtype ev = EVENT_SET" | (reset) "e_eventtype ev = EVENT_RESET"
    | (other) "e_eventtype ev \<notin> {EVENT_WRITE, EVENT_CHANGE, EVENT_SET, EVENT_RESET}" by blast
  then show ?thesis
  proof cases
    case wr
    with assms(1) show ?thesis by (auto simp: event_hit_def)
  next
    case change
    from event_change_total [OF assms(1) change assms(2-4)] obtain r test where
      "event_change ev data offset sz = Some (r, test)" "length test = length (ptr_bytes (e_test ev))" by blast
    with change put show ?thesis by (simp add: event_hit_def)
  next
    case set
    then have "bits_fit (length data) ev" using assms(1) by (simp add: ev_ok_def)
    from flags [OF this, of True] set put show ?thesis by (auto simp: event_hit_def event_set_def)
  next
    case reset
    then have "bits_fit (length data) ev" using assms(1) by (simp add: ev_ok_def)
    from flags [OF this, of False] reset put show ?thesis by (auto simp: event_hit_def event_reset_def)
  next
    case other
    with assms(1) show ?thesis by (auto simp: event_hit_def ev_ok_def)
  qed
qed

lemma send_event_total:
  assumes "ev_ok (mod_heap s) (length b) ev" and "get_tag s idx = Some t" and "t_data t = D_block b"
  shows "\<exists>r s'. send_event E s idx ev = Some (r, s')"
proof -
  obtain m where m: "mod_heap s (e_notify ev) = Some m" using assms(1) by (auto simp: ev_ok_def)
  have "mem_get (data_bytes E t) (e_byte ev) (uint (e_size ev)) \<noteq> None"
    using assms(1,3) by (simp add: mem_get_None_iff data_bytes_def ev_ok_def)
  then obtain d where d: "mem_get (data_bytes E t) (e_byte ev) (uint (e_size ev)) = Some d" by blast
  from m d assms(2) show ?thesis
    by (simp add: send_event_def Let_def split: prod.split)
qed

lemma event_step_total:
  assumes "ev_ok (mod_heap s) (length b) ev" and "get_tag s idx = Some t" and "t_data t = D_block b"
    and "0 \<le> offset" and "0 \<le> sz" and "offset + sz \<le> int (length b)"
  shows "\<exists>ev1 s1. (if event_touched ev offset sz then
           do {
             (hit, ev') \<leftarrow> event_hit E ev b offset sz;
             s' \<leftarrow> (if hit then map_option snd (send_event E s idx ev') else Some s);
             Some (ev', s')
           }
         else Some (ev, s)) = Some (ev1, s1) \<and>
    ev_ok (mod_heap s) (length b) ev1 \<and> mod_heap s1 = mod_heap s \<and> db s1 = db s"
    (is "\<exists>ev1 s1. ?step = _ \<and> _")
proof (cases "event_touched ev offset sz")
  case False
  then have "?step = Some (ev, s)" by simp
  then show ?thesis using assms(1) by blast
next
  case True
  from event_hit_total [OF assms(1,4-6), of E] obtain hit ev1 where
    h: "event_hit E ev b offset sz = Some (hit, ev1)" "ev_ok (mod_heap s) (length b) ev1" by auto
  show ?thesis
  proof (cases hit)
    case False
    with h True have "?step = Some (ev1, s)" by simp
    then show ?thesis using h(2) by blast
  next
    case hit: True
    from send_event_total [OF h(2) assms(2,3), of E] obtain r s1 where
      s1: "send_event E s idx ev1 = Some (r, s1)" by blast
    then obtain x where x: "s1 = s\<lparr>sent := sent s @ x\<rparr>" by (rule send_event_frame)
    have "?step = Some (ev1, s1)" using s1 hit h(1) True by simp
    moreover have "mod_heap s1 = mod_heap s" "db s1 = db s" by (simp_all add: x)
    ultimately show ?thesis using h(2) by blast
  qed
qed

lemma event_loop_total:
  assumes "\<forall>ev\<in>set evs. ev_ok (mod_heap s) (length b) ev" and "get_tag s idx = Some t" and "t_data t = D_block b"
    and "0 \<le> offset" and "0 \<le> sz" and "offset + sz \<le> int (length b)"
  shows "\<exists>evs' s'. event_loop E s idx b offset sz evs = Some (evs', s') \<and>
    (\<forall>ev\<in>set evs'. ev_ok (mod_heap s) (length b) ev)"
  using assms(1,2)
proof (induction evs arbitrary: s)
  case (Cons ev evs)
  have ev: "ev_ok (mod_heap s) (length b) ev" and evs: "\<forall>e\<in>set evs. ev_ok (mod_heap s) (length b) e"
    using Cons.prems(1) by simp_all
  from event_step_total [OF ev Cons.prems(2) assms(3-6), of E] obtain ev1 s1 where
    st: "(if event_touched ev offset sz then
           do {
             (hit, ev') \<leftarrow> event_hit E ev b offset sz;
             s' \<leftarrow> (if hit then map_option snd (send_event E s idx ev') else Some s);
             Some (ev', s')
           }
         else Some (ev, s)) = Some (ev1, s1)"
    and ok: "ev_ok (mod_heap s) (length b) ev1" and s1: "mod_heap s1 = mod_heap s" "db s1 = db s" by blast
  have "get_tag s1 idx = Some t" using Cons.prems(2) s1(2) by (simp add: get_tag_def)
  from Cons.IH [OF evs [folded s1(1)] this] obtain evs' s' where
    rec: "event_loop E s1 idx b offset sz evs = Some (evs', s')" "\<forall>e\<in>set evs'. ev_ok (mod_heap s) (length b) e"
    unfolding s1(1) by blast
  have "event_loop E s idx b offset sz (ev # evs) = Some (ev1 # evs', s')"
    unfolding event_loop.simps st by (simp add: rec(1))
  moreover have "\<forall>e\<in>set (ev1 # evs'). ev_ok (mod_heap s) (length b) e" using ok rec(2) by simp
  ultimately show ?case by blast
qed simp

lemma event_check_total:
  assumes "get_tag s idx = Some t" and "t_data t = D_block b" and "\<forall>ev\<in>set (t_events t). ev_ok (mod_heap s) (length b) ev"
    and "0 \<le> offset" and "0 \<le> sz" and "offset + sz \<le> int (length b)"
  obtains evs x where "event_check E s idx offset sz = Some ((set_tag s idx (t\<lparr>t_events := evs\<rparr>))\<lparr>sent := sent s @ x\<rparr>)"
    and "map ev_static evs = map ev_static (t_events t)" and "\<forall>ev\<in>set evs. ev_ok (mod_heap s) (length b) ev"
proof -
  have d: "data_bytes E t = b" using assms(2) by (simp add: data_bytes_def)
  from event_loop_total [OF assms(3,1,2,4-6), of E] obtain evs s' where
    l: "event_loop E s idx b offset sz (t_events t) = Some (evs, s')" "\<forall>ev\<in>set evs. ev_ok (mod_heap s) (length b) ev"
    by blast
  from event_loop_frame [OF l(1)] obtain x where x: "map ev_static evs = map ev_static (t_events t)"
    "s' = s\<lparr>sent := sent s @ x\<rparr>" by blast
  have "event_check E s idx offset sz = Some ((set_tag s idx (t\<lparr>t_events := evs\<rparr>))\<lparr>sent := sent s @ x\<rparr>)"
    using assms(1) l(1) by (simp add: event_check_def d x(2) set_tag_def)
  with x(1) l(2) that show ?thesis by blast
qed

section \<open>Reading and writing a block\<close>

lemma tag_get_size_data:
  "get_tag s i = Some t \<Longrightarrow>
    tag_get_size s i = map_option int_of_u32 (data_size (cdts s) (t_type t) (t_count t))"
  by (cases "type_size (cdts s) (t_type t)") (simp_all add: tag_get_size_def data_size_def)

lemma int_of_u32_unat: "unat w < 2 ^ 31 \<Longrightarrow> int_of_u32 w = int (unat w)"
  using int_of_u32_nat [of "unat w"] by simp

text \<open>
  A tag in use that has a block of its own, as large as its type and count say, and no functions behind it.
\<close>

definition block_tag :: "server \<Rightarrow> int \<Rightarrow> tag_db \<Rightarrow> byte list \<Rightarrow> bool" where
  "block_tag s i t b \<longleftrightarrow>
    get_tag s i = Some t \<and> i < tagnextindex s \<and> t_data t = D_block b \<and> length b < 2 ^ 31 \<and>
    map_option unat (data_size (cdts s) (t_type t) (t_count t)) = Some (length b) \<and>
    \<not> attr_set (t_attr t) TAG_ATTR_VIRTUAL"

lemma block_tagD:
  assumes "block_tag s i t b"
  shows "get_tag s i = Some t" "0 \<le> i" "i < tagnextindex s" "t_data t = D_block b" "length b < 2 ^ 31"
    "\<not> attr_set (t_attr t) TAG_ATTR_VIRTUAL"
  using assms get_tag_Some_range [of s i t] by (auto simp: block_tag_def)

text \<open>In a database that satisfies the invariant the size is always right.\<close>

lemma block_tagI:
  assumes "db_inv s" and "get_tag s i = Some t" and "i < tagnextindex s" and "t_data t = D_block b"
    and "length b < 2 ^ 31" and "\<not> attr_set (t_attr t) TAG_ATTR_VIRTUAL"
  shows "block_tag s i t b"
  using db_inv_core [OF assms(1-3)] assms by (auto simp: block_tag_def core_ok_def)

lemma tag_get_size_block:
  assumes "block_tag s i t b"
  shows "tag_get_size s i = Some (int (length b))"
  using assms by (auto simp: block_tag_def tag_get_size_data int_of_u32_unat)

text \<open>Such a tag with no hooks and with events that are safe.\<close>

definition plain :: "server \<Rightarrow> int \<Rightarrow> tag_db \<Rightarrow> byte list \<Rightarrow> bool" where
  "plain s i t b \<longleftrightarrow>
    block_tag s i t b \<and> \<not> attr_set (t_attr t) TAG_ATTR_SPECIAL \<and>
    (\<forall>ev\<in>set (t_events t). ev_ok (mod_heap s) (length b) ev)"

lemma plainD:
  assumes "plain s i t b"
  shows "get_tag s i = Some t" "0 \<le> i" "i < tagnextindex s" "t_data t = D_block b" "length b < 2 ^ 31"
    "\<not> attr_set (t_attr t) TAG_ATTR_VIRTUAL" "\<not> attr_set (t_attr t) TAG_ATTR_SPECIAL"
    "\<forall>ev\<in>set (t_events t). ev_ok (mod_heap s) (length b) ev" "block_tag s i t b"
  using assms block_tagD [of s i t b] by (auto simp: plain_def)

lemma get_tag_fields [simp]:
  "get_tag (s\<lparr>sent := x\<rparr>) i = get_tag s i" "get_tag (s\<lparr>retained := y\<rparr>) i = get_tag s i"
  by (simp_all add: get_tag_def)

lemma write_finish_block:
  assumes "get_tag s idx = Some t" and "t_data t = D_block b" and "\<forall>ev\<in>set (t_events t). ev_ok (mod_heap s) (length b) ev"
    and "0 \<le> offset" and "0 \<le> sz" and "offset + sz \<le> int (length b)"
  obtains evs x y where "write_finish E s idx offset sz =
      Some (0, (set_tag s idx (t\<lparr>t_events := evs\<rparr>))\<lparr>sent := sent s @ x, retained := retained s @ y\<rparr>)"
    and "map ev_static evs = map ev_static (t_events t)" and "\<forall>ev\<in>set evs. ev_ok (mod_heap s) (length b) ev"
proof -
  from event_check_total [OF assms, of E] obtain evs x where
    e: "event_check E s idx offset sz = Some ((set_tag s idx (t\<lparr>t_events := evs\<rparr>))\<lparr>sent := sent s @ x\<rparr>)"
      "map ev_static evs = map ev_static (t_events t)" "\<forall>ev\<in>set evs. ev_ok (mod_heap s) (length b) ev" by blast
  define s1 where "s1 = (set_tag s idx (t\<lparr>t_events := evs\<rparr>))\<lparr>sent := sent s @ x\<rparr>"
  define y where "y = (if attr_set (t_attr t) TAG_ATTR_RETAIN then [Ret_write idx] else [])"
  have g: "get_tag s1 idx = Some (t\<lparr>t_events := evs\<rparr>)"
    using get_tag_Some_range [OF assms(1)] by (simp add: s1_def)
  have "write_finish E s idx offset sz = Some (0, if attr_set (t_attr t) TAG_ATTR_RETAIN then ret_tag_write s1 idx else s1)"
    using e(1) g by (simp add: write_finish_def s1_def [symmetric])
  also have "(if attr_set (t_attr t) TAG_ATTR_RETAIN then ret_tag_write s1 idx else s1) = s1\<lparr>retained := retained s @ y\<rparr>"
    by (simp add: y_def ret_tag_write_def s1_def set_tag_def)
  finally show ?thesis using e(2,3) that by (simp add: s1_def)
qed

lemma tag_store_block:
  assumes "plain s idx t b" and "0 \<le> offset" and "0 \<le> sz" and "offset + sz < 2 ^ 31"
    and "offset + sz \<le> int (length b)" and "upd b = Some b'" and "length b' = length b"
  obtains evs x y where "tag_store E s fd idx t offset upd sz =
      Some (0, (set_tag s idx (t\<lparr>t_data := D_block b', t_events := evs\<rparr>))\<lparr>sent := sent s @ x, retained := retained s @ y\<rparr>)"
    and "map ev_static evs = map ev_static (t_events t)" and "\<forall>ev\<in>set evs. ev_ok (mod_heap s) (length b) ev"
proof -
  note p = plainD [OF assms(1)] and len = assms(7)
  define s1 where "s1 = set_tag s idx (t\<lparr>t_data := D_block b'\<rparr>)"
  have g1: "get_tag s1 idx = Some (t\<lparr>t_data := D_block b'\<rparr>)"
    using get_tag_Some_range [OF p(1)] by (simp add: s1_def)
  have ev1: "\<forall>ev\<in>set (t_events (t\<lparr>t_data := D_block b'\<rparr>)). ev_ok (mod_heap s1) (length b') ev"
    using p(8) len by (simp add: s1_def)
  have fit: "offset + sz \<le> int (length b')" using assms(5) len by simp
  have d1: "t_data (t\<lparr>t_data := D_block b'\<rparr>) = D_block b'" by simp
  obtain evs x y where
    w: "write_finish E s1 idx offset sz =
      Some (0, (set_tag s1 idx (t\<lparr>t_data := D_block b', t_events := evs\<rparr>))\<lparr>sent := sent s1 @ x, retained := retained s1 @ y\<rparr>)"
      "map ev_static evs = map ev_static (t_events (t\<lparr>t_data := D_block b'\<rparr>))"
      "\<forall>ev\<in>set evs. ev_ok (mod_heap s1) (length b') ev"
    by (rule write_finish_block [OF g1 d1 ev1 assms(2,3) fit])
  have a: "tag_store E s fd idx t offset upd sz = write_finish E s1 idx offset sz"
    using assms(2-6) p tag_get_size_block [OF p(9)]
    by (simp add: tag_store_def int32_ok_def s1_def)
  have ts: "tag_store E s fd idx t offset upd sz =
      Some (0, (set_tag s idx (t\<lparr>t_data := D_block b', t_events := evs\<rparr>))\<lparr>sent := sent s @ x, retained := retained s @ y\<rparr>)"
    unfolding a w(1) by (simp add: s1_def)
  have st: "map ev_static evs = map ev_static (t_events t)" using w(2) by simp
  have ok: "\<forall>ev\<in>set evs. ev_ok (mod_heap s) (length b) ev"
    using w(3) by (simp only: s1_def set_tag_fields len)
  show ?thesis by (rule that [OF ts st ok])
qed

lemma tag_write_block:
  assumes "plain s idx t b" and "0 \<le> offset" and "0 \<le> sz" and "offset + sz < 2 ^ 31"
    and "sz \<le> int (length data)" and "offset + sz \<le> int (length b)"
  obtains b' evs x y where "mem_put b offset (take (nat sz) data) = Some b'"
    and "tag_write E s fd idx offset data sz =
      Some (0, (set_tag s idx (t\<lparr>t_data := D_block b', t_events := evs\<rparr>))\<lparr>sent := sent s @ x, retained := retained s @ y\<rparr>)"
    and "map ev_static evs = map ev_static (t_events t)" and "\<forall>ev\<in>set evs. ev_ok (mod_heap s) (length b) ev"
proof -
  note p = plainD [OF assms(1)]
  have "int (length (take (nat sz) data)) = sz" using assms(3,5) by simp
  with assms(2,6) obtain b' where b': "mem_put b offset (take (nat sz) data) = Some b'" by (simp add: mem_put_def)
  let ?upd = "\<lambda>b. do { src \<leftarrow> mem_get data 0 sz; mem_put b offset src }"
  have u: "?upd b = Some b'" using assms(3,5) b' by (simp add: mem_get_def)
  obtain evs x y where w: "tag_store E s fd idx t offset ?upd sz =
      Some (0, (set_tag s idx (t\<lparr>t_data := D_block b', t_events := evs\<rparr>))\<lparr>sent := sent s @ x, retained := retained s @ y\<rparr>)"
    "map ev_static evs = map ev_static (t_events t)" "\<forall>ev\<in>set evs. ev_ok (mod_heap s) (length b) ev"
    by (rule tag_store_block [OF assms(1-4,6), where upd = ?upd, OF u mem_put_length [OF b']])
  have tw: "tag_write E s fd idx offset data sz =
      Some (0, (set_tag s idx (t\<lparr>t_data := D_block b', t_events := evs\<rparr>))\<lparr>sent := sent s @ x, retained := retained s @ y\<rparr>)"
    using p w(1) by (simp add: tag_write_def)
  show ?thesis by (rule that [OF b' tw w(2,3)])
qed

lemma tag_mask_write_block:
  assumes "plain s idx t b" and "0 \<le> offset" and "0 < sz" and "offset + sz < 2 ^ 31"
    and "sz \<le> int (length data)" and "sz \<le> int (length msk)" and "offset + sz \<le> int (length b)"
  obtains b' evs x y where "mem_put b offset (mask_bytes (take (nat sz) data) (take (nat sz) msk)
      (take (nat sz) (drop (nat offset) b))) = Some b'"
    and "tag_mask_write E s fd idx offset data msk sz =
      Some (0, (set_tag s idx (t\<lparr>t_data := D_block b', t_events := evs\<rparr>))\<lparr>sent := sent s @ x, retained := retained s @ y\<rparr>)"
    and "map ev_static evs = map ev_static (t_events t)" and "\<forall>ev\<in>set evs. ev_ok (mod_heap s) (length b) ev"
proof -
  note p = plainD [OF assms(1)]
  let ?old = "take (nat sz) (drop (nat offset) b)"
  let ?new = "mask_bytes (take (nat sz) data) (take (nat sz) msk) ?old"
  have "int (length ?new) = sz" using assms(2,3,7) by (simp add: nat_le_eq_zle)
  with assms(2,7) obtain b' where b': "mem_put b offset ?new = Some b'" by (simp add: mem_put_def)
  have u: "mask_update data msk offset sz b = Some b'"
    using assms(2,3,5-7) b' by (simp add: mask_update_def mem_get_def)
  have sz: "0 \<le> sz" using assms(3) by simp
  obtain evs x y where w: "tag_store E s fd idx t offset (mask_update data msk offset sz) sz =
      Some (0, (set_tag s idx (t\<lparr>t_data := D_block b', t_events := evs\<rparr>))\<lparr>sent := sent s @ x, retained := retained s @ y\<rparr>)"
    "map ev_static evs = map ev_static (t_events t)" "\<forall>ev\<in>set evs. ev_ok (mod_heap s) (length b) ev"
    by (rule tag_store_block [OF assms(1,2) sz assms(4,7), where upd = "mask_update data msk offset sz", OF u mem_put_length [OF b']])
  have tw: "tag_mask_write E s fd idx offset data msk sz =
      Some (0, (set_tag s idx (t\<lparr>t_data := D_block b', t_events := evs\<rparr>))\<lparr>sent := sent s @ x, retained := retained s @ y\<rparr>)"
    using p w(1) by (simp add: tag_mask_write_def)
  show ?thesis by (rule that [OF b' tw w(2,3)])
qed

lemma tag_write_too_big:
  assumes "plain s idx t b" and "0 \<le> offset" and "0 \<le> sz" and "offset + sz < 2 ^ 31" and "int (length b) < offset + sz"
  shows "tag_write E s fd idx offset data sz = Some (ERR_2BIG, s)"
  using assms plainD [OF assms(1)] tag_get_size_block [of s idx t b]
  by (simp add: tag_write_def tag_store_def int32_ok_def)

lemma tag_read_block:
  assumes "block_tag s idx t b"
    and "0 \<le> offset" and "0 \<le> sz" and "offset + sz < 2 ^ 31" and "sz \<le> int (length buf)"
    and "attr_set (t_attr t) TAG_ATTR_OVR_SET \<Longrightarrow>
      t_odata t = Some od \<and> t_omask t = Some om \<and> length od = length b \<and> length om = length b"
  shows "tag_read E s fd idx offset buf sz =
    (if int (length b) < offset + sz then Some (ERR_2BIG, buf, s)
     else Some (0,
       take (nat sz) (drop (nat offset)
         (if attr_set (t_attr t) TAG_ATTR_OVR_SET then mask_bytes od om b else b)) @ drop (nat sz) buf, s))"
proof -
  note i = block_tagD [OF assms(1)] and z = tag_get_size_block [OF assms(1)]
  show ?thesis
  proof (cases "int (length b) < offset + sz")
    case True
    with assms(2-6) i z show ?thesis by (simp add: tag_read_def int32_ok_def)
  next
    case False
    let ?d = "take (nat sz) (drop (nat offset) b)"
    have len: "length ?d = nat sz" using False assms(2,3) by (simp add: nat_le_eq_zle)
    have d: "mem_get (data_bytes E t) offset sz = Some ?d"
      using False i assms(2,3) by (simp add: mem_get_def data_bytes_def)
    have b1: "mem_put buf 0 ?d = Some (?d @ drop (nat sz) buf)"
      using assms(3,5) len by (simp add: mem_put_def)
    show ?thesis
    proof (cases "attr_set (t_attr t) TAG_ATTR_OVR_SET")
      case no: False
      with False assms(2-6) i z d b1 show ?thesis by (simp add: tag_read_def int32_ok_def)
    next
      case True
      note o = assms(6) [OF True]
      let ?od = "take (nat sz) (drop (nat offset) od)" and ?om = "take (nat sz) (drop (nat offset) om)"
      have g: "mem_get od offset sz = Some ?od" "mem_get om offset sz = Some ?om"
        using False assms(2,3) o by (simp_all add: mem_get_def)
      have m: "mask_bytes ?od ?om ?d = take (nat sz) (drop (nat offset) (mask_bytes od om b))"
        using False o assms(2,3) by (intro nth_equalityI) (simp_all add: mask_bytes_nth)
      have "length (mask_bytes ?od ?om ?d) = nat sz" using len by simp
      then have b2: "mem_put (?d @ drop (nat sz) buf) 0 (mask_bytes ?od ?om ?d) =
          Some (mask_bytes ?od ?om ?d @ drop (nat sz) buf)"
        using len by (simp add: mem_put_def)
      from False True assms(2-6) i z d b1 o g b2 show ?thesis
        by (simp add: tag_read_def int32_ok_def ptr_bytes_def m)
    qed
  qed
qed

end
