(* ===== verification/Startup.thy ===== *)
theory Startup
  imports Server_Inv Memory_Safety
begin

text \<open>
  Adding tags never leaves defined behaviour as long as the status tags of the server are plain tags,
  and with memory available it succeeds. From this, the start-up of the database
  (\<^verbatim>\<open>initialize_tagbase\<close>) always reaches a running server.
\<close>

section \<open>Steps that only change the contents of tags\<close>

text \<open>
  What a write of the server to one of its own tags, which have the indices below 9, may change: bytes
  and event data of such tags, and the two logs.
\<close>

definition upd :: "server \<Rightarrow> server \<Rightarrow> bool" where
  "upd s s' \<longleftrightarrow>
    view s' = view s \<and> map d_members (cdts s') = map d_members (cdts s) \<and> mod_heap s' = mod_heap s \<and>
    (\<forall>j t b. plain s j t b \<longrightarrow> (\<exists>t' b'. plain s' j t' b' \<and> length b' = length b)) \<and>
    (\<forall>j. 9 \<le> j \<or> tagnextindex s \<le> j \<longrightarrow> get_tag s' j = get_tag s j)"

lemma upd_refl [simp]: "upd s s"
  by (auto simp: upd_def)

lemma upd_next: "upd s s' \<Longrightarrow> tagnextindex s' = tagnextindex s"
  by (auto simp: upd_def dest: view_eqD)

lemma upd_trans: "upd s s1 \<Longrightarrow> upd s1 s2 \<Longrightarrow> upd s s2"
  using upd_next [of s s1] unfolding upd_def by (metis (no_types, lifting))

lemma upd_plain:
  assumes "upd s s'" and "plain s j t b"
  obtains t' b' where "plain s' j t' b'" and "length b' = length b"
  using assms unfolding upd_def by blast

lemma data_size_members:
  assumes "map d_members dts' = map d_members dts"
  shows "data_size dts' t c = data_size dts t c"
proof -
  have "length dts' = length dts" using assms by (rule map_eq_imp_length_eq)
  then have "type_size dts' t = type_size dts t"
    unfolding type_size_def using type_size_fuel_members [OF assms] by simp
  then show ?thesis by (simp add: data_size_def)
qed

text \<open>A status tag is plain, or not there yet.\<close>

definition status_ok :: "server \<Rightarrow> int \<Rightarrow> bool" where
  "status_ok s i \<longleftrightarrow> tagnextindex s \<le> i \<or> (\<exists>t b. plain s i t b)"

lemma status_ok_upd: "upd s s' \<Longrightarrow> status_ok s i \<Longrightarrow> status_ok s' i"
  unfolding status_ok_def using upd_next [of s s'] by (metis upd_plain)

lemma plain_set_other:
  assumes "plain s j t b" and "0 \<le> i" and "i \<noteq> j"
  shows "plain ((set_tag s i u)\<lparr>sent := x, retained := y\<rparr>) j t b"
  using assms by (simp add: plain_def block_tag_def)

lemma write_plain:
  assumes "plain s i t b" and "length b' = length b" and "\<forall>ev\<in>set evs. ev_ok (mod_heap s) (length b) ev"
    and "plain s j u c"
  shows "\<exists>t1 b1. plain ((set_tag s i (t\<lparr>t_data := D_block b', t_events := evs\<rparr>))\<lparr>sent := x, retained := y\<rparr>) j t1 b1 \<and>
    length b1 = length c"
proof (cases "j = i")
  case True
  note p = plainD [OF assms(1)]
  have "plain ((set_tag s i (t\<lparr>t_data := D_block b', t_events := evs\<rparr>))\<lparr>sent := x, retained := y\<rparr>) i
      (t\<lparr>t_data := D_block b', t_events := evs\<rparr>) b'"
    using assms p get_tag_Some_range [OF p(1)] by (simp add: plain_def block_tag_def)
  moreover have "length c = length b" using True assms(4) p plainD [OF assms(4)] by simp
  ultimately show ?thesis using True assms(2) by metis
next
  case False
  with plain_set_other [OF assms(4), of i] plainD [OF assms(1)] show ?thesis by blast
qed

lemma upd_write:
  assumes "plain s i t b" and "length b' = length b" and "\<forall>ev\<in>set evs. ev_ok (mod_heap s) (length b) ev"
    and "i < 9"
  shows "upd s ((set_tag s i (t\<lparr>t_data := D_block b', t_events := evs\<rparr>))\<lparr>sent := x, retained := y\<rparr>)"
    (is "upd s ?s")
proof -
  note p = plainD [OF assms(1)]
  have r: "0 \<le> i" "i < int (length (db s))" using get_tag_Some_range [OF p(1)] by simp_all
  have v: "view ?s = view s"
    using view_set_tag [OF p(1), of "t\<lparr>t_data := D_block b', t_events := evs\<rparr>"] p(4) assms(2)
    by (simp add: core_def)
  have "get_tag ?s j = get_tag s j" if "9 \<le> j \<or> tagnextindex s \<le> j" for j
    using that p(3) r(1) assms(4) by (auto intro!: get_tag_set_other)
  with v write_plain [OF assms(1-3)] show ?thesis by (auto simp: upd_def)
qed

lemma sys_write_total:
  assumes "status_ok s i" and "i < 9" and "length data < 2 ^ 30"
  obtains s' where "sys_write E s i data = Some s'" and "upd s s'"
proof (cases "tagnextindex s \<le> i")
  case True
  then show ?thesis using that [of s] by (simp add: sys_write_def tag_write_def)
next
  case False
  with assms(1) obtain t b where p: "plain s i t b" by (auto simp: status_ok_def)
  show ?thesis
  proof (cases "int (length data) \<le> int (length b)")
    case True
    obtain b' evs x y where
      w: "mem_put b 0 (take (nat (int (length data))) data) = Some b'"
        "tag_write E s (- 1) i 0 data (int (length data)) =
          Some (0, (set_tag s i (t\<lparr>t_data := D_block b', t_events := evs\<rparr>))\<lparr>sent := sent s @ x, retained := retained s @ y\<rparr>)"
        "\<forall>ev\<in>set evs. ev_ok (mod_heap s) (length b) ev"
      by (rule tag_write_block [OF p, where offset = 0 and sz = "int (length data)" and data = data and E = E and fd = "- 1"])
        (use True assms(3) in simp_all)
    from upd_write [OF p mem_put_length [OF w(1)] w(3) assms(2)] that w(2) show ?thesis
      by (auto simp: sys_write_def)
  next
    case False
    then have "tag_write E s (- 1) i 0 data (int (length data)) = Some (ERR_2BIG, s)"
      using assms(3) by (intro tag_write_too_big [OF p]) simp_all
    with that [of s] show ?thesis by (simp add: sys_write_def)
  qed
qed

lemma status_write_total:
  assumes "status_ok s i" and "i < 9" and "get_tag s i \<noteq> None"
  obtains s' where "status_write E s i x = Some s'" and "upd s s'"
proof -
  from assms(3) obtain t where t: "get_tag s i = Some t" by blast
  show ?thesis
  proof (cases "t_data t = D_null")
    case True
    with t that [of s] show ?thesis by (simp add: status_write_def)
  next
    case False
    from sys_write_total [OF assms(1,2), of "enc_int x" E] obtain s' where
      "sys_write E s i (enc_int x) = Some s'" "upd s s'" by auto
    with False t that show ?thesis by (simp add: status_write_def)
  qed
qed

section \<open>Publishing a new tag\<close>

lemma cdt_inc_refcount_total:
  assumes "unat (CDT_TO_INDEX type) < length (cdts s)"
  obtains s' where "cdt_inc_refcount s type = Some s'" and "upd s s'"
proof -
  let ?i = "unat (CDT_TO_INDEX type)"
  define s' where "s' = s\<lparr>cdts := (cdts s)[?i := (cdts s ! ?i)\<lparr>d_refcount := d_refcount (cdts s ! ?i) + 1\<rparr>]\<rparr>"
  have "arr_get (cdts s) (uint (CDT_TO_INDEX type)) = Some (cdts s ! ?i)"
    using assms by (simp add: arr_get_uint)
  then have c: "cdt_inc_refcount s type = Some s'" by (simp add: cdt_inc_refcount_def s'_def)
  have m: "map d_members (cdts s') = map d_members (cdts s)"
    using assms by (simp add: s'_def map_update) (metis length_map list_update_id nth_map)
  have g: "get_tag s' j = get_tag s j" for j by (simp add: get_tag_def s'_def)
  have "plain s j t b \<Longrightarrow> plain s' j t b" for j t b
    unfolding plain_def block_tag_def g data_size_members [OF m] by (simp add: s'_def)
  moreover have "mod_heap s' = mod_heap s" by (simp add: s'_def)
  ultimately have "upd s s'" using m g cdt_inc_refcount_view [OF c] unfolding upd_def by blast
  with c that show ?thesis by blast
qed

lemma length_tag_desc [simp]: "length (tag_desc E idx type count attr name) = 47"
  by (simp add: tag_desc_def DAX_TAGNAME_SIZE_def)

lemma attr_set_or: "attr_set (a OR c) f \<longleftrightarrow> attr_set a f \<or> attr_set c f"
  by (auto simp: attr_set_def bit_eq_iff bit_simps)

text \<open>The attribute of a tag after \<^verbatim>\<open>_set_attribute\<close>.\<close>

definition attr_after :: "u16 \<Rightarrow> u16 \<Rightarrow> u16" where
  "attr_after a f =
    (if attr_set f TAG_ATTR_RETAIN then a OR TAG_ATTR_RETAIN
     else if attr_set f TAG_ATTR_OWNED \<and> attr_set f TAG_ATTR_READONLY then a OR (TAG_ATTR_OWNED OR TAG_ATTR_READONLY)
     else if attr_set f TAG_ATTR_OWNED then a OR TAG_ATTR_OWNED
     else a)"

lemma attr_after_other:
  "attr_set (attr_after a f) TAG_ATTR_VIRTUAL \<longleftrightarrow> attr_set a TAG_ATTR_VIRTUAL"
  "attr_set (attr_after a f) TAG_ATTR_SPECIAL \<longleftrightarrow> attr_set a TAG_ATTR_SPECIAL"
  "attr_set (attr_after a f) TAG_ATTR_OVR_SET \<longleftrightarrow> attr_set a TAG_ATTR_OVR_SET"
  by (simp_all add: attr_after_def attr_set_or) (simp_all add: attr_set_def)

lemma set_attribute_plain:
  assumes "plain s n t b"
  obtains y where "set_attribute s n attr = Some ((set_tag s n (t\<lparr>t_attr := attr_after (t_attr t) (ucast attr)\<rparr>))\<lparr>retained := y\<rparr>)"
    and "plain ((set_tag s n (t\<lparr>t_attr := attr_after (t_attr t) (ucast attr)\<rparr>))\<lparr>retained := y\<rparr>) n
      (t\<lparr>t_attr := attr_after (t_attr t) (ucast attr)\<rparr>) b"
proof -
  note p = plainD [OF assms]
  define a where "a = attr_after (t_attr t) (ucast attr)"
  define y where "y = (if attr_set (ucast attr) TAG_ATTR_RETAIN then retained s @ [Ret_add n] else retained s)"
  have keep: "(set_tag s n u)\<lparr>retained := retained s\<rparr> = set_tag s n u" for u by (simp add: set_tag_def)
  have same: "set_tag s n (t\<lparr>t_attr := t_attr t\<rparr>) = s"
    using p(1) by (auto simp: set_tag_def get_tag_def arr_get_Some_iff)
  have "set_attribute s n attr = Some ((set_tag s n (t\<lparr>t_attr := a\<rparr>))\<lparr>retained := y\<rparr>)"
    using keep same by (simp add: set_attribute_def Let_def p(1) a_def y_def attr_after_def)
  moreover have "plain ((set_tag s n (t\<lparr>t_attr := a\<rparr>))\<lparr>retained := y\<rparr>) n (t\<lparr>t_attr := a\<rparr>) b"
    using assms p get_tag_Some_range [OF p(1)] by (simp add: plain_def block_tag_def a_def attr_after_other)
  ultimately show ?thesis using that unfolding a_def by blast
qed

text \<open>What is the same after a tag has been added.\<close>

definition added :: "server \<Rightarrow> server \<Rightarrow> bool" where
  "added s s' \<longleftrightarrow>
    tagnextindex s' = tagnextindex s + 1 \<and> length (db s') = length (db s) \<and> map d_members (cdts s') = map d_members (cdts s) \<and> mod_heap s' = mod_heap s \<and>
    (\<forall>j t b. plain s j t b \<longrightarrow> (\<exists>t' b'. plain s' j t' b' \<and> length b' = length b)) \<and>
    (\<forall>j. 9 \<le> j \<or> tagnextindex s < j \<longrightarrow> j \<noteq> tagnextindex s \<longrightarrow> get_tag s' j = get_tag s j)"

lemma plain_counters:
  "plain s j t b \<Longrightarrow> tagnextindex s \<le> x \<Longrightarrow> plain (s\<lparr>tagnextindex := x, tagcount := y\<rparr>) j t b"
  by (simp add: plain_def block_tag_def get_tag_def)

lemma plain_retained: "plain (s\<lparr>retained := y\<rparr>) j t b \<longleftrightarrow> plain s j t b"
  by (simp add: plain_def block_tag_def)

lemma plain_set_tag:
  assumes "plain s j t b" and "0 \<le> i" and "i \<noteq> j"
  shows "plain (set_tag s i u) j t b"
  using assms by (simp add: plain_def block_tag_def)

lemma plain_unique: "plain s i t b \<Longrightarrow> get_tag s i = Some t' \<Longrightarrow> t' = t \<and> t_data t' = D_block b"
  by (auto simp: plain_def block_tag_def)

text \<open>The first half: the reference count, \<^verbatim>\<open>_lastindex\<close> and the counters.\<close>

lemma publish_count:
  assumes "get_tag s n = Some t" and "n = tagnextindex s" and "t_data t = D_block b" and "length b < 2 ^ 31"
    and "map_option unat (data_size (cdts s) (t_type t) (t_count t)) = Some (length b)" and "t_events t = []"
    and "\<not> attr_set (t_attr t) TAG_ATTR_VIRTUAL" and "\<not> attr_set (t_attr t) TAG_ATTR_SPECIAL"
    and "IS_CUSTOM type \<Longrightarrow> unat (CDT_TO_INDEX type) < length (cdts s)"
    and "status_ok s 1" and "9 \<le> length (db s)"
  obtains s1 s2 where "(if IS_CUSTOM type then cdt_inc_refcount s type else Some s) = Some s1"
    and "status_write E s1 INDEX_LASTINDEX (tagnextindex s1) = Some s2"
    and "added s (s2\<lparr>tagnextindex := tagnextindex s2 + 1, tagcount := tagcount s2 + 1\<rparr>)"
    and "plain (s2\<lparr>tagnextindex := tagnextindex s2 + 1, tagcount := tagcount s2 + 1\<rparr>) n t b"
    and "length (db s2) = length (db s)"
proof -
  obtain s1 where s1: "(if IS_CUSTOM type then cdt_inc_refcount s type else Some s) = Some s1" "upd s s1"
  proof (cases "IS_CUSTOM type")
    case True
    with cdt_inc_refcount_total [OF assms(9)] that show ?thesis by auto
  qed (use that [of s] in simp)
  have "length (db s1) = length (db s)" using s1(2) view_simps(4) by (metis upd_def)
  then have "get_tag s1 1 \<noteq> None" using assms(11) by (simp add: get_tag_def arr_get_def)
  then obtain s2 where s2: "status_write E s1 INDEX_LASTINDEX (tagnextindex s1) = Some s2" "upd s1 s2"
    using status_write_total [of s1 1 E "tagnextindex s1"] status_ok_upd [OF s1(2) assms(10)] by auto
  have u2: "upd s s2" by (rule upd_trans [OF s1(2) s2(2)])
  define s3 where "s3 = s2\<lparr>tagnextindex := tagnextindex s2 + 1, tagcount := tagcount s2 + 1\<rparr>"
  have next2: "tagnextindex s2 = n" using upd_next [OF u2] assms(2) by simp
  have g2: "get_tag s2 n = Some t" and m2: "map d_members (cdts s2) = map d_members (cdts s)"
    and h2: "mod_heap s2 = mod_heap s"
    and u: "\<forall>j. 9 \<le> j \<or> tagnextindex s \<le> j \<longrightarrow> get_tag s2 j = get_tag s j"
    using u2 assms(1,2) by (auto simp: upd_def)
  have "map_option unat (data_size (cdts s2) (t_type t) (t_count t)) = Some (length b)"
    unfolding data_size_members [OF m2] by (rule assms(5))
  then have p3: "plain s3 n t b"
    using assms(3,4,6-8) next2 g2 by (simp add: plain_def block_tag_def s3_def get_tag_def)
  have old3: "\<exists>t' b'. plain s3 j t' b' \<and> length b' = length c" if "plain s j u c" for j u c
    using upd_plain [OF u2 that] plain_counters [of s2 j _ _ "tagnextindex s2 + 1" "tagcount s2 + 1"]
    by (metis s3_def less_add_one less_imp_le)
  have "get_tag s3 j = get_tag s2 j" for j by (simp add: s3_def get_tag_def)
  with u have "\<forall>j. 9 \<le> j \<or> tagnextindex s < j \<longrightarrow> j \<noteq> tagnextindex s \<longrightarrow> get_tag s3 j = get_tag s j" by auto
  moreover have len: "length (db s2) = length (db s)" using u2 view_simps(4) by (metis upd_def)
  ultimately have ad: "added s s3" using next2 assms(2) m2 h2 old3 unfolding added_def s3_def by auto
  show ?thesis by (rule that [OF s1(1) s2(1) ad [unfolded s3_def] p3 [unfolded s3_def] len])
qed

lemma status_ok_added:
  assumes "added s s'" and "plain s' (tagnextindex s) t b" and "status_ok s i"
  shows "status_ok s' i"
proof (cases "tagnextindex s < i")
  case True
  then show ?thesis using assms(1) by (simp add: added_def status_ok_def)
next
  case False
  show ?thesis
  proof (cases "i = tagnextindex s")
    case True
    with assms(2) show ?thesis by (auto simp: status_ok_def)
  next
    case ne: False
    with False assms(3) obtain t b where "plain s i t b" by (auto simp: status_ok_def)
    with assms(1) have "\<exists>t' b'. plain s' i t' b'" unfolding added_def by blast
    then show ?thesis by (simp add: status_ok_def)
  qed
qed

lemma added_upd:
  assumes "added s s1" and "upd s1 s2"
  shows "added s s2"
proof -
  have "\<exists>t' b'. plain s2 j t' b' \<and> length b' = length b" if "plain s j t b" for j t b
  proof -
    from that assms(1) obtain t1 b1 where "plain s1 j t1 b1" "length b1 = length b" unfolding added_def by blast
    with upd_plain [OF assms(2)] show ?thesis by metis
  qed
  moreover have "get_tag s2 j = get_tag s j" if "9 \<le> j \<or> tagnextindex s < j" "j \<noteq> tagnextindex s" for j
    using that assms unfolding added_def upd_def by auto
  moreover have "length (db s2) = length (db s1)" using assms(2) view_simps(4) by (metis upd_def)
  ultimately show ?thesis using assms upd_next [OF assms(2)] unfolding added_def upd_def by auto
qed

lemma added_set_attr:
  assumes "added s s1" and "plain s1 n t b" and "n = tagnextindex s"
    and "plain ((set_tag s1 n u)\<lparr>retained := y\<rparr>) n u b"
  shows "added s ((set_tag s1 n u)\<lparr>retained := y\<rparr>)"
proof -
  have n0: "0 \<le> n" using plainD [OF assms(2)] by simp
  have "\<exists>t' b'. plain ((set_tag s1 n u)\<lparr>retained := y\<rparr>) j t' b' \<and> length b' = length c" if "plain s j v c" for j v c
  proof -
    from that assms(1) obtain t1 b1 where j: "plain s1 j t1 b1" "length b1 = length c" unfolding added_def by blast
    have "j \<noteq> n" using plainD [OF that] assms(3) by simp
    with plain_set_tag [OF j(1) n0] have "plain (set_tag s1 n u) j t1 b1" by simp
    with j(2) show ?thesis unfolding plain_retained by blast
  qed
  with assms n0 show ?thesis by (simp add: added_def)
qed

lemma tag_publish_total:
  assumes "get_tag s n = Some t" and "n = tagnextindex s" and "t_data t = D_block b" and "length b < 2 ^ 31"
    and "map_option unat (data_size (cdts s) (t_type t) (t_count t)) = Some (length b)" and "t_events t = []"
    and "\<not> attr_set (t_attr t) TAG_ATTR_VIRTUAL" and "\<not> attr_set (t_attr t) TAG_ATTR_SPECIAL"
    and "IS_CUSTOM type \<Longrightarrow> unat (CDT_TO_INDEX type) < length (cdts s)"
    and "\<forall>i \<in> {0, 1, 2}. status_ok s i" and "9 \<le> length (db s)"
  obtains s' t' b' where "tag_publish E s n name type count attr = Some (n, s')" and "added s s'"
    and "plain s' n t' b'" and "length b' = length b" and "9 \<le> n \<longrightarrow> t' = t\<lparr>t_attr := attr_after (t_attr t) (ucast attr)\<rparr>"
proof -
  have ok1: "status_ok s 1" using assms(10) by simp
  obtain s1 s2 where s12: "(if IS_CUSTOM type then cdt_inc_refcount s type else Some s) = Some s1"
    "status_write E s1 INDEX_LASTINDEX (tagnextindex s1) = Some s2"
    and ad3: "added s (s2\<lparr>tagnextindex := tagnextindex s2 + 1, tagcount := tagcount s2 + 1\<rparr>)"
    and p3: "plain (s2\<lparr>tagnextindex := tagnextindex s2 + 1, tagcount := tagcount s2 + 1\<rparr>) n t b"
    and len: "length (db s2) = length (db s)"
    by (rule publish_count [OF assms(1-9) ok1 assms(11)])
  define s3 where "s3 = s2\<lparr>tagnextindex := tagnextindex s2 + 1, tagcount := tagcount s2 + 1\<rparr>"
  note ad3 = ad3 [folded s3_def] and p3 = p3 [folded s3_def]
  have "status_ok s3 0" using status_ok_added [OF ad3 p3 [unfolded assms(2)]] assms(10) by simp
  moreover have "get_tag s3 0 \<noteq> None" using len assms(11) by (auto simp: s3_def get_tag_def arr_get_def)
  ultimately obtain s4 where s4: "status_write E s3 INDEX_TAGCOUNT (tagcount s3) = Some s4" "upd s3 s4"
    using status_write_total [of s3 0 E "tagcount s3"] by auto
  have ad4: "added s s4" by (rule added_upd [OF ad3 s4(2)])
  from upd_plain [OF s4(2) p3] obtain t4 b4 where p4: "plain s4 n t4 b4" "length b4 = length b" .
  define a where "a = attr_after (t_attr t4) (ucast attr)"
  obtain y where s5: "set_attribute s4 n attr = Some ((set_tag s4 n (t4\<lparr>t_attr := a\<rparr>))\<lparr>retained := y\<rparr>)"
    and p5: "plain ((set_tag s4 n (t4\<lparr>t_attr := a\<rparr>))\<lparr>retained := y\<rparr>) n (t4\<lparr>t_attr := a\<rparr>) b4"
    unfolding a_def by (rule set_attribute_plain [OF p4(1)])
  define s5 where "s5 = (set_tag s4 n (t4\<lparr>t_attr := a\<rparr>))\<lparr>retained := y\<rparr>"
  note s5' = s5 [folded s5_def] and p5 = p5 [folded s5_def]
  have ad5: "added s s5" unfolding s5_def by (rule added_set_attr [OF ad4 p4(1) assms(2) p5 [unfolded s5_def]])
  have "status_ok s5 2" using status_ok_added [OF ad5 p5 [unfolded assms(2)]] assms(10) by simp
  then obtain s6 where s6: "sys_write E s5 INDEX_ADDED_TAG (tag_desc E n type count (ucast attr) name) = Some s6" "upd s5 s6"
    using sys_write_total [of s5 2 "tag_desc E n type count (ucast attr) name" E] by auto
  from upd_plain [OF s6(2) p5] obtain t6 b6 where p6: "plain s6 n t6 b6" "length b6 = length b4" .
  have pub: "tag_publish E s n name type count attr = Some (n, s6)"
    using s12 s4(1) s5' s6(1) unfolding tag_publish_def s3_def by (simp add: Let_def)
  have new: "t6 = t\<lparr>t_attr := attr_after (t_attr t) (ucast attr)\<rparr>" if "9 \<le> n"
  proof -
    have "get_tag s4 n = get_tag s3 n" using s4(2) that unfolding upd_def by blast
    then have "t4 = t" using plainD(1) [OF p4(1)] plainD(1) [OF p3] by simp
    moreover have "get_tag s6 n = get_tag s5 n" using s6(2) that unfolding upd_def by blast
    then have "t6 = t4\<lparr>t_attr := a\<rparr>" using plainD(1) [OF p6(1)] plainD(1) [OF p5] by simp
    ultimately show ?thesis by (simp add: a_def)
  qed
  show ?thesis by (rule that [OF pub added_upd [OF ad5 s6(2)] p6(1)]) (use new p6(2) p4(2) in simp_all)
qed

section \<open>Adding a tag succeeds\<close>

lemma checktype_custom_index:
  "checktype dts t = 0 \<Longrightarrow> \<not> IS_QUEUE t \<Longrightarrow> IS_CUSTOM t \<Longrightarrow> unat (CDT_TO_INDEX t) < length dts"
proof -
  assume a: "checktype dts t = 0" "\<not> IS_QUEUE t" "IS_CUSTOM t"
  have "drop_queue t = t" using a(2) by (auto simp: drop_queue_def IS_QUEUE_def bit_eq_iff bit_simps)
  with a(1,3) base_types_not_custom show ?thesis
    by (auto simp: checktype_def Let_def split: if_splits)
qed

lemma added_pre:
  assumes "added s1 s'" and "tagnextindex s1 = tagnextindex s" and "cdts s1 = cdts s" and "mod_heap s1 = mod_heap s"
    and "length (db s1) = length (db s)" and "\<forall>j. j \<noteq> tagnextindex s \<longrightarrow> get_tag s1 j = get_tag s j"
  shows "added s s'"
proof -
  have "plain s1 j t b" if "plain s j t b" for j t b
  proof -
    have "j \<noteq> tagnextindex s" using plainD [OF that] by simp
    with assms that show ?thesis by (simp add: plain_def block_tag_def)
  qed
  then have "\<exists>t' b'. plain s' j t' b' \<and> length b' = length b" if "plain s j t b" for j t b
    using that assms(1) unfolding added_def by blast
  with assms show ?thesis unfolding added_def by auto
qed

text \<open>The entry of a new tag before it is published.\<close>

definition new_entry :: "tag_db \<Rightarrow> int \<Rightarrow> string \<Rightarrow> u32 \<Rightarrow> u32 \<Rightarrow> nat \<Rightarrow> tag_db" where
  "new_entry t fd name type count n =
    t\<lparr>t_count := count, t_type := type, t_data := D_block (replicate n 0), t_nextevent := 1, t_nextmap := 1,
      t_fd := fd, t_events := [], t_omask := None, t_odata := None, t_name := Some name\<rparr>"

lemma tag_add_new_total:
  assumes "db_inv s" and "alloc_all E" and "n = tagnextindex s" and "n < dbsize s"
    and "idx_lookup (idx_of s) name = None" and "checktype (cdts s) type = 0"
    and "data_size (cdts s) type count = Some sz" and "unat sz < 2 ^ 31" and "\<not> IS_QUEUE type"
    and "get_tag s n = Some t" and "\<not> attr_set (t_attr t) TAG_ATTR_VIRTUAL" and "\<not> attr_set (t_attr t) TAG_ATTR_SPECIAL"
    and "\<forall>i \<in> {0, 1, 2}. status_ok s i"
  obtains s' t' b' where "tag_add_new E s fd name type count attr sz = Some (n, s')" and "added s s'"
    and "plain s' n t' b'" and "length b' = unat sz"
    and "9 \<le> n \<longrightarrow> t' = (new_entry t fd name type count (unat sz))\<lparr>t_attr := attr_after (t_attr t) (ucast attr)\<rparr>"
proof -
  note inv = db_invD [OF assms(1)]
  have iv: "inv_view (view s)" using assms(1) by (simp add: db_inv_def)
  note r = get_tag_Some_range [OF assms(10)]
  define t1 where "t1 = t\<lparr>t_count := count, t_type := type, t_data := D_block (replicate (unat sz) 0)\<rparr>"
  define t2 where "t2 = t1\<lparr>t_nextevent := 1, t_nextmap := 1, t_fd := fd, t_events := [], t_omask := None, t_odata := None\<rparr>"
  have al: "tag_alloc E s type count sz = Some (0, set_tag s n t1)"
    using assms(2,3,9,10) by (simp add: tag_alloc_def t1_def Let_def)
  have g2: "get_tag (set_tag s n t2) n = Some t2" using r by simp
  have ii: "idx_inv (idx_of (set_tag s n t2))" "idx_room (idx_of (set_tag s n t2))"
    "idx_lookup (idx_of (set_tag s n t2)) name = None" "alloc E A_index_name"
    using inv live_count [OF iv] assms(2-5) by (simp_all add: idx_room_def)
  obtain ix :: name_idx where ix: "add_index E (set_tag s n t2) name n =
      Some (0, (set_tag (set_tag s n t2) n (t2\<lparr>t_name := Some name\<rparr>))\<lparr>name_index := ix_arr ix, indexcount := ix_count ix\<rparr>)"
    by (rule add_index_spec [OF ii g2])
  define t3 where "t3 = new_entry t fd name type count (unat sz)"
  have t3: "t2\<lparr>t_name := Some name\<rparr> = t3" by (simp add: t3_def new_entry_def t2_def t1_def)
  define s3 where "s3 = (set_tag s n t3)\<lparr>name_index := ix_arr ix, indexcount := ix_count ix\<rparr>"
  have ai: "add_index E (set_tag s n t2) name n = Some (0, s3)" using ix by (simp add: t3 s3_def)
  have step: "tag_add_new E s fd name type count attr sz = tag_publish E s3 n name type count attr"
    using al ai r by (simp add: tag_add_new_def Let_def assms(3) [symmetric] t2_def)
  have gs: "get_tag s3 j = (if j = n then Some t3 else get_tag s j)" for j
    using r by (simp add: s3_def get_tag_def [of "_\<lparr>name_index := _, indexcount := _\<rparr>"]) (simp add: get_tag_def [symmetric])
  have st: "\<forall>i \<in> {0, 1, 2}. status_ok s3 i"
  proof
    fix i :: int
    assume "i \<in> {0, 1, 2}"
    with assms(13) have "status_ok s i" by blast
    then show "status_ok s3 i"
      using gs [of i] assms(3) by (auto simp: status_ok_def plain_def block_tag_def s3_def)
  qed
  have f: "n = tagnextindex s3" "t_data t3 = D_block (replicate (unat sz) 0)" "length (replicate (unat sz) (0::byte)) < 2 ^ 31"
    "map_option unat (data_size (cdts s3) (t_type t3) (t_count t3)) = Some (length (replicate (unat sz) (0::byte)))"
    "t_events t3 = []" "\<not> attr_set (t_attr t3) TAG_ATTR_VIRTUAL" "\<not> attr_set (t_attr t3) TAG_ATTR_SPECIAL"
    "9 \<le> length (db s3)"
    using assms inv by (simp_all add: t3_def new_entry_def s3_def)
  have g3: "get_tag s3 n = Some t3" by (simp add: gs)
  have cu: "IS_CUSTOM type \<Longrightarrow> unat (CDT_TO_INDEX type) < length (cdts s3)"
    using checktype_custom_index [OF assms(6,9)] by (simp add: s3_def)
  obtain s' t' b' where pub: "tag_publish E s3 n name type count attr = Some (n, s')" and ad: "added s3 s'"
    and p: "plain s' n t' b'" and l: "length b' = length (replicate (unat sz) (0::byte))" and nw: "9 \<le> n \<longrightarrow> t' = t3\<lparr>t_attr := attr_after (t_attr t3) (ucast attr)\<rparr>"
    by (rule tag_publish_total [OF g3 f(1-7) cu st f(8)])
  have "added s s'" by (rule added_pre [OF ad]) (use gs assms(3) in \<open>simp_all add: s3_def\<close>)
  moreover have "t_attr t3 = t_attr t" by (simp add: t3_def new_entry_def)
  ultimately show ?thesis using that [OF _ _ p] l pub step nw unfolding t3_def by auto
qed

lemma tag_add_total:
  assumes "db_inv s" and "alloc_all E" and "n = tagnextindex s" and "n < dbsize s" and "count \<noteq> 0"
    and "validate_name name = 0" and "idx_lookup (idx_of s) name = None" and "checktype (cdts s) type = 0"
    and "data_size (cdts s) type count = Some sz" and "unat sz < 2 ^ 31" and "\<not> IS_QUEUE type"
    and "get_tag s n = Some t" and "\<not> attr_set (t_attr t) TAG_ATTR_VIRTUAL" and "\<not> attr_set (t_attr t) TAG_ATTR_SPECIAL"
    and "\<forall>i \<in> {0, 1, 2}. status_ok s i"
  obtains s' t' b' where "tag_add E s fd name type count attr = Some (n, s')" and "added s s'"
    and "plain s' n t' b'" and "length b' = unat sz"
    and "9 \<le> n \<longrightarrow> t' = (new_entry t fd name type count (unat sz))\<lparr>t_attr := attr_after (t_attr t) (ucast attr)\<rparr>"
proof -
  have "tag_add E s fd name type count attr = tag_add_new E s fd name type count attr sz"
    using assms(3-9) get_by_name_lookup [OF db_invD(2) [OF assms(1)]] by (simp add: tag_add_def)
  with tag_add_new_total [OF assms(1-4,7-15)] that show ?thesis by metis
qed

section \<open>Start-up\<close>

text \<open>The two types that the server creates for itself.\<close>

definition sys_types :: "cdt list" where
  "sys_types =
    [\<lparr>d_name = ''_module'', d_flags = 0, d_refcount = 0, d_members =
       [\<lparr>m_name = ''starttime'', m_type = DAX_TIME, m_count = 1\<rparr>, \<lparr>m_name = ''id'', m_type = DAX_DINT, m_count = 1\<rparr>,
        \<lparr>m_name = ''running'', m_type = DAX_BOOL, m_count = 1\<rparr>, \<lparr>m_name = ''faulted'', m_type = DAX_BOOL, m_count = 1\<rparr>,
        \<lparr>m_name = ''status'', m_type = DAX_CHAR, m_count = 64\<rparr>, \<lparr>m_name = ''stop'', m_type = DAX_BOOL, m_count = 1\<rparr>,
        \<lparr>m_name = ''run'', m_type = DAX_BOOL, m_count = 1\<rparr>, \<lparr>m_name = ''reload'', m_type = DAX_BOOL, m_count = 1\<rparr>,
        \<lparr>m_name = ''kill'', m_type = DAX_BOOL, m_count = 1\<rparr>]\<rparr>,
     \<lparr>d_name = ''_tag_desc'', d_flags = 0, d_refcount = 0, d_members =
       [\<lparr>m_name = ''index'', m_type = DAX_DINT, m_count = 1\<rparr>, \<lparr>m_name = ''type'', m_type = DAX_UDINT, m_count = 1\<rparr>,
        \<lparr>m_name = ''count'', m_type = DAX_UDINT, m_count = 1\<rparr>, \<lparr>m_name = ''attributes'', m_type = DAX_UINT, m_count = 1\<rparr>,
        \<lparr>m_name = ''name'', m_type = DAX_CHAR, m_count = 33\<rparr>]\<rparr>]"

lemma sys_types_len [simp]: "length sys_types = 2"
  by (simp add: sys_types_def)

lemma sys_types_wf: "wf_cdts sys_types"
proof -
  have "wf_cdt 0 (sys_types ! 0)" "wf_cdt 1 (sys_types ! 1)"
    by (simp_all add: sys_types_def wf_cdt_def cdt_ref_ok_def base_types_def base_names_def
        validate_name_def DAX_TAGNAME_SIZE_def isalpha_def isdigit_def name_char_def lname_def str_eval)
  moreover have "distinct (map (lname \<circ> d_name) sys_types)"
    by (simp add: sys_types_def lname_def str_eval)
  ultimately show ?thesis by (auto simp: wf_cdts_def MAX_CDTS_def less_2_cases_iff)
qed

lemma sys_types_str:
  "cdt_str sys_types (sys_types ! 0) = mod_cdt_str" "cdt_str sys_types (sys_types ! 1) = tag_cdt_str"
  by (simp_all add: cdt_str_def sys_types_def member_str_def type_name_def mod_cdt_str_def tag_cdt_str_def
      cdt_get_name_def base_names_def IS_CUSTOM_def show_int_def show_nat.simps digit_char_def DAX_TAGNAME_SIZE_def
      int_of_u32_def str_eval)

lemma sys_types_sizes:
  "type_size sys_types (CDT_TO_TYPE 1) = Some 47"
  using type_size_cdt [OF sys_types_wf, of 1] by (simp add: sys_types_def IS_CUSTOM_def TYPESIZE_def align8_def int_of_u32_def)

text \<open>
  A server that is starting: its own tags are plain tags of at least four bytes, entries not yet used
  are zero, and its types have the members listed above.
\<close>

definition starting :: "server \<Rightarrow> bool" where
  "starting s \<longleftrightarrow>
    srv_inv s \<and> map d_members (cdts s) = map d_members sys_types \<and>
    (\<forall>j. 0 \<le> j \<and> j < tagnextindex s \<and> j < 9 \<longrightarrow> (\<exists>t b. plain s j t b \<and> 4 \<le> length b)) \<and>
    (\<forall>j. tagnextindex s \<le> j \<and> j < dbsize s \<longrightarrow> get_tag s j = Some tag_zero)"

lemma startingD:
  assumes "starting s"
  shows "db_inv s" "map d_members (cdts s) = map d_members sys_types" "length (cdts s) = 2"
    "\<forall>i. 0 \<le> i \<and> i < 9 \<longrightarrow> status_ok s i"
    "int (length (db s)) = dbsize s"
proof -
  show inv: "db_inv s" and m: "map d_members (cdts s) = map d_members sys_types"
    using assms by (simp_all add: starting_def srv_inv_def)
  from map_eq_imp_length_eq [OF m] show "length (cdts s) = 2" by simp
  show "\<forall>i. 0 \<le> i \<and> i < 9 \<longrightarrow> status_ok s i"
  proof (intro allI impI)
    fix i :: int
    assume i: "0 \<le> i \<and> i < 9"
    show "status_ok s i"
    proof (cases "i < tagnextindex s")
      case True
      with i assms have "\<exists>t b. plain s i t b \<and> 4 \<le> length b" unfolding starting_def by blast
      then show ?thesis by (auto simp: status_ok_def)
    qed (simp add: status_ok_def)
  qed
  show "int (length (db s)) = dbsize s" by (rule db_invD(3) [OF inv])
qed

lemma starting_plain:
  "starting s \<Longrightarrow> 0 \<le> j \<Longrightarrow> j < tagnextindex s \<Longrightarrow> j < 9 \<Longrightarrow> \<exists>t b. plain s j t b \<and> 4 \<le> length b"
  by (simp add: starting_def)

lemma starting_zero:
  "starting s \<Longrightarrow> tagnextindex s \<le> j \<Longrightarrow> j < dbsize s \<Longrightarrow> get_tag s j = Some tag_zero"
  by (simp add: starting_def)

lemma starting_added:
  assumes "starting s" and "added s s'" and "srv_inv s'" and "plain s' (tagnextindex s) t b" and "4 \<le> length b"
  shows "starting s'"
proof -
  note st = startingD [OF assms(1)]
  have ln: "int (length (db s')) = dbsize s'" using assms(3) by (simp add: srv_inv_def db_invD)
  then have ds: "dbsize s' = dbsize s" using assms(2) st(5) by (simp add: added_def)
  have nx: "tagnextindex s' = tagnextindex s + 1" using assms(2) by (simp add: added_def)
  have "\<exists>t b. plain s' j t b \<and> 4 \<le> length b" if j: "0 \<le> j" "j < tagnextindex s'" "j < 9" for j
  proof (cases "j = tagnextindex s")
    case True
    with assms(4,5) show ?thesis by blast
  next
    case False
    with j nx have "0 \<le> j \<and> j < tagnextindex s \<and> j < 9" by simp
    with assms(1) obtain u c where "plain s j u c" "4 \<le> length c" unfolding starting_def by blast
    with assms(2) show ?thesis unfolding added_def by metis
  qed
  moreover have "get_tag s' j = Some tag_zero" if "tagnextindex s' \<le> j" "j < dbsize s'" for j
  proof -
    have "get_tag s' j = get_tag s j" using assms(2) that nx unfolding added_def by auto
    moreover have "get_tag s j = Some tag_zero" using assms(1) that nx ds unfolding starting_def by simp
    ultimately show ?thesis by simp
  qed
  moreover have "map d_members (cdts s') = map d_members sys_types" using assms(2) st(2) by (simp add: added_def)
  ultimately show ?thesis using assms(3) unfolding starting_def by blast
qed

text \<open>What a tag must be for \<^verbatim>\<open>tag_add\<close> to accept it at start-up.\<close>

definition sys_spec :: "string \<Rightarrow> u32 \<Rightarrow> u32 \<Rightarrow> bool" where
  "sys_spec name type count \<longleftrightarrow>
    validate_name name = 0 \<and> count \<noteq> 0 \<and> checktype sys_types type = 0 \<and> \<not> IS_QUEUE type \<and>
    (case data_size sys_types type count of Some sz \<Rightarrow> 4 \<le> unat sz \<and> unat sz < 2 ^ 31 | None \<Rightarrow> False)"

lemma sys_tag_add:
  assumes "starting s" and "alloc_all E" and "tagnextindex s < dbsize s" and "sys_spec name type count"
    and "idx_lookup (idx_of s) name = None"
  obtains s' t' b' where "tag_add E s (- 1) name type count 0 = Some (tagnextindex s, s')" and "added s s'"
    and "plain s' (tagnextindex s) t' b'" and "4 \<le> length b'" and "srv_inv s'"
    and "idx_lookup (idx_of s') = (idx_lookup (idx_of s))(name \<mapsto> tagnextindex s)"
proof -
  note st = startingD [OF assms(1)]
  from assms(4) obtain sz where sz: "data_size sys_types type count = Some sz" "4 \<le> unat sz" "unat sz < 2 ^ 31"
    by (auto simp: sys_spec_def split: option.splits)
  have z: "get_tag s (tagnextindex s) = Some tag_zero" using assms(1,3) unfolding starting_def by simp
  have qm: "queue_mem E" using assms(2) by (simp add: queue_mem_def)
  obtain s' t' b' where ta: "tag_add E s (- 1) name type count 0 = Some (tagnextindex s, s')" "added s s'"
    "plain s' (tagnextindex s) t' b'" "length b' = unat sz"
    by (rule tag_add_total [OF st(1) assms(2) refl assms(3), where name = name and type = type and count = count
          and sz = sz and t = tag_zero and fd = "- 1" and attr = 0])
      (use assms(4,5) st(3,4) z sz checktype_length [of "cdts s" sys_types type] data_size_members [OF st(2)]
        in \<open>simp_all add: sys_spec_def tag_zero_def attr_set_def\<close>)
  have "srv_inv s'" using tag_add_srv [OF ta(1)] assms(1) qm by (simp add: starting_def)
  moreover have "idx_lookup (idx_of s') = (idx_lookup (idx_of s))(name \<mapsto> tagnextindex s)"
    using tag_add_found [OF ta(1) st(1) qm] db_invD(5) [OF st(1)] by simp
  ultimately show ?thesis using that ta sz by metis
qed

text \<open>The tag in the next entry may change its attribute, or become virtual if it is not a status tag.\<close>

lemma starting_attr:
  assumes "starting s" and "plain s n t b" and "\<not> attr_set a TAG_ATTR_VIRTUAL" and "\<not> attr_set a TAG_ATTR_SPECIAL"
  shows "starting (set_tag s n (t\<lparr>t_attr := a\<rparr>))"
proof -
  let ?s = "set_tag s n (t\<lparr>t_attr := a\<rparr>)"
  note p = plainD [OF assms(2)] and r = get_tag_Some_range [OF plainD(1) [OF assms(2)]]
  have "view ?s = view s" using view_set_tag [OF p(1), of "t\<lparr>t_attr := a\<rparr>"] by (simp add: core_def)
  then have inv: "srv_inv ?s" using assms(1) by (simp add: starting_def srv_inv_cong [of ?s s])
  have self: "plain ?s n (t\<lparr>t_attr := a\<rparr>) b"
    using assms(2-4) r by (simp add: plain_def block_tag_def)
  have "\<exists>t b. plain ?s j t b \<and> 4 \<le> length b" if j: "0 \<le> j \<and> j < tagnextindex s \<and> j < 9" for j
  proof -
    from assms(1) j obtain u c where c: "plain s j u c" "4 \<le> length c" unfolding starting_def by blast
    show ?thesis
    proof (cases "j = n")
      case True
      with c plainD(1,4) [OF c(1)] p(1,4) have "c = b" by simp
      with True self c(2) show ?thesis by blast
    next
      case False
      with plain_set_tag [OF c(1) p(2)] c(2) show ?thesis by metis
    qed
  qed
  moreover have "get_tag ?s j = Some tag_zero" if "tagnextindex s \<le> j \<and> j < dbsize s" for j
    using that assms(1) p(2,3) unfolding starting_def by simp
  ultimately show ?thesis using inv assms(1) unfolding starting_def by simp
qed

lemma add_system_tag_total:
  assumes "starting s" and "alloc_all E" and "tagnextindex s < dbsize s" and "sys_spec name type count"
    and "idx_lookup (idx_of s) name = None"
  obtains s' where "add_system_tag E s name type count (tagnextindex s) = Some s'" and "starting s'"
    and "tagnextindex s' = tagnextindex s + 1" and "dbsize s' = dbsize s"
    and "idx_lookup (idx_of s') = (idx_lookup (idx_of s))(name \<mapsto> tagnextindex s)"
proof -
  obtain s1 t b where ta: "tag_add E s (- 1) name type count 0 = Some (tagnextindex s, s1)" "added s s1"
    "plain s1 (tagnextindex s) t b" "4 \<le> length b" "srv_inv s1"
    "idx_lookup (idx_of s1) = (idx_lookup (idx_of s))(name \<mapsto> tagnextindex s)"
    by (rule sys_tag_add [OF assms])
  define s' where "s' = set_tag s1 (tagnextindex s) (t\<lparr>t_attr := TAG_ATTR_READONLY\<rparr>)"
  have a: "add_system_tag E s name type count (tagnextindex s) = Some s'"
    using ta(1) plainD(1) [OF ta(3)] by (simp add: add_system_tag_def s'_def)
  have st: "starting s1" by (rule starting_added [OF assms(1) ta(2,5,3,4)])
  then have "starting s'" unfolding s'_def by (rule starting_attr [OF _ ta(3)]) (simp_all add: attr_set_def)
  moreover have "dbsize s' = dbsize s"
    using startingD(5) [OF st] startingD(5) [OF assms(1)] ta(2) by (simp add: added_def s'_def)
  moreover have "tagnextindex s' = tagnextindex s + 1" using ta(2) by (simp add: added_def s'_def)
  moreover have "idx_lookup (idx_of s') = (idx_lookup (idx_of s))(name \<mapsto> tagnextindex s)"
    using ta(6) by (simp add: s'_def)
  ultimately show ?thesis using that a by blast
qed

primrec index_names :: "(string \<rightharpoonup> int) \<Rightarrow> int \<Rightarrow> string list \<Rightarrow> (string \<rightharpoonup> int)" where
  "index_names m i [] = m"
| "index_names m i (x # xs) = index_names (m(x \<mapsto> i)) (i + 1) xs"

lemma add_system_tags_total:
  assumes "starting s" and "alloc_all E" and "tagnextindex s + int (length ts) \<le> dbsize s"
    and "\<forall>(name, type, count) \<in> set ts. sys_spec name type count"
    and "distinct (map fst ts)" and "\<forall>name \<in> set (map fst ts). idx_lookup (idx_of s) name = None"
  shows "\<exists>s'. add_system_tags E s (tagnextindex s) ts = Some s' \<and> starting s' \<and>
    tagnextindex s' = tagnextindex s + int (length ts) \<and> dbsize s' = dbsize s \<and>
    idx_lookup (idx_of s') = index_names (idx_lookup (idx_of s)) (tagnextindex s) (map fst ts)"
  using assms(1,3-)
proof (induction ts arbitrary: s)
  case (Cons x ts)
  obtain name type count where x: "x = (name, type, count)" by (cases x)
  have "tagnextindex s < dbsize s" "sys_spec name type count" "idx_lookup (idx_of s) name = None"
    using Cons.prems x by auto
  from add_system_tag_total [OF Cons.prems(1) assms(2) this] obtain s1 where
    s1: "add_system_tag E s name type count (tagnextindex s) = Some s1" "starting s1"
      "tagnextindex s1 = tagnextindex s + 1" "dbsize s1 = dbsize s"
      "idx_lookup (idx_of s1) = (idx_lookup (idx_of s))(name \<mapsto> tagnextindex s)" .
  have "\<forall>nm \<in> set (map fst ts). idx_lookup (idx_of s1) nm = None"
    using Cons.prems(4,5) by (auto simp: s1(5) x)
  with Cons.IH [OF s1(2)] Cons.prems s1(3,4) obtain s' where
    "add_system_tags E s1 (tagnextindex s1) ts = Some s'" "starting s'"
    "tagnextindex s' = tagnextindex s1 + int (length ts)" "dbsize s' = dbsize s1"
    "idx_lookup (idx_of s') = index_names (idx_lookup (idx_of s1)) (tagnextindex s1) (map fst ts)" by auto
  then show ?case using s1 by (simp add: x)
qed simp

lemma virtual_tag_add_total:
  assumes "starting s" and "alloc_all E" and "tagnextindex s < dbsize s" and "sys_spec name type count"
    and "idx_lookup (idx_of s) name = None" and "9 \<le> tagnextindex s"
  obtains s' where "virtual_tag_add E s name type count rd wr = Some (0, s')" and "starting s'"
    and "tagnextindex s' = tagnextindex s + 1" and "dbsize s' = dbsize s"
    and "idx_lookup (idx_of s') = (idx_lookup (idx_of s))(name \<mapsto> tagnextindex s)"
proof -
  let ?n = "tagnextindex s"
  obtain s1 t b where ta: "tag_add E s (- 1) name type count 0 = Some (?n, s1)" "added s s1"
    "plain s1 ?n t b" "4 \<le> length b" "srv_inv s1" "idx_lookup (idx_of s1) = (idx_lookup (idx_of s))(name \<mapsto> ?n)"
    by (rule sys_tag_add [OF assms(1-5)])
  define s' where "s' = set_tag s1 ?n (t\<lparr>t_data := D_virt rd wr None,
    t_attr := (if wr = VF_null then (t_attr t OR TAG_ATTR_VIRTUAL) OR TAG_ATTR_READONLY else t_attr t OR TAG_ATTR_VIRTUAL)\<rparr>)"
  have v: "virtual_tag_add E s name type count rd wr = Some (0, s')"
    using ta(1) plainD(1) [OF ta(3)] assms(2) by (simp add: virtual_tag_add_def s'_def)
  have inv: "srv_inv s'"
    using virtual_tag_add_srv [OF v] assms(1,2) by (simp add: starting_def queue_mem_def)
  have st: "starting s1" by (rule starting_added [OF assms(1) ta(2,5,3,4)])
  have nx: "tagnextindex s1 = ?n + 1" using ta(2) by (simp add: added_def)
  have "\<exists>t b. plain s' j t b \<and> 4 \<le> length b" if j: "0 \<le> j \<and> j < tagnextindex s1 \<and> j < 9" for j
  proof -
    from st j obtain u c where c: "plain s1 j u c" "4 \<le> length c" unfolding starting_def by blast
    have "plain s' j u c" unfolding s'_def using c(1) assms(6) j by (intro plain_set_tag) simp_all
    with c(2) show ?thesis by blast
  qed
  moreover have "get_tag s' j = Some tag_zero" if "tagnextindex s1 \<le> j \<and> j < dbsize s1" for j
    using that st nx assms(6) unfolding starting_def s'_def by simp
  ultimately have "starting s'" using inv st unfolding starting_def by (simp add: s'_def)
  moreover have "dbsize s' = dbsize s"
    using startingD(5) [OF st] startingD(5) [OF assms(1)] ta(2) by (simp add: added_def s'_def)
  moreover have "tagnextindex s' = ?n + 1" "idx_lookup (idx_of s') = (idx_lookup (idx_of s))(name \<mapsto> ?n)"
    using nx ta(6) by (simp_all add: s'_def)
  ultimately show ?thesis using that v by blast
qed

lemma sys_types_fresh: "map cdt_fresh sys_types = sys_types"
  by (simp add: sys_types_def cdt_fresh_def)

lemma sys_types_create:
  assumes "alloc_all E" and "9 \<le> n"
  obtains mt e1 s1 e2 s2 where "cdt_create E (server_empty n) mod_cdt_str = Some (mt, e1, s1)" and "mt \<noteq> 0"
    and "cdt_create E (special_set_module_type s1 mt) tag_cdt_str = Some (CDT_TO_TYPE 1, e2, s2)"
    and "starting s2" and "tagnextindex s2 = 0" and "dbsize s2 = int n" and "idx_lookup (idx_of s2) = Map.empty"
proof -
  have e: "cdts (server_empty n) = take 0 (map cdt_fresh sys_types)" by (simp add: server_empty_def)
  obtain mt z1 where c1: "cdt_create E (server_empty n) (cdt_str sys_types (sys_types ! 0)) =
      Some (mt, Some 0, (server_empty n)\<lparr>cdts := take (Suc 0) (map cdt_fresh sys_types), datatype_size := z1\<rparr>)"
    by (rule cdt_create_next [OF sys_types_wf _ e assms(1)]) simp_all
  define s1 where "s1 = (server_empty n)\<lparr>cdts := take (Suc 0) (map cdt_fresh sys_types), datatype_size := z1\<rparr>"
  note c1 = c1 [folded s1_def, unfolded sys_types_str]
  have mt: "mt \<noteq> 0" by (rule cdt_create_new [OF c1]) (simp add: CDT_TO_TYPE_nonzero)
  define s1' where "s1' = special_set_module_type s1 mt"
  have e1: "cdts s1' = take 1 (map cdt_fresh sys_types)" by (simp add: s1'_def special_set_module_type_def s1_def)
  obtain tt z2 where c2: "cdt_create E s1' (cdt_str sys_types (sys_types ! 1)) =
      Some (tt, Some 0, s1'\<lparr>cdts := take (Suc 1) (map cdt_fresh sys_types), datatype_size := z2\<rparr>)"
    by (rule cdt_create_next [OF sys_types_wf _ e1 assms(1)]) simp_all
  define s2 where "s2 = s1'\<lparr>cdts := take (Suc 1) (map cdt_fresh sys_types), datatype_size := z2\<rparr>"
  note c2 = c2 [folded s2_def, unfolded sys_types_str]
  have tt: "tt = CDT_TO_TYPE 1" by (rule cdt_create_new [OF c2]) (simp add: e1)
  have s2: "s2 = (server_empty n)\<lparr>cdts := sys_types, datatype_size := z2, module_tag_type := mt\<rparr>"
    by (simp add: s2_def s1'_def special_set_module_type_def s1_def sys_types_fresh)
  have i1: "srv_inv s1"
    using cdt_create_srv [OF c1 server_empty_inv [OF assms(2)]] by (simp add: server_empty_def MAX_CDTS_def)
  have "srv_inv s1'"
    using srv_inv_view [of s1' s1] i1 by (simp add: s1'_def special_set_module_type_def)
  then have i2: "srv_inv s2" using cdt_create_srv [OF c2] by (simp add: e1 MAX_CDTS_def)
  have f: "tagnextindex s2 = 0" "dbsize s2 = int n" "cdts s2 = sys_types" "db s2 = replicate n tag_zero"
    "name_index s2 = replicate n ([], 0)" "indexcount s2 = 0"
    by (simp_all add: s2 server_empty_def)
  have "starting s2" using i2 by (auto simp: starting_def f get_tag_def arr_get_def)
  moreover have "idx_lookup (idx_of s2) = Map.empty"
    using idx_lookup_map_of [of "idx_of s2"] db_invD(2) [of s2] i2
    by (simp add: srv_inv_def idx_of_def f idx_entries_def fun_eq_iff)
  ultimately show ?thesis using that c1 mt c2 f(1,2) unfolding tt s1'_def by blast
qed

lemma sys_sizes:
  "data_size sys_types DAX_DINT 1 = Some 4" "data_size sys_types DAX_TIME 1 = Some 8"
  "data_size sys_types DAX_CHAR 33 = Some 33"
  by (simp_all add: data_size_def type_size_base base_types_def TYPESIZE_def u32_of_def)

lemma sys_desc_size: "data_size sys_types (CDT_TO_TYPE 1) 1 = Some 47"
  using sys_types_sizes by (simp add: data_size_def u32_of_def CDT_TO_TYPE_def)

lemma sys_checktype:
  "checktype sys_types DAX_DINT = 0" "checktype sys_types DAX_TIME = 0" "checktype sys_types DAX_CHAR = 0"
  "checktype sys_types (CDT_TO_TYPE 1) = 0"
  by (simp_all add: checktype_def drop_queue_def base_types_def CDT_TO_TYPE_def IS_CUSTOM_def CDT_TO_INDEX_def Let_def)

lemma sys_not_queue:
  "\<not> IS_QUEUE DAX_DINT" "\<not> IS_QUEUE DAX_TIME" "\<not> IS_QUEUE DAX_CHAR" "\<not> IS_QUEUE (CDT_TO_TYPE 1)"
  by (simp_all add: IS_QUEUE_def CDT_TO_TYPE_def)

lemma sys_names:
  "list_all (\<lambda>name. validate_name name = 0)
    [''_tagcount'', ''_lastindex'', ''_tag_added'', ''_tag_deleted'', ''_dbsize'', ''_starttime'',
     ''_lastmodule'', ''_overrides_installed'', ''_overrides_set'', ''_time'', ''_my_tagname'']"
  by (simp add: validate_name_def DAX_TAGNAME_SIZE_def isalpha_def isdigit_def name_char_def ccode_def)

lemma system_tags_spec:
  "\<forall>(name, type, count) \<in> set (system_tags (CDT_TO_TYPE 1)). sys_spec name type count"
  "sys_spec ''_time'' DAX_TIME 1" "sys_spec ''_my_tagname'' DAX_CHAR 33"
  using sys_names by (simp_all add: system_tags_def sys_spec_def sys_sizes sys_desc_size sys_checktype sys_not_queue)

lemma starting_upd:
  assumes "starting s" and "upd s s'"
  shows "starting s'"
proof -
  have v: "view s' = view s" and m: "map d_members (cdts s') = map d_members (cdts s)" using assms(2) by (simp_all add: upd_def)
  have "srv_inv s'" using assms(1) srv_inv_cong [OF v] by (simp add: starting_def)
  moreover have "\<exists>t b. plain s' j t b \<and> 4 \<le> length b" if "0 \<le> j \<and> j < tagnextindex s \<and> j < 9" for j
    using that assms unfolding starting_def upd_def by metis
  moreover have "get_tag s' j = Some tag_zero" if "tagnextindex s \<le> j \<and> j < dbsize s" for j
    using that assms unfolding starting_def upd_def by simp
  moreover have "tagnextindex s' = tagnextindex s" by (rule upd_next [OF assms(2)])
  moreover have "dbsize s' = dbsize s" using v by (simp add: view_def idx_of_def)
  ultimately show ?thesis using m assms(1) unfolding starting_def by simp
qed

lemma starting_sys_write:
  assumes "starting s" and "0 \<le> i" and "i < 9" and "length data < 2 ^ 30"
  obtains s' where "sys_write E s i data = Some s'" and "upd s s'"
  by (rule sys_write_total [of s i data E]) (use assms startingD(4) [OF assms(1)] in simp_all)

lemma set_dbsize_total:
  assumes "starting s" and "4 < tagnextindex s"
  obtains s' where "set_dbsize E s x = Some s'" and "upd s s'"
proof -
  from starting_plain [OF assms(1), of 4] assms(2) obtain t b where p: "plain s 4 t b" "4 \<le> length b" by auto
  obtain b' evs y z where w: "mem_put b 0 (take (nat 4) (enc_int x)) = Some b'" "tag_write E s (- 1) 4 0 (enc_int x) 4 =
      Some (0, (set_tag s 4 (t\<lparr>t_data := D_block b', t_events := evs\<rparr>))\<lparr>sent := sent s @ y, retained := retained s @ z\<rparr>)"
      "\<forall>ev\<in>set evs. ev_ok (mod_heap s) (length b) ev"
    by (rule tag_write_block [OF p(1), where offset = 0 and sz = 4 and data = "enc_int x" and E = E and fd = "- 1"])
      (use p(2) in simp_all)
  then have d: "set_dbsize E s x =
      Some ((set_tag s 4 (t\<lparr>t_data := D_block b', t_events := evs\<rparr>))\<lparr>sent := sent s @ y, retained := retained s @ z\<rparr>)"
    by (simp add: set_dbsize_def)
  show ?thesis by (rule that [OF d upd_write [OF p(1) mem_put_length [OF w(1)] w(3)]]) simp
qed

theorem initialize_tagbase_total:
  assumes "alloc_all E" and "11 \<le> n"
  obtains s where "initialize_tagbase E n = Some s" and "starting s" and "tagnextindex s = 11" and "dbsize s = int n"
    and "idx_lookup (idx_of s) = index_names Map.empty 0
      (map fst (system_tags (CDT_TO_TYPE 1)) @ [''_time'', ''_my_tagname''])"
proof -
  have n9: "9 \<le> n" using assms(2) by simp
  obtain mt e1 s1 e2 s2 where c: "cdt_create E (server_empty n) mod_cdt_str = Some (mt, e1, s1)" "mt \<noteq> 0"
    "cdt_create E (special_set_module_type s1 mt) tag_cdt_str = Some (CDT_TO_TYPE 1, e2, s2)"
    and s2: "starting s2" "tagnextindex s2 = 0" "dbsize s2 = int n" "idx_lookup (idx_of s2) = Map.empty"
    by (rule sys_types_create [OF assms(1) n9])
  have len: "length (system_tags (CDT_TO_TYPE 1)) = 9" and dis: "distinct (map fst (system_tags (CDT_TO_TYPE 1)))"
    by (simp_all add: system_tags_def)
  obtain s3 where s3: "add_system_tags E s2 0 (system_tags (CDT_TO_TYPE 1)) = Some s3" "starting s3"
    "tagnextindex s3 = 9" "dbsize s3 = int n"
    "idx_lookup (idx_of s3) = index_names Map.empty 0 (map fst (system_tags (CDT_TO_TYPE 1)))"
    using add_system_tags_total [OF s2(1) assms(1) _ system_tags_spec(1) dis] assms(2) by (auto simp: s2 len)
  have look3: "idx_lookup (idx_of s3) ''_time'' = None" "idx_lookup (idx_of s3) ''_my_tagname'' = None"
    by (simp_all add: s3(5) system_tags_def)
  obtain s4 where s4: "virtual_tag_add E s3 ''_time'' DAX_TIME 1 VF_server_time VF_null = Some (0, s4)" "starting s4"
    "tagnextindex s4 = tagnextindex s3 + 1" "dbsize s4 = dbsize s3"
    "idx_lookup (idx_of s4) = (idx_lookup (idx_of s3))(''_time'' \<mapsto> tagnextindex s3)"
    by (rule virtual_tag_add_total [OF s3(2) assms(1) _ system_tags_spec(2) look3(1)]) (use s3(3,4) assms(2) in simp_all)
  have look4: "idx_lookup (idx_of s4) ''_my_tagname'' = None" by (simp add: s4(5) look3(2))
  obtain s5 where s5: "virtual_tag_add E s4 ''_my_tagname'' DAX_CHAR 33 VF_get_module_tag_name VF_null = Some (0, s5)"
    "starting s5" "tagnextindex s5 = tagnextindex s4 + 1" "dbsize s5 = dbsize s4"
    "idx_lookup (idx_of s5) = (idx_lookup (idx_of s4))(''_my_tagname'' \<mapsto> tagnextindex s4)"
    by (rule virtual_tag_add_total [OF s4(2) assms(1) _ system_tags_spec(3) look4]) (use s3(3,4) s4(3,4) assms(2) in simp_all)
  obtain s6 where s6: "sys_write E s5 INDEX_STARTED (enc64 (clock E)) = Some s6" "upd s5 s6"
    by (rule starting_sys_write [OF s5(2), of 5 "enc64 (clock E)" E]) simp_all
  have n6: "tagnextindex s6 = 11" using upd_next [OF s6(2)] s5(3) s4(3) s3(3) by simp
  obtain s7 where s7: "set_dbsize E s6 (dbsize s6) = Some s7" "upd s6 s7"
    by (rule set_dbsize_total [OF starting_upd [OF s5(2) s6(2)]]) (simp add: n6)
  have init: "initialize_tagbase E n = Some s7"
    using c s3(1) s4(1) s5(1) s6(1) s7(1) alloc_allD [OF assms(1)] by (simp add: initialize_tagbase_def CDT_TO_TYPE_nonzero)
  have u: "upd s5 s7" by (rule upd_trans [OF s6(2) s7(2)])
  then have v: "view s7 = view s5" by (simp add: upd_def)
  have "starting s7" by (rule starting_upd [OF s5(2) u])
  moreover have "idx_of s7 = idx_of s5" "tagnextindex s7 = tagnextindex s5" using v view_simps by metis+
  moreover from this have "dbsize s7 = dbsize s5" by (simp add: idx_of_def)
  ultimately show ?thesis
    using that init s5(3-5) s4(3-5) s3(3-5) by (simp add: system_tags_def)
qed

end
