(* ===== verification/Server_Properties.thy ===== *)
theory Server_Properties
  imports Startup Core_Properties
begin

text \<open>
  Properties of the running server: the invariant of the database in every reachable state, start-up,
  adding, deleting, reading and writing tags, and the receive loop.
\<close>

section \<open>A small server for concrete instances\<close>

definition demo_tag :: tag_db where
  "demo_tag = tag_zero\<lparr>t_type := DAX_DINT, t_count := 2, t_name := Some ''level'', t_data := D_block [1, 2, 3, 4, 5, 6, 7, 8]\<rparr>"

definition demo :: server where
  "demo = (server_empty 12)\<lparr>db := demo_tag # replicate 11 tag_zero, name_index := (''level'', 0) # replicate 11 ([], 0),
     indexcount := 1, tagnextindex := 1, tagcount := 1\<rparr>"

lemma demo_fields [simp]:
  "cdts demo = []" "tagnextindex demo = 1" "tagcount demo = 1" "indexcount demo = 1" "dbsize demo = 12"
  "db demo = demo_tag # replicate 11 tag_zero" "name_index demo = (''level'', 0) # replicate 11 ([], 0)"
  "mod_heap demo = (\<lambda>_. None)" "modules demo = []" "module_count demo = 0"
  by (simp_all add: demo_def server_empty_def)

lemma demo_tag_fields [simp]:
  "t_type demo_tag = DAX_DINT" "t_count demo_tag = 2" "t_name demo_tag = Some ''level''"
  "t_data demo_tag = D_block [1, 2, 3, 4, 5, 6, 7, 8]" "t_attr demo_tag = 0" "t_events demo_tag = []"
  by (simp_all add: demo_tag_def tag_zero_def)

lemma demo_get [simp]: "get_tag demo 0 = Some demo_tag"
  by (simp add: get_tag_def arr_get_def)

lemma demo_lookup: "idx_lookup (idx_of demo) nm = (if nm = ''level'' then Some 0 else None)"
proof -
  have "idx_inv (idx_of demo)" by (simp add: idx_inv_def idx_of_def idx_entries_def)
  from idx_lookup_map_of [OF this] show ?thesis by (simp add: idx_of_def idx_entries_def)
qed

lemma demo_inv: "db_inv demo"
proof -
  have v: "v_tags (view demo) = core demo_tag # replicate 11 (core tag_zero)" by (simp add: view_def)
  have "live (view demo) = {0}" by (auto simp: live_def v)
  moreover have "index_ok (view demo)" by (auto simp: index_ok_def demo_lookup v)
  moreover have "core_ok [] (core demo_tag)"
    by (auto simp: core_ok_def checktype_base data_size_def type_size_base base_types_def TYPESIZE_def u32_of_def
        data_shape_def)
  moreover have "idx_inv (idx_of demo)" by (simp add: idx_inv_def idx_of_def idx_entries_def)
  moreover have "wf_cdts []" by (simp add: wf_cdts_def)
  ultimately show ?thesis by (simp add: db_inv_def inv_view_def v idx_of_def)
qed

lemma demo_srv: "srv_inv demo"
  using demo_inv by (simp add: srv_inv_def wf_modules_def)

lemma demo_plain: "plain demo 0 demo_tag [1, 2, 3, 4, 5, 6, 7, 8]"
  using block_tagI [OF demo_inv demo_get] by (simp add: plain_def attr_set_def)

section \<open>Reachable states\<close>

lemma reachable_init:
  assumes "alloc_all E" and "11 \<le> n"
  obtains s c where "initialize_tagbase E n = Some s" and "reachable s c"
proof -
  obtain s where s: "initialize_tagbase E n = Some s" by (rule initialize_tagbase_total [OF assms])
  have "reachable s \<lparr>c_nodes = buff_initialize E 1, c_fds = [], c_maxfd = 0, c_min = 1\<rparr>"
    using reachable.start [OF s] assms by (simp add: queue_mem_def)
  with that s show ?thesis by blast
qed

text \<open>C1: In every state that the server can reach by start-up and any sequence of connections, messages
  and disconnections (with any behaviour of sockets and of the allocator, except for the head of a queue), the database
  is consistent: the name index is sorted and holds exactly the names of the live tags, the tag
  count is their number, every tag with a block of data has a valid type and a block of exactly
  the size of its type and count, the type table is well-formed and the module list consistent.\<close>

theorem reachable_inv:
  assumes "reachable s c"
  shows "srv_inv s"
  using assms by (rule reachable_srv)

theorem reachable_inv_witness:
  "\<exists>s c. initialize_tagbase env0 1000 = Some s \<and> reachable s c \<and> srv_inv s"
proof -
  obtain s c where "initialize_tagbase env0 1000 = Some s" "reachable s c"
    by (rule reachable_init [of env0 1000]) simp_all
  with reachable_inv show ?thesis by blast
qed

text \<open>C12: In every reachable state the two ways to look up a tag agree: the description found under
  a name is the one found under its index, and every tag that is found under its index is found
  under its name.\<close>

theorem reachable_lookup:
  assumes "reachable s c"
  shows "tag_get_name s name = Some (Inr d) \<longleftrightarrow> dt_name d = name \<and> tag_get_index s (dt_idx d) = Some (Inr d)"
proof -
  have inv: "db_inv s" using reachable_srv [OF assms] by (simp add: srv_inv_def)
  have look: "get_by_name s name = Some (case idx_lookup (idx_of s) name of Some v \<Rightarrow> v | None \<Rightarrow> ERR_NOTFOUND)"
    by (rule get_by_name_lookup [OF db_invD(2) [OF inv]])
  show ?thesis
  proof
    assume d: "tag_get_name s name = Some (Inr d)"
    then obtain i where i: "idx_lookup (idx_of s) name = Some i"
      by (cases "idx_lookup (idx_of s) name") (auto simp: tag_get_name_def look)
    from db_inv_lookup [OF inv i] obtain t where
      t: "get_tag s i = Some t" "t_name t = Some name" "0 \<le> i" "i < tagnextindex s" by blast
    with d i show "dt_name d = name \<and> tag_get_index s (dt_idx d) = Some (Inr d)"
      by (auto simp: tag_get_name_def look tag_get_index_def fill_tag_def split: if_splits)
  next
    assume "dt_name d = name \<and> tag_get_index s (dt_idx d) = Some (Inr d)"
    then obtain t where t: "get_tag s (dt_idx d) = Some t" "0 \<le> dt_idx d" "dt_idx d < tagnextindex s"
      "t_data t \<noteq> D_null" "fill_tag (dt_idx d) t = Some d" "dt_name d = name"
      by (auto simp: tag_get_index_def split: if_splits)
    then have nm: "t_name t = Some name" by (cases d) (auto simp: fill_tag_def)
    from t db_inv_lookup_name [OF inv t(1,3) nm] show "tag_get_name s name = Some (Inr d)"
      by (simp add: tag_get_name_def look)
  qed
qed

theorem reachable_lookup_witness:
  "\<exists>s c. initialize_tagbase env0 1000 = Some s \<and> reachable s c \<and>
    (\<forall>d. dt_name d = ''pump'' \<longrightarrow> tag_get_index s (dt_idx d) \<noteq> Some (Inr d))"
proof -
  obtain s c where s: "initialize_tagbase env0 1000 = Some s" "reachable s c"
    by (rule reachable_init [of env0 1000]) simp_all
  obtain s' where s': "initialize_tagbase env0 1000 = Some s'" "starting s'" "idx_lookup (idx_of s') = index_names Map.empty 0
      (map fst (system_tags (CDT_TO_TYPE 1)) @ [''_time'', ''_my_tagname''])"
    by (rule initialize_tagbase_total [of env0 1000]) simp_all
  have "s' = s" using s(1) s'(1) by simp
  with s' have "db_inv s" "idx_lookup (idx_of s) ''pump'' = None" by (simp_all add: startingD system_tags_def)
  then have "tag_get_name s ''pump'' = Some (Inl ERR_NOTFOUND)"
    using get_by_name_lookup [OF db_invD(2)] by (simp add: tag_get_name_def)
  then have "\<forall>d. dt_name d = ''pump'' \<longrightarrow> tag_get_index s (dt_idx d) \<noteq> Some (Inr d)"
    using reachable_lookup [OF s(2), of "''pump''"] by auto
  with s show ?thesis by blast
qed

section \<open>Start-up\<close>

text \<open>C2: When memory is available and the tag array has room for the eleven tags of the server itself,
  start-up always succeeds (no assertion fails and no behaviour is undefined), the result satisfies the
  invariant, and exactly the eleven system tags exist, each under the fixed index that the rest of
  the server uses for it.\<close>

theorem startup_succeeds:
  assumes "alloc_all E" and "11 \<le> n"
  shows "\<exists>s. initialize_tagbase E n = Some s \<and> srv_inv s \<and> tagnextindex s = 11 \<and>
    (\<forall>name. get_by_name s name = Some
      (case map_of [(''_tagcount'', INDEX_TAGCOUNT), (''_lastindex'', INDEX_LASTINDEX),
         (''_tag_added'', INDEX_ADDED_TAG), (''_tag_deleted'', INDEX_DELETED_TAG), (''_dbsize'', INDEX_DBSIZE),
         (''_starttime'', INDEX_STARTED), (''_lastmodule'', INDEX_LASTMODULE),
         (''_overrides_installed'', INDEX_OVRD_INSTALLED), (''_overrides_set'', INDEX_OVRD_SET),
         (''_time'', 9), (''_my_tagname'', 10)] name of
         Some i \<Rightarrow> i | None \<Rightarrow> ERR_NOTFOUND))"
proof -
  obtain s where s: "initialize_tagbase E n = Some s" "starting s" "tagnextindex s = 11"
    "idx_lookup (idx_of s) = index_names Map.empty 0
      (map fst (system_tags (CDT_TO_TYPE 1)) @ [''_time'', ''_my_tagname''])"
    by (rule initialize_tagbase_total [OF assms])
  note look = get_by_name_lookup [OF db_invD(2) [OF startingD(1) [OF s(2)]]]
  have "srv_inv s" using s(2) by (simp add: starting_def)
  then show ?thesis
    by (intro exI [of _ s] conjI allI s(1,3)) (simp_all add: look s(4) system_tags_def)
qed

theorem startup_succeeds_witness:
  "\<exists>s. initialize_tagbase env0 64 = Some s \<and> get_by_name s ''_dbsize'' = Some 4"
  using startup_succeeds [of env0 64] by fastforce

section \<open>Adding and deleting tags\<close>

text \<open>C9: Adding a tag with a valid new name and a valid type that is not a queue, when memory is
  available and the array has room, always succeeds. The tag gets the next index, is found
  under its name, and reading it back delivers zeros. (The tags in which the server publishes its
  counters have to be plain tags, which they are after start-up as long as nobody installs a comparison event on them.)\<close>

theorem tag_add_succeeds:
  assumes "db_inv s" and "alloc_all E" and "9 \<le> tagnextindex s" and "tagnextindex s < dbsize s" and "count \<noteq> 0"
    and "validate_name name = 0" and "get_by_name s name = Some ERR_NOTFOUND" and "checktype (cdts s) type = 0"
    and "\<not> IS_QUEUE type" and "data_size (cdts s) type count = Some sz" and "unat sz < 2 ^ 31"
    and "get_tag s (tagnextindex s) = Some tag_zero" and "\<forall>i \<in> {0, 1, 2}. \<exists>t b. plain s i t b"
  shows "\<exists>s'. tag_add E s fd name type count attr = Some (tagnextindex s, s') \<and> db_inv s' \<and>
    get_by_name s' name = Some (tagnextindex s) \<and>
    tag_read E s' fd' (tagnextindex s) 0 (replicate (unat sz) x) (int (unat sz)) = Some (0, replicate (unat sz) 0, s')"
proof -
  let ?n = "tagnextindex s"
  have qm: "queue_mem E" using assms(2) by (simp add: queue_mem_def)
  have look: "idx_lookup (idx_of s) name = None"
    using assms(7) db_invD(8) [OF assms(1)] by (cases "idx_lookup (idx_of s) name")
      (auto simp: get_by_name_lookup [OF db_invD(2) [OF assms(1)]] index_ok_def)
  have st: "\<forall>i \<in> {0, 1, 2}. status_ok s i" using assms(13) by (auto simp: status_ok_def)
  obtain s' t b where ta: "tag_add E s fd name type count attr = Some (?n, s')" "added s s'" "plain s' ?n t b"
    "9 \<le> ?n \<longrightarrow> t = (new_entry tag_zero fd name type count (unat sz))\<lparr>t_attr := attr_after (t_attr tag_zero) (ucast attr)\<rparr>"
    by (rule tag_add_total [OF assms(1,2) refl assms(4-6) look assms(8,10,11,9,12) _ _ st, where fd = fd and attr = attr])
      (simp_all add: tag_zero_def attr_set_def)
  then have t: "t = (new_entry tag_zero fd name type count (unat sz))\<lparr>t_attr := attr_after 0 (ucast attr)\<rparr>"
    using assms(3) by (simp add: tag_zero_def)
  have b: "b = replicate (unat sz) 0" using plainD(4) [OF ta(3)] by (simp add: t new_entry_def)
  have inv: "db_inv s'" by (rule tag_add_inv [OF ta(1) assms(1) qm])
  have "get_by_name s' name = Some ?n"
    using tag_add_found [OF ta(1) assms(1) qm] db_invD(5) [OF assms(1)] get_by_name_lookup [OF db_invD(2) [OF inv]] by simp
  moreover have "tag_read E s' fd' ?n 0 (replicate (unat sz) x) (int (unat sz)) = Some (0, replicate (unat sz) 0, s')"
  proof -
    have "int (unat sz) < int (2 ^ 31)" using assms(11) by (simp only: of_nat_less_iff)
    moreover have "\<not> attr_set (t_attr t) TAG_ATTR_OVR_SET" by (simp add: t attr_after_other) (simp add: attr_set_def)
    ultimately show ?thesis
      using tag_read_block [OF plainD(9) [OF ta(3) [unfolded b]], of 0 "int (unat sz)" "replicate (unat sz) x" undefined undefined E fd']
      by simp
  qed
  ultimately show ?thesis using ta(1) inv by blast
qed

lemma pump_name: "validate_name ''pump'' = 0"
  by (simp add: validate_name_def DAX_TAGNAME_SIZE_def isalpha_def isdigit_def name_char_def ccode_def)

lemma int_size: "checktype dts DAX_INT = 0" "data_size dts DAX_INT 3 = Some 6" "\<not> IS_QUEUE DAX_INT"
  by (simp_all add: checktype_base data_size_def type_size_base base_types_def TYPESIZE_def u32_of_def IS_QUEUE_def)

text \<open>A server that has just started, and the same with one more tag.\<close>

lemma started:
  obtains s s' where "initialize_tagbase env0 1000 = Some s" and "starting s" and "tagnextindex s = 11" and "dbsize s = 1000"
    and "get_by_name s ''pump'' = Some ERR_NOTFOUND" and "get_by_name s ''_dbsize'' = Some 4"
    and "tag_add env0 s (- 1) ''pump'' DAX_INT 3 0 = Some (11, s')"
proof -
  obtain s where s: "initialize_tagbase env0 1000 = Some s" "starting s" "tagnextindex s = 11" "dbsize s = int 1000"
    "idx_lookup (idx_of s) = index_names Map.empty 0
      (map fst (system_tags (CDT_TO_TYPE 1)) @ [''_time'', ''_my_tagname''])"
    by (rule initialize_tagbase_total [of env0 1000]) simp_all
  note look = get_by_name_lookup [OF db_invD(2) [OF startingD(1) [OF s(2)]]]
  have pump: "idx_lookup (idx_of s) ''pump'' = None" by (simp add: s(5) system_tags_def)
  have db: "get_by_name s ''_dbsize'' = Some 4" by (simp add: look s(5) system_tags_def)
  have z: "get_tag s 11 = Some tag_zero" using starting_zero [OF s(2), of 11] s(3,4) by simp
  obtain s' where "tag_add env0 s (- 1) ''pump'' DAX_INT 3 0 = Some (11, s')"
    by (rule tag_add_total [OF startingD(1) [OF s(2)] alloc_all_env0, where n = 11 and count = 3 and name = "''pump''"
          and type = DAX_INT and sz = 6 and t = tag_zero and fd = "- 1" and attr = 0])
      (use s(3,4) startingD(4) [OF s(2)] pump z in \<open>simp_all add: pump_name int_size tag_zero_def attr_set_def\<close>)
  with s db pump that show ?thesis by (simp add: look)
qed

theorem tag_add_succeeds_witness:
  "\<exists>s s'. initialize_tagbase env0 1000 = Some s \<and> tag_add env0 s (- 1) ''pump'' DAX_INT 3 0 = Some (11, s') \<and>
    get_by_name s' ''pump'' = Some 11 \<and> tag_read env0 s' 7 11 0 (replicate 6 255) 6 = Some (0, replicate 6 0, s')"
proof -
  obtain s where s: "initialize_tagbase env0 1000 = Some s" "starting s" "tagnextindex s = 11" "dbsize s = 1000"
    "get_by_name s ''pump'' = Some ERR_NOTFOUND" by (rule started)
  have z: "get_tag s 11 = Some tag_zero" using starting_zero [OF s(2), of 11] s(3,4) by simp
  have "\<exists>t b. plain s i t b" if "0 \<le> i" "i < 9" for i using starting_plain [OF s(2), of i] s(3) that by auto
  then have "\<forall>i \<in> {0, 1, 2}. \<exists>t b. plain s i t b" by simp
  from tag_add_succeeds [OF startingD(1) [OF s(2)] alloc_all_env0 _ _ _ pump_name s(5) int_size(1,3,2) _ _ this,
      of "- 1" 0 7 255] s z
  show ?thesis by auto
qed

text \<open>C10: Whatever \<^verbatim>\<open>tag_add\<close> does, if it returns an index then the name is found with that index and
  every other name is found as before. If it returns an error no name is affected.\<close>

theorem tag_add_names:
  assumes "tag_add E s fd name type count attr = Some (r, s')" and "db_inv s" and "queue_mem E"
  shows "(\<forall>other. other \<noteq> name \<longrightarrow> get_by_name s' other = get_by_name s other) \<and>
    get_by_name s' name = (if 0 \<le> r then Some r else get_by_name s name)"
proof -
  have inv: "db_inv s'" by (rule tag_add_inv [OF assms])
  note look = get_by_name_lookup [OF db_invD(2) [OF inv]] get_by_name_lookup [OF db_invD(2) [OF assms(2)]]
  show ?thesis
  proof (cases "0 \<le> r")
    case True
    with tag_add_found [OF assms True] show ?thesis by (simp add: look)
  next
    case False
    have "idx_lookup (idx_of s') = idx_lookup (idx_of s)" by (rule tag_add_failed [OF assms]) (use False in simp)
    with False show ?thesis by (simp add: look)
  qed
qed

theorem tag_add_names_witness:
  "\<exists>s s'. tag_add env0 s (- 1) ''pump'' DAX_INT 3 0 = Some (11, s') \<and> get_by_name s' ''pump'' = Some 11 \<and>
    get_by_name s' ''_dbsize'' = Some 4"
proof -
  obtain s s' where s: "starting s" "get_by_name s ''_dbsize'' = Some 4"
    "tag_add env0 s (- 1) ''pump'' DAX_INT 3 0 = Some (11, s')" by (rule started)
  have "queue_mem env0" by (simp add: queue_mem_def)
  from tag_add_names [OF s(3) startingD(1) [OF s(1)] this] s show ?thesis
    by (intro exI [of _ s] exI [of _ s'] conjI) simp_all
qed

text \<open>C11: Deleting a tag takes its name out of the index and leaves every other name; after it the
  index of the tag is reported as deleted. A failed deletion changes nothing.\<close>

theorem tag_del_names:
  assumes "tag_del E s idx = Some (r, s')" and "db_inv s"
  shows "if r = 0 then
      \<exists>name. get_by_name s name = Some idx \<and> get_by_name s' name = Some ERR_NOTFOUND \<and>
        tag_get_index s' idx = Some (Inl ERR_DELETED) \<and>
        (\<forall>other. other \<noteq> name \<longrightarrow> get_by_name s' other = get_by_name s other)
    else r < 0 \<and> s' = s"
proof -
  note del = tag_del_view [OF assms]
  have inv: "db_inv s'" using del by blast
  note look = get_by_name_lookup [OF db_invD(2) [OF inv]] get_by_name_lookup [OF db_invD(2) [OF assms(2)]]
  show ?thesis
  proof (cases "r = 0")
    case True
    with del obtain name ix c where
      d: "0 \<le> idx" "idx < tagnextindex s" "idx_lookup (idx_of s) name = Some idx"
        "idx_lookup ix = (idx_lookup (idx_of s))(name := None)" "c_name c = None" "c_shape c = Sh_null"
        "view s' = (view s)\<lparr>v_tags := (v_tags (view s))[nat idx := c], v_index := ix, v_count := tagcount s - 1\<rparr>" by auto
    have v: "idx_of s' = ix" "tagnextindex s' = tagnextindex s"
      using view_simps(1,3) [of s'] d(7) by simp_all
    from db_inv_get_tag [OF inv d(1)] d(2) v(2) obtain t where t: "get_tag s' idx = Some t" by auto
    have "idx < int (length (db s))" using d(2) db_invD(3,6) [OF assms(2)] by simp
    then have "core t = c" using view_tags [OF t] d(1) by (simp add: d(7) nat_less_iff)
    then have "t_data t = D_null" using d(6) by (cases "t_data t") auto
    with t v d show ?thesis using True by (auto simp: look tag_get_index_def)
  next
    case False
    with del show ?thesis by auto
  qed
qed

theorem tag_del_names_witness:
  "\<exists>s'. tag_del env0 demo 0 = Some (0, s') \<and> tag_get_index s' 0 = Some (Inl ERR_DELETED) \<and>
    get_by_name s' ''level'' = Some ERR_NOTFOUND"
proof -
  define s1 where "s1 = set_tag demo 0 (demo_tag\<lparr>t_events := [], t_mappings := []\<rparr>)"
  have i: "idx_of s1 = idx_of demo" by (simp add: s1_def)
  obtain ix :: name_idx where ix: "del_index s1 ''level'' = Some (s1\<lparr>name_index := ix_arr ix, indexcount := ix_count ix\<rparr>)"
    by (rule del_index_spec [of s1 "''level''", OF db_invD(2) [OF demo_inv, folded i]]) (simp add: i demo_lookup, rule that)
  have "tag_detach env0 demo 0 =
      Some (demo_tag\<lparr>t_events := [], t_mappings := []\<rparr>, ''level'', s1\<lparr>name_index := ix_arr ix, indexcount := ix_count ix\<rparr>)"
    using ix by (simp add: tag_detach_def event_del_check_def IS_CUSTOM_def attr_set_def s1_def Let_def)
  then obtain s' where s': "tag_del env0 demo 0 = Some (0, s')"
    by (auto simp: tag_del_def sys_write_def tag_write_def status_write_def s1_def get_tag_def arr_get_def set_tag_def Let_def)
  from tag_del_names [OF s' demo_inv] obtain name where n: "get_by_name demo name = Some 0"
    "get_by_name s' name = Some ERR_NOTFOUND" "tag_get_index s' 0 = Some (Inl ERR_DELETED)" by auto
  from n(1) have "name = ''level''"
    by (auto simp: get_by_name_lookup [OF db_invD(2) [OF demo_inv]] demo_lookup split: if_splits)
  with s' n show ?thesis by blast
qed

section \<open>Reading and writing\<close>

text \<open>C3: Writing data to a part of a tag and reading the same part returns the data; every part that the
  written bytes do not meet reads as before, and no other tag changes.\<close>

theorem write_read_roundtrip:
  assumes "plain s idx t b" and "\<not> attr_set (t_attr t) TAG_ATTR_OVR_SET" and "0 \<le> offset" and "0 \<le> sz"
    and "offset + sz \<le> int (length b)" and "sz \<le> int (length data)" and "length buf = nat sz"
  shows "\<exists>s'. tag_write E s fd idx offset data sz = Some (0, s') \<and>
    tag_read E s' fd' idx offset buf sz = Some (0, take (nat sz) data, s') \<and>
    (\<forall>o2 n2 buf2. 0 \<le> o2 \<and> 0 \<le> n2 \<and> o2 + n2 \<le> int (length b) \<and> n2 \<le> int (length buf2) \<and>
      (o2 + n2 \<le> offset \<or> offset + sz \<le> o2) \<longrightarrow>
      map_option (\<lambda>(r, bs, _). (r, bs)) (tag_read E s' fd' idx o2 buf2 n2) =
      map_option (\<lambda>(r, bs, _). (r, bs)) (tag_read E s fd' idx o2 buf2 n2)) \<and>
    (\<forall>j. j \<noteq> idx \<longrightarrow> get_tag s' j = get_tag s j)"
proof -
  note p = plainD [OF assms(1)]
  have "int (length b) < 2 ^ 31" using p(5) by simp
  then have lt: "offset + sz < 2 ^ 31" using assms(5) by linarith
  obtain b' evs x y where b': "mem_put b offset (take (nat sz) data) = Some b'"
    and w: "tag_write E s fd idx offset data sz =
      Some (0, (set_tag s idx (t\<lparr>t_data := D_block b', t_events := evs\<rparr>))\<lparr>sent := sent s @ x, retained := retained s @ y\<rparr>)"
    by (rule tag_write_block [OF assms(1,3,4) lt assms(6,5)])
  define s' where "s' = (set_tag s idx (t\<lparr>t_data := D_block b', t_events := evs\<rparr>))\<lparr>sent := sent s @ x, retained := retained s @ y\<rparr>"
  define t' where "t' = t\<lparr>t_data := D_block b', t_events := evs\<rparr>"
  have len: "length b' = length b" by (rule mem_put_length [OF b'])
  have bt: "block_tag s' idx t' b'"
    using p(9) len get_tag_Some_range [OF p(1)] by (simp add: block_tag_def s'_def t'_def)
  have no: "\<not> attr_set (t_attr t') TAG_ATTR_OVR_SET" using assms(2) by (simp add: t'_def)
  have rd: "tag_read E u fd' idx o2 bf n2 = Some (0, take (nat n2) (drop (nat o2) c) @ drop (nat n2) bf, u)"
    if "block_tag u idx v c" "\<not> attr_set (t_attr v) TAG_ATTR_OVR_SET" "0 \<le> o2" "0 \<le> n2" "o2 + n2 \<le> int (length c)"
      "n2 \<le> int (length bf)" for u v c o2 n2 bf
  proof -
    have "int (length c) < 2 ^ 31" using block_tagD(5) [OF that(1)] by simp
    then have "o2 + n2 < 2 ^ 31" using that(5) by linarith
    with tag_read_block [OF that(1,3,4) _ that(6), of undefined undefined E fd'] that show ?thesis by simp
  qed
  have "take (nat sz) (drop (nat offset) b') = take (nat sz) data"
    using mem_get_put_same [OF b', of sz] assms(4,6) by (simp add: mem_get_Some_iff)
  then have "tag_read E s' fd' idx offset buf sz = Some (0, take (nat sz) data, s')"
    using rd [OF bt no assms(3,4)] assms(5,7) len by simp
  moreover have "map_option (\<lambda>(r, bs, _). (r, bs)) (tag_read E s' fd' idx o2 buf2 n2) =
      map_option (\<lambda>(r, bs, _). (r, bs)) (tag_read E s fd' idx o2 buf2 n2)"
    if o: "0 \<le> o2 \<and> 0 \<le> n2 \<and> o2 + n2 \<le> int (length b) \<and> n2 \<le> int (length buf2) \<and> (o2 + n2 \<le> offset \<or> offset + sz \<le> o2)"
    for o2 n2 buf2
  proof -
    have "offset + int (length (take (nat sz) data)) \<le> o2 \<or> o2 + n2 \<le> offset" using o assms(4,6) by auto
    then have "mem_get b' o2 n2 = mem_get b o2 n2" using mem_get_put_other [OF b', of o2 n2] by blast
    then have "take (nat n2) (drop (nat o2) b') = take (nat n2) (drop (nat o2) b)" using o len by (simp add: mem_get_def)
    then show ?thesis using rd [OF bt no, of o2 n2 buf2] rd [OF p(9) assms(2), of o2 n2 buf2] o len by simp
  qed
  moreover have "get_tag s' j = get_tag s j" if "j \<noteq> idx" for j using that p(2) by (simp add: s'_def)
  ultimately show ?thesis using w unfolding s'_def [symmetric] by blast
qed

theorem write_read_roundtrip_witness:
  "\<exists>s'. tag_write env0 demo 5 0 2 [50, 60, 70] 3 = Some (0, s') \<and>
    tag_read env0 s' 6 0 2 [0, 0, 0] 3 = Some (0, [50, 60, 70], s')"
  using write_read_roundtrip [OF demo_plain, of 2 3 "[50, 60, 70]" "[0, 0, 0]" env0 5 6]
  by (auto simp: attr_set_def)

text \<open>C8: A write to a tag with a block of its own and safe events never leaves defined behaviour,
  whatever the offset and size (as long as they are not negative and their sum does not overflow): it either writes, or reports that the request is too
  big and changes nothing. After it, the tags that were safe to write are still safe, so that this holds for any sequence of writes.\<close>

theorem tag_write_safe:
  assumes "plain s idx t b" and "0 \<le> offset" and "0 \<le> sz" and "offset + sz < 2 ^ 31" and "sz \<le> int (length data)"
  shows "\<exists>s'. tag_write E s fd idx offset data sz =
      Some (if offset + sz \<le> int (length b) then 0 else ERR_2BIG, s') \<and>
    (int (length b) < offset + sz \<longrightarrow> s' = s) \<and>
    (\<forall>j u c. plain s j u c \<longrightarrow> (\<exists>u' c'. plain s' j u' c' \<and> length c' = length c))"
proof (cases "offset + sz \<le> int (length b)")
  case True
  obtain b' evs x y where b': "mem_put b offset (take (nat sz) data) = Some b'"
    and w: "tag_write E s fd idx offset data sz =
      Some (0, (set_tag s idx (t\<lparr>t_data := D_block b', t_events := evs\<rparr>))\<lparr>sent := sent s @ x, retained := retained s @ y\<rparr>)"
    and ok: "\<forall>ev\<in>set evs. ev_ok (mod_heap s) (length b) ev"
    by (rule tag_write_block [OF assms(1-5) True])
  show ?thesis
    using True w write_plain [OF assms(1) mem_put_length [OF b'] ok] by (intro exI conjI) auto
next
  case False
  then have big: "int (length b) < offset + sz" by simp
  from tag_write_too_big [OF assms(1-4) big] False show ?thesis by auto
qed

theorem tag_write_safe_witness:
  "tag_write env0 demo 5 0 6 [9, 9, 9] 3 = Some (ERR_2BIG, demo)"
  using tag_write_safe [OF demo_plain, of 6 3 "[9, 9, 9]" env0 5] by auto

text \<open>C13: A masked write changes exactly the bits that the mask selects within the range, to the bits
  of the data, and leaves every other bit of the tag as it was.\<close>

theorem mask_write_bits:
  assumes "plain s idx t b" and "0 < sz" and "off + sz \<le> length b" and "sz \<le> length data" and "sz \<le> length msk"
  shows "\<exists>s' t' b'. tag_mask_write E s fd idx (int off) data msk (int sz) = Some (0, s') \<and>
    get_tag s' idx = Some t' \<and> t_data t' = D_block b' \<and> length b' = length b \<and>
    (\<forall>p < 8 * length b. get_bit b' p =
      (if 8 * off \<le> p \<and> p < 8 * (off + sz) \<and> get_bit msk (p - 8 * off) then get_bit data (p - 8 * off) else get_bit b p))"
proof -
  note pl = plainD [OF assms(1)]
  have lt: "int off + int sz < 2 ^ 31" using assms(3) pl(5) by simp
  have r: "0 \<le> int off" "0 < int sz" "int sz \<le> int (length data)" "int sz \<le> int (length msk)" "int off + int sz \<le> int (length b)"
    using assms(2-5) by simp_all
  let ?new = "mask_bytes (take sz data) (take sz msk) (take sz (drop off b))"
  obtain b' evs x y where b': "mem_put b (int off) (mask_bytes (take (nat (int sz)) data) (take (nat (int sz)) msk)
      (take (nat (int sz)) (drop (nat (int off)) b))) = Some b'"
    and w: "tag_mask_write E s fd idx (int off) data msk (int sz) =
      Some (0, (set_tag s idx (t\<lparr>t_data := D_block b', t_events := evs\<rparr>))\<lparr>sent := sent s @ x, retained := retained s @ y\<rparr>)"
    by (rule tag_mask_write_block [OF assms(1) r(1,2) lt r(3-5)])
  have put: "mem_put b (int off) ?new = Some b'" using b' by simp
  show ?thesis
    using w mem_put_length [OF put] mask_put_bits [OF put assms(4,5,3)] get_tag_Some_range [OF pl(1)]
    by (intro exI [of _ "(set_tag s idx (t\<lparr>t_data := D_block b', t_events := evs\<rparr>))\<lparr>sent := sent s @ x, retained := retained s @ y\<rparr>"]
        exI [of _ "t\<lparr>t_data := D_block b', t_events := evs\<rparr>"] exI [of _ b']) auto
qed

theorem mask_write_bits_witness:
  "\<exists>s' t' b'. tag_mask_write env0 demo 5 0 2 [255] [16] 1 = Some (0, s') \<and> get_tag s' 0 = Some t' \<and> t_data t' = D_block b' \<and>
    get_bit b' 20 \<and> (\<forall>p < 64. p \<noteq> 20 \<longrightarrow> get_bit b' p = get_bit [1, 2, 3, 4, 5, 6, 7, 8] p)"
proof -
  have m: "get_bit [16] (p - 16) \<longleftrightarrow> p = 20" if "16 \<le> p" "p < 24" for p
  proof -
    have "p \<in> {16, 17, 18, 19, 20, 21, 22, 23}" using that by auto
    then show ?thesis by (auto simp: get_bit_def)
  qed
  have d: "get_bit [255] 4" by (simp add: get_bit_def)
  from mask_write_bits [OF demo_plain, of 1 2 "[255]" "[16]" env0 5] obtain s' t' b' where
    r: "tag_mask_write env0 demo 5 0 2 [255] [16] 1 = Some (0, s')" "get_tag s' 0 = Some t'" "t_data t' = D_block b'"
      "\<forall>p < 64. get_bit b' p = (if 16 \<le> p \<and> p < 24 \<and> get_bit [16] (p - 16) then get_bit [255] (p - 16)
        else get_bit [1, 2, 3, 4, 5, 6, 7, 8] p)" by auto
  have "get_bit b' 20" using r(4) m [of 20] d by simp
  moreover have "get_bit b' p = get_bit [1, 2, 3, 4, 5, 6, 7, 8] p" if "p < 64" "p \<noteq> 20" for p
    using r(4) m [of p] that by auto
  ultimately show ?thesis using r(1-3) by blast
qed

text \<open>C14: Reading a tag with a block of its own delivers exactly the bytes asked for, with the overridden bits
  replaced when the override is switched on, or reports that the request is too big. It
  touches nothing of the caller's buffer behind the requested size and changes no state.\<close>

theorem tag_read_exact:
  assumes "block_tag s idx t b" and "0 \<le> offset" and "0 \<le> sz" and "offset + sz < 2 ^ 31" and "sz \<le> int (length buf)"
    and "attr_set (t_attr t) TAG_ATTR_OVR_SET \<longrightarrow>
      t_odata t = Some od \<and> t_omask t = Some om \<and> length od = length b \<and> length om = length b"
  shows "tag_read E s fd idx offset buf sz =
    (if int (length b) < offset + sz then Some (ERR_2BIG, buf, s)
     else Some (0, take (nat sz) (drop (nat offset)
         (if attr_set (t_attr t) TAG_ATTR_OVR_SET then mask_bytes od om b else b)) @ drop (nat sz) buf, s))"
  using tag_read_block [OF assms(1-5)] assms(6) by blast

theorem tag_read_exact_witness:
  "tag_read env0 demo 5 0 2 [0, 0, 0, 77] 3 = Some (0, [3, 4, 5, 77], demo)"
  using tag_read_exact [OF plainD(9) [OF demo_plain], of 2 3 "[0, 0, 0, 77]" undefined undefined env0 5]
  by (simp add: attr_set_def)

text \<open>C35: A negative offset passes the size check of both functions, and then the access leaves the block: reading
  or writing with it is undefined.\<close>

theorem negative_offset_undefined:
  assumes "plain s idx t b" and "offset < 0" and "- (2 ^ 31) \<le> offset" and "0 \<le> sz" and "sz \<le> int (length b)"
    and "sz \<le> int (length data)"
  shows "tag_write E s fd idx offset data sz = None \<and> tag_read E s fd idx offset buf sz = None"
proof -
  note p = plainD [OF assms(1)]
  have "int (length b) < 2 ^ 31" using p(5) by simp
  then have i: "int32_ok (offset + sz)" using assms(2-5) by (simp add: int32_ok_def)
  have z: "\<not> int (length b) < offset + sz" using assms(2,5) by linarith
  note size = tag_get_size_block [OF p(9)]
  have "tag_write E s fd idx offset data sz = None"
    using p i z size assms(2) by (simp add: tag_write_def tag_store_def mem_get_def mem_put_def)
  moreover have "tag_read E s fd idx offset buf sz = None"
    using p i z size assms(2) by (simp add: tag_read_def mem_get_def)
  ultimately show ?thesis by simp
qed

theorem negative_offset_undefined_witness:
  "tag_write env0 demo 5 0 (- 4) [9, 9, 9, 9] 4 = None \<and> tag_read env0 demo 5 0 (- 4) [0, 0, 0, 0] 4 = None"
  using negative_offset_undefined [OF demo_plain, of "- 4" 4 "[9, 9, 9, 9]" env0 5 "[0, 0, 0, 0]"] by simp

end
