(* ===== verification/Tag_Cache.thy ===== *)
theory Tag_Cache
  imports Module_Ring Tagbase
begin

text \<open>
  The tag cache of the client library (\<^verbatim>\<open>src/lib/libdata.c\<close>): the descriptions of the tags that were looked
  up, in a circular doubly linked list with a fixed head. A tag that is found moves up by one
  place. The pointers are as the code has them; the lemmas show that they implement a plain list
  in which a hit swaps two neighbours, and a contract of lookups follows from that.
\<close>

section \<open>The cache with its pointers\<close>

record tag_cache =
  cache_ring :: ring
  cnode :: "nat \<Rightarrow> dax_tag"
  cache_count :: int
  cache_limit :: int

definition init_tag_cache :: "int \<Rightarrow> ring \<Rightarrow> (nat \<Rightarrow> dax_tag) \<Rightarrow> tag_cache" where
  "init_tag_cache limit r nodes =
    \<lparr>cache_ring = r\<lparr>r_cur := None\<rparr>, cnode = nodes, cache_count = 0, cache_limit = limit\<rparr>"

text \<open>\<^verbatim>\<open>_cache_hit\<close>: the description, and the pointers after the node has moved up.\<close>

definition ring_bubble :: "ring \<Rightarrow> int \<Rightarrow> nat \<Rightarrow> nat \<Rightarrow> ring" where
  "ring_bubble r count head this =
    (if this = head then r
     else if count = 2 then r\<lparr>r_cur := Some (r_next r head)\<rparr>
     else
       let cur = (if this = r_next r head then this else head);
           after = r_prev r this;
           before = r_prev r after;
           nxt1 = (r_next r)(before := this);
           prv1 = (r_prev r)(after := this);
           nxt2 = nxt1(after := nxt1 this);
           prv2 = prv1(nxt2 this := after);
           nxt3 = nxt2(this := after);
           prv3 = prv2(this := before)
       in r\<lparr>r_next := nxt3, r_prev := prv3, r_cur := Some cur\<rparr>)"

definition cache_hit :: "tag_cache \<Rightarrow> nat \<Rightarrow> dax_tag \<times> tag_cache" where
  "cache_hit c this =
    (cnode c this,
     case r_cur (cache_ring c) of
       None \<Rightarrow> c
     | Some head \<Rightarrow> c\<lparr>cache_ring := ring_bubble (cache_ring c) (cache_count c) head this\<rparr>)"

text \<open>The search: the head first, then around the list until the head comes again.\<close>

partial_function (option) cache_loop :: "(nat \<Rightarrow> bool) \<Rightarrow> (nat \<Rightarrow> nat) \<Rightarrow> nat \<Rightarrow> nat \<Rightarrow> nat option option" where
  "cache_loop P nxt head this =
    (if this = head then Some None
     else if P this then Some (Some this)
     else cache_loop P nxt head (nxt this))"

definition cache_search :: "(dax_tag \<Rightarrow> bool) \<Rightarrow> tag_cache \<Rightarrow> nat option option" where
  "cache_search P c =
    (case r_cur (cache_ring c) of
       None \<Rightarrow> Some None
     | Some head \<Rightarrow>
         if P (cnode c head) then Some (Some head)
         else cache_loop (\<lambda>n. P (cnode c n)) (r_next (cache_ring c)) head (r_next (cache_ring c) head))"

definition check_cache :: "(dax_tag \<Rightarrow> bool) \<Rightarrow> tag_cache \<Rightarrow> ((int + dax_tag) \<times> tag_cache) option" where
  "check_cache P c =
    do {
      f \<leftarrow> cache_search P c;
      Some (case f of
              None \<Rightarrow> (Inl ERR_NOTFOUND, c)
            | Some this \<Rightarrow> let (tag, c') = cache_hit c this in (Inr tag, c'))
    }"

definition check_cache_index :: "tag_cache \<Rightarrow> int \<Rightarrow> ((int + dax_tag) \<times> tag_cache) option" where
  "check_cache_index c idx = check_cache (\<lambda>t. dt_idx t = idx) c"

definition check_cache_name :: "tag_cache \<Rightarrow> string \<Rightarrow> ((int + dax_tag) \<times> tag_cache) option" where
  "check_cache_name c name = check_cache (\<lambda>t. dt_name t = name) c"

text \<open>\<^verbatim>\<open>cache_tag_add\<close>: \<open>new\<close> is the node that the allocation delivers. A full cache loses its last tag.\<close>

definition cache_tag_add :: "tag_cache \<Rightarrow> nat option \<Rightarrow> dax_tag \<Rightarrow> int \<times> tag_cache" where
  "cache_tag_add c new tag =
    (let r = cache_ring c in
     case r_cur r of
       None \<Rightarrow>
         (case new of
            None \<Rightarrow> (ERR_ALLOC, c)
          | Some n \<Rightarrow>
              (0, c\<lparr>cache_ring := r\<lparr>r_next := (r_next r)(n := n), r_prev := (r_prev r)(n := n), r_cur := Some n\<rparr>,
                    cache_count := cache_count c + 1, cnode := (cnode c)(n := tag)\<rparr>))
     | Some head \<Rightarrow>
         if cache_count c < cache_limit c then
           (case new of
              None \<Rightarrow> (ERR_ALLOC, c)
            | Some n \<Rightarrow>
                let nxt1 = (r_next r)(n := head);
                    prv1 = (r_prev r)(n := r_prev r head);
                    nxt2 = nxt1(prv1 head := n);
                    prv2 = prv1(head := n)
                in (0, c\<lparr>cache_ring := r\<lparr>r_next := nxt2, r_prev := prv2\<rparr>,
                         cache_count := cache_count c + 1, cnode := (cnode c)(n := tag)\<rparr>))
         else (0, c\<lparr>cnode := (cnode c)(r_prev r head := tag)\<rparr>))"

text \<open>\<^verbatim>\<open>cache_tag_del\<close>: unlinking a node is the same sequence of assignments as in the module list.\<close>

definition cache_tag_del :: "tag_cache \<Rightarrow> int \<Rightarrow> (int \<times> tag_cache) option" where
  "cache_tag_del c idx =
    do {
      f \<leftarrow> cache_search (\<lambda>t. dt_idx t = idx) c;
      Some (case f of
              None \<Rightarrow> (ERR_NOTFOUND, c)
            | Some this \<Rightarrow>
                (0, c\<lparr>cache_ring := ring_del (cache_ring c) this, cache_count := cache_count c - 1\<rparr>))
    }"

section \<open>The list behind the pointers\<close>

definition cache_rep :: "tag_cache \<Rightarrow> dax_tag list \<Rightarrow> bool" where
  "cache_rep c ts \<longleftrightarrow>
    (\<exists>xs. ring_list (cache_ring c) xs \<and> ts = map (cnode c) xs \<and> cache_count c = int (length xs))"

fun bubble :: "('a \<Rightarrow> bool) \<Rightarrow> 'a list \<Rightarrow> 'a list" where
  "bubble P (x # y # zs) = (if P x then x # y # zs else if P y then y # x # zs else x # bubble P (y # zs))"
| "bubble P xs = xs"

definition list_cache_add :: "int \<Rightarrow> 'a list \<Rightarrow> 'a \<Rightarrow> 'a list" where
  "list_cache_add limit ts t = (if ts = [] \<or> int (length ts) < limit then ts @ [t] else butlast ts @ [t])"

fun del_first :: "('a \<Rightarrow> bool) \<Rightarrow> 'a list \<Rightarrow> 'a list" where
  "del_first P [] = []"
| "del_first P (x # xs) = (if P x then xs else x # del_first P xs)"

lemma bubble_set [simp]: "set (bubble P xs) = set xs"
  by (induction P xs rule: bubble.induct) auto

lemma bubble_length [simp]: "length (bubble P xs) = length xs"
  by (induction P xs rule: bubble.induct) auto

lemma bubble_map: "bubble P (map f xs) = map f (bubble (\<lambda>x. P (f x)) xs)"
  by (induction "\<lambda>x. P (f x)" xs rule: bubble.induct) auto

lemma bubble_none: "\<forall>x\<in>set xs. \<not> P x \<Longrightarrow> bubble P xs = xs"
  by (induction P xs rule: bubble.induct) auto

lemma bubble_swap: "\<forall>x\<in>set us. \<not> P x \<Longrightarrow> \<not> P a \<Longrightarrow> P t \<Longrightarrow> bubble P (us @ a # t # vs) = us @ t # a # vs"
proof (induction us)
  case (Cons u us)
  then have "bubble P (us @ a # t # vs) = us @ t # a # vs" by simp
  with Cons.prems show ?case by (cases us) auto
qed simp

lemma bubble_head: "P x \<Longrightarrow> bubble P (x # xs) = x # xs"
  by (cases xs) auto

lemma bubble_find:
  "find P (bubble P xs) = find P xs"
  by (induction P xs rule: bubble.induct) auto

lemma del_first_map: "del_first P (map f xs) = map f (del_first (\<lambda>x. P (f x)) xs)"
  by (induction xs) auto

lemma del_first_remove1: "find P xs = Some x \<Longrightarrow> del_first P xs = remove1 x xs"
  by (induction xs) (auto split: if_splits simp: find_Some_iff)

section \<open>The operations on the pointers\<close>

lemma cache_loop_chain:
  assumes "chain r c xs stop" and "stop \<notin> set xs"
  shows "cache_loop P (r_next r) stop (r_next r c) = Some (find P xs)"
  using assms
proof (induction xs arbitrary: c)
  case Nil
  then show ?case by (subst cache_loop.simps) simp
next
  case (Cons x xs)
  then show ?case by (subst cache_loop.simps) auto
qed

lemma cache_search_list:
  assumes "ring_list (cache_ring c) xs"
  shows "cache_search P c = Some (find (\<lambda>n. P (cnode c n)) xs)"
proof (cases xs)
  case Nil
  with assms show ?thesis by (simp add: cache_search_def)
next
  case (Cons h ys)
  with assms show ?thesis by (auto simp: cache_search_def intro: cache_loop_chain)
qed

text \<open>Exchanging two neighbours of a ring of at least three.\<close>

lemma chain_swap:
  assumes "chain r b (a # t # rest) b" and "distinct (b # a # t # rest)"
    and "r_next r' = (r_next r)(b := t, a := r_next r t, t := a)"
    and "r_prev r' = (r_prev r)(a := t, r_next r t := a, t := b)"
  shows "chain r' b (t # a # rest) b"
proof (cases rest)
  case Nil
  with assms(1,2) show ?thesis by (auto simp: assms(3,4))
next
  case (Cons d ds)
  with assms(1) have c: "r_next r t = d" "r_prev r d = t" "chain r d ds b" by auto
  have "chain r' d ds b = chain r d ds b"
    using assms(2) Cons by (intro chain_cong) (auto simp: assms(3,4) c)
  with c Cons assms(2) show ?thesis by (auto simp: assms(3,4))
qed

lemma ring_list_cur_upd [simp]: "ring_list (r\<lparr>r_cur := Some b\<rparr>) (b # xs) \<longleftrightarrow> distinct (b # xs) \<and> chain r b xs b"
  by simp

lemma ring_bubble_pointers:
  assumes "this \<noteq> head" and "count \<noteq> 2" and "r_prev r this = a" and "r_prev r a = b"
    and "b \<noteq> a" and "a \<noteq> this" and "b \<noteq> this" and "r_next r a = this" 
  shows "r_next (ring_bubble r count head this) = (r_next r)(b := this, a := r_next r this, this := a)"
    and "r_prev (ring_bubble r count head this) = (r_prev r)(a := this, r_next r this := a, this := b)"
    and "r_cur (ring_bubble r count head this) = Some (if this = r_next r head then this else head)"
  using assms by (auto simp: ring_bubble_def Let_def fun_eq_iff)

lemma ring_bubble_list:
  assumes "ring_list r xs" and "xs = h # ys" and "find P xs = Some t"
  shows "ring_list (ring_bubble r (int (length xs)) h t) (bubble P xs)"
proof -
  note sp = find_split [OF assms(3)]
  define us where "us = takeWhile (\<lambda>x. \<not> P x) xs"
  define vs where "vs = tl (dropWhile (\<lambda>x. \<not> P x) xs)"
  have xs: "xs = us @ t # vs" using sp(1) by (simp only: us_def vs_def)
  have np: "\<forall>x\<in>set us. \<not> P x" by (auto simp: us_def dest: set_takeWhileD)
  have pt: "P t" using assms(3) by (auto simp: find_Some_iff)
  show ?thesis
  proof (cases us rule: rev_cases)
    case Nil
    with xs assms(1,2) pt show ?thesis by (simp add: ring_bubble_def bubble_head)
  next
    case (snoc ws a)
    have bub: "bubble P xs = ws @ t # a # vs" using np pt by (simp add: xs snoc bubble_swap)
    have dist: "distinct (ws @ a # t # vs)" using assms(1,2) xs snoc by auto
    have th: "t \<noteq> h" using dist xs assms(2) snoc by (cases ws) auto
    show ?thesis
    proof (cases "length xs = 2")
      case True
      with xs snoc have "ws = []" "vs = []" by auto
      with assms(1,2) xs snoc bub th show ?thesis by (auto simp: ring_bubble_def)
    next
      case False
      show ?thesis
      proof (cases ws rule: rev_cases)
        case Nil
        with False xs snoc obtain ds b where vs: "vs = ds @ [b]" by (cases vs rule: rev_cases) auto
        have h: "h = a" using xs snoc Nil assms(2) by simp
        have ch: "chain r a (t # ds @ [b]) a" using assms(1) xs snoc Nil vs by simp
        then have ch2: "chain r b (a # t # ds) b" by (simp add: chain_append)
        have "chain (ring_bubble r (int (length xs)) h t) b (t # a # ds) b"
        proof (rule chain_swap [OF ch2])
          show "distinct (b # a # t # ds)" using dist Nil vs by auto
        qed (rule ring_bubble_pointers; use ch2 th False dist Nil vs in auto)+
        then have "chain (ring_bubble r (int (length xs)) h t) t (a # ds @ [b]) t" by (simp add: chain_append)
        moreover have "r_cur (ring_bubble r (int (length xs)) h t) = Some t"
          using ring_bubble_pointers(3) [of t h "int (length xs)" r a b] ch ch2 h th False dist Nil vs by auto
        ultimately show ?thesis using bub Nil vs dist by auto
      next
        case (snoc vs' b)
        note ws = this
        have rl: "ring_list r (vs' @ b # a # t # vs)" using assms(1) xs \<open>us = ws @ [a]\<close> ws by simp
        have ch2: "chain r b (a # t # vs @ vs') b" using ring_list_rotate [OF rl] by simp
        let ?r = "ring_bubble r (int (length xs)) h t"
        have nh: "r_next r h \<noteq> t"
        proof (cases vs')
          case Nil
          then show ?thesis using rl ws xs \<open>us = ws @ [a]\<close> assms(2) dist by auto
        next
          case (Cons v zs)
          then have "h = v" using xs \<open>us = ws @ [a]\<close> ws assms(2) by simp
          moreover have "chain r v (zs @ b # a # t # vs) v" using rl Cons by simp
          ultimately show ?thesis using dist ws Cons by (cases zs) auto
        qed
        have ch3: "chain ?r b (t # a # vs @ vs') b"
        proof (rule chain_swap [OF ch2])
          show "distinct (b # a # t # vs @ vs')" using dist ws by auto
        qed (rule ring_bubble_pointers; use ch2 th False dist ws in auto)+
        have cur: "r_cur ?r = Some h"
          using ring_bubble_pointers(3) [of t h "int (length xs)" r a b] ch2 th False dist ws nh by auto
        show ?thesis
        proof (cases vs')
          case Nil
          then have "h = b" using xs \<open>us = ws @ [a]\<close> ws assms(2) by simp
          with ch3 cur bub ws Nil dist show ?thesis by auto
        next
          case (Cons v zs)
          then have hv: "h = v" using xs \<open>us = ws @ [a]\<close> ws assms(2) by simp
          have "chain ?r v (zs @ b # t # a # vs) v" using ch3 Cons by (simp add: chain_append)
          with hv cur bub ws Cons dist show ?thesis by auto
        qed
      qed
    qed
  qed
qed

lemma find_map_node: "find P (map f xs) = map_option f (find (\<lambda>x. P (f x)) xs)"
  by (induction xs) auto

lemma check_cache_rep:
  assumes "cache_rep c ts"
  shows "\<exists>c'. check_cache P c = Some (case find P ts of None \<Rightarrow> Inl ERR_NOTFOUND | Some t \<Rightarrow> Inr t, c') \<and>
    cache_rep c' (bubble P ts) \<and> cache_limit c' = cache_limit c"
proof -
  obtain xs where xs: "ring_list (cache_ring c) xs" "ts = map (cnode c) xs" "cache_count c = int (length xs)"
    using assms by (auto simp: cache_rep_def)
  let ?P = "\<lambda>n. P (cnode c n)"
  show ?thesis
  proof (cases "find ?P xs")
    case None
    then have "find P ts = None" "bubble P ts = ts"
      by (auto simp: xs(2) find_map_node find_None_iff intro!: bubble_none)
    with None assms show ?thesis by (simp add: check_cache_def cache_search_list [OF xs(1)])
  next
    case (Some t)
    then obtain h ys where h: "xs = h # ys" by (cases xs) auto
    from ring_bubble_list [OF xs(1) h Some]
    have "ring_list (ring_bubble (cache_ring c) (cache_count c) h t) (bubble ?P xs)" by (simp add: xs(3))
    then have "cache_rep (c\<lparr>cache_ring := ring_bubble (cache_ring c) (cache_count c) h t\<rparr>) (bubble P ts)"
      by (auto simp: cache_rep_def xs(2,3) bubble_map)
    moreover have "find P ts = Some (cnode c t)" by (simp add: xs(2) find_map_node Some)
    moreover have "r_cur (cache_ring c) = Some h" using xs(1) h by simp
    ultimately show ?thesis
      by (simp add: check_cache_def cache_search_list [OF xs(1)] Some cache_hit_def)
  qed
qed

text \<open>A node that is not in the list, as the allocation delivers it.\<close>

definition cache_fresh :: "tag_cache \<Rightarrow> nat \<Rightarrow> bool" where
  "cache_fresh c n \<longleftrightarrow> (\<forall>xs. ring_list (cache_ring c) xs \<longrightarrow> n \<notin> set xs)"

lemma chain_extend:
  assumes "chain r h ys h" and "distinct (h # ys)" and "n \<notin> set (h # ys)"
    and "r_next r' = (r_next r)(n := h, r_prev r h := n)" and "r_prev r' = (r_prev r)(n := r_prev r h, h := n)"
  shows "chain r' h (ys @ [n]) h"
proof (cases ys rule: rev_cases)
  case Nil
  with assms show ?thesis by auto
next
  case (snoc zs l)
  with assms(1) have c: "chain r h zs l" "r_next r l = h" "r_prev r h = l" by (auto simp: chain_append)
  have "chain r' h zs l = chain r h zs l"
    using assms(2,3) snoc c by (intro chain_cong) (auto simp: assms(4,5))
  with c snoc assms(2,3) show ?thesis by (auto simp: chain_append assms(4,5))
qed

lemma cache_tag_add_rep:
  assumes "cache_rep c ts" and "cache_fresh c n"
  shows "fst (cache_tag_add c (Some n) tag) = 0 \<and>
    cache_rep (snd (cache_tag_add c (Some n) tag)) (list_cache_add (cache_limit c) ts tag) \<and>
    cache_limit (snd (cache_tag_add c (Some n) tag)) = cache_limit c"
proof -
  obtain xs where xs: "ring_list (cache_ring c) xs" "ts = map (cnode c) xs" "cache_count c = int (length xs)"
    using assms(1) by (auto simp: cache_rep_def)
  have n: "n \<notin> set xs" using assms(2) xs(1) by (simp add: cache_fresh_def)
  show ?thesis
  proof (cases xs)
    case Nil
    with xs have "cache_rep (snd (cache_tag_add c (Some n) tag)) [tag]"
      by (auto simp: cache_tag_add_def Let_def cache_rep_def intro!: exI [of _ "[n]"])
    with Nil xs show ?thesis by (simp add: cache_tag_add_def Let_def list_cache_add_def)
  next
    case (Cons h ys)
    with xs(1) have r: "r_cur (cache_ring c) = Some h" "distinct (h # ys)" "chain (cache_ring c) h ys h" by auto
    show ?thesis
    proof (cases "cache_count c < cache_limit c")
      case True
      let ?c = "snd (cache_tag_add c (Some n) tag)"
      have c': "cache_ring ?c = (cache_ring c)\<lparr>r_next := (r_next (cache_ring c))(n := h, r_prev (cache_ring c) h := n),
          r_prev := (r_prev (cache_ring c))(n := r_prev (cache_ring c) h, h := n)\<rparr>"
        "cnode ?c = (cnode c)(n := tag)" "cache_count ?c = cache_count c + 1"
        using True r(1) n Cons by (auto simp: cache_tag_add_def Let_def)
      have "chain (cache_ring ?c) h (ys @ [n]) h"
        using n Cons by (intro chain_extend [OF r(3,2)]) (auto simp: c')
      then have "ring_list (cache_ring ?c) (xs @ [n])" using r n Cons by (auto simp: c')
      then have "cache_rep ?c (ts @ [tag])" unfolding cache_rep_def
        using n by (intro exI [of _ "xs @ [n]"]) (auto simp: c' xs(2,3))
      with True r xs show ?thesis by (simp add: cache_tag_add_def Let_def list_cache_add_def)
    next
      case False
      have "r_prev (cache_ring c) h = last xs" using chain_last [OF r(3)] Cons by simp
      moreover have "map ((cnode c)(last xs := tag)) xs = butlast ts @ [tag]"
      proof -
        have ne: "xs \<noteq> []" and d: "distinct xs" using Cons r(2) by simp_all
        then have "last xs \<notin> set (butlast xs)" by (metis append_butlast_last_id distinct_append disjoint_insert(2) list.set(2))
        then have "map ((cnode c)(last xs := tag)) (butlast xs @ [last xs]) = map (cnode c) (butlast xs) @ [tag]" by simp
        with ne show ?thesis by (simp add: xs(2) map_butlast)
      qed
      ultimately have "cache_rep (c\<lparr>cnode := (cnode c)(r_prev (cache_ring c) h := tag)\<rparr>) (butlast ts @ [tag])"
        using xs by (auto simp: cache_rep_def intro!: exI [of _ xs])
      with False r Cons xs show ?thesis by (simp add: cache_tag_add_def Let_def list_cache_add_def)
    qed
  qed
qed

lemma cache_tag_del_rep:
  assumes "cache_rep c ts"
  shows "\<exists>c'. cache_tag_del c idx = Some (if \<exists>t\<in>set ts. dt_idx t = idx then 0 else ERR_NOTFOUND, c') \<and>
    cache_rep c' (del_first (\<lambda>t. dt_idx t = idx) ts) \<and> cache_limit c' = cache_limit c"
proof -
  obtain xs where xs: "ring_list (cache_ring c) xs" "ts = map (cnode c) xs" "cache_count c = int (length xs)"
    using assms by (auto simp: cache_rep_def)
  let ?P = "\<lambda>n. dt_idx (cnode c n) = idx"
  show ?thesis
  proof (cases "find ?P xs")
    case None
    then have none: "\<forall>x\<in>set xs. \<not> ?P x" by (simp add: find_None_iff)
    have "del_first ?P xs = xs" using none by (induction xs) auto
    with None none assms xs show ?thesis by (auto simp: cache_tag_del_def cache_search_list [OF xs(1)] del_first_map)
  next
    case (Some t)
    then have t: "t \<in> set xs" "?P t" by (auto simp: find_Some_iff)
    from ring_list_del [OF xs(1) t(1)] del_first_remove1 [OF Some]
    have "ring_list (ring_del (cache_ring c) t) (del_first ?P xs)" by simp
    moreover have "int (length (del_first ?P xs)) = cache_count c - 1"
      using t(1) length_pos_if_in_set [OF t(1)] by (simp add: del_first_remove1 [OF Some] xs(3) length_remove1 of_nat_diff Suc_leI)
    ultimately have "cache_rep (c\<lparr>cache_ring := ring_del (cache_ring c) t, cache_count := cache_count c - 1\<rparr>)
        (del_first (\<lambda>t. dt_idx t = idx) ts)"
      by (auto simp: cache_rep_def xs(2) del_first_map)
    with Some t xs show ?thesis by (auto simp: cache_tag_del_def cache_search_list [OF xs(1)])
  qed
qed

section \<open>The contract of a cache\<close>

text \<open>
  What the rest of the library relies on: a cache stands for a list of descriptions, a lookup delivers
  the first that matches and only moves it, adding puts a description at the end, in place of the last one
  when the cache is full.
\<close>

locale lookup_cache =
  fixes rep :: "'c \<Rightarrow> dax_tag list \<Rightarrow> bool"
    and check :: "(dax_tag \<Rightarrow> bool) \<Rightarrow> 'c \<Rightarrow> ((int + dax_tag) \<times> 'c) option"
    and fresh :: "'c \<Rightarrow> nat \<Rightarrow> bool"
    and add :: "'c \<Rightarrow> nat option \<Rightarrow> dax_tag \<Rightarrow> int \<times> 'c"
    and limit :: "'c \<Rightarrow> int"
  assumes check_rep: "rep c ts \<Longrightarrow>
      \<exists>c'. check P c = Some (case find P ts of None \<Rightarrow> Inl ERR_NOTFOUND | Some t \<Rightarrow> Inr t, c') \<and>
        rep c' (bubble P ts) \<and> limit c' = limit c"
    and add_rep: "rep c ts \<Longrightarrow> fresh c n \<Longrightarrow>
      fst (add c (Some n) tag) = 0 \<and> rep (snd (add c (Some n) tag)) (list_cache_add (limit c) ts tag) \<and>
      limit (snd (add c (Some n) tag)) = limit c"
begin

text \<open>A run of lookups.\<close>

fun lookups :: "(dax_tag \<Rightarrow> bool) list \<Rightarrow> 'c \<Rightarrow> 'c option" where
  "lookups [] c = Some c"
| "lookups (P # Ps) c = Option.bind (check P c) (\<lambda>(r, c'). lookups Ps c')"

lemma lookups_rep:
  assumes "rep c ts"
  shows "\<exists>c'. lookups Ps c = Some c' \<and> rep c' (fold bubble Ps ts) \<and> limit c' = limit c"
  using assms
proof (induction Ps arbitrary: c ts)
  case (Cons P Ps)
  from check_rep [OF Cons.prems, of P] obtain r c1 where
    c1: "check P c = Some (r, c1)" "rep c1 (bubble P ts)" "limit c1 = limit c" by blast
  from Cons.IH [OF c1(2)] c1 show ?case by auto
qed auto

lemma fold_bubble_set [simp]: "set (fold bubble Ps ts) = set ts" for ts :: "dax_tag list"
  by (induction Ps arbitrary: ts) simp_all

text \<open>Where at most one description matches, the answer does not depend on earlier lookups.\<close>

lemma find_unique:
  assumes "\<forall>x\<in>set xs. \<forall>y\<in>set xs. P x \<and> P y \<longrightarrow> x = y" and "set ys = set xs"
  shows "find P ys = find P (xs :: dax_tag list)"
proof (cases "find P xs")
  case None
  then have "find P ys = None" using assms(2) by (simp add: find_None_iff)
  with None show ?thesis by simp
next
  case (Some x)
  then have x: "x \<in> set xs" "P x" by (auto simp: find_Some_iff)
  then have "find P ys \<noteq> None" using assms(2) by (auto simp: find_None_iff)
  then obtain y where y: "find P ys = Some y" by blast
  then have "y \<in> set ys" "P y" by (auto simp: find_Some_iff)
  then have "y = x" using x assms by simp
  with y Some show ?thesis by simp
qed

lemma lookups_transparent:
  assumes "rep c ts" and "\<forall>x\<in>set ts. \<forall>y\<in>set ts. P x \<and> P y \<longrightarrow> x = y"
  obtains c' where "lookups Ps c = Some c'" and "map_option fst (check P c') = map_option fst (check P c)"
proof -
  from lookups_rep [OF assms(1), of Ps] obtain c' where c': "lookups Ps c = Some c'" "rep c' (fold bubble Ps ts)" by blast
  have "find P (fold bubble Ps ts) = find P ts" by (rule find_unique [OF assms(2)]) simp
  with check_rep [OF c'(2), of P] check_rep [OF assms(1), of P]
  have "map_option fst (check P c') = map_option fst (check P c)" by (elim exE conjE) simp
  with c'(1) show ?thesis by (rule that)
qed

text \<open>A description that was just added is found when nothing before it matches.\<close>

lemma added_found:
  assumes "rep c ts" and "fresh c n" and "P tag" and "\<forall>x\<in>set ts. \<not> P x"
  shows "map_option fst (check P (snd (add c (Some n) tag))) = Some (Inr tag)"
proof -
  have r: "rep (snd (add c (Some n) tag)) (list_cache_add (limit c) ts tag)" using add_rep [OF assms(1,2)] by blast
  have "find P (xs @ [tag]) = Some tag" if "\<forall>x\<in>set xs. \<not> P x" for xs
    using that assms(3) by (induction xs) auto
  moreover have "\<forall>x\<in>set (butlast ts). \<not> P x" using assms(4) by (auto dest: in_set_butlastD)
  ultimately have "find P (list_cache_add (limit c) ts tag) = Some tag"
    using assms(4) by (simp add: list_cache_add_def)
  with check_rep [OF r, of P] show ?thesis by auto
qed

end

interpretation tcache: lookup_cache cache_rep check_cache cache_fresh cache_tag_add cache_limit
  using check_cache_rep cache_tag_add_rep by unfold_locales blast+

section \<open>Properties\<close>

text \<open>A sequence of lookups by index or by name.\<close>

fun cache_checks :: "(int + string) list \<Rightarrow> tag_cache \<Rightarrow> tag_cache option" where
  "cache_checks [] c = Some c"
| "cache_checks (k # ks) c =
    do {
      (r, c') \<leftarrow> (case k of Inl idx \<Rightarrow> check_cache_index c idx | Inr name \<Rightarrow> check_cache_name c name);
      cache_checks ks c'
    }"

lemma cache_checks_lookups:
  "cache_checks ks c =
    tcache.lookups (map (\<lambda>k t. case k of Inl idx \<Rightarrow> dt_idx t = idx | Inr name \<Rightarrow> dt_name t = name) ks) c"
  by (induction ks arbitrary: c)
    (auto simp: check_cache_index_def check_cache_name_def split: sum.split intro!: arg_cong2 [of _ _ _ _ Option.bind])

definition cache3 :: tag_cache where
  "cache3 = \<lparr>cache_ring = \<lparr>r_next = (\<lambda>n. if n = 2 then 0 else n + 1), r_prev = (\<lambda>n. if n = 0 then 2 else n - 1), r_cur = Some 0\<rparr>,
     cnode = (\<lambda>n. \<lparr>dt_idx = 11 + int n, dt_type = DAX_DINT, dt_count = 1, dt_attr = 0, dt_name = replicate (n + 1) CHR ''x''\<rparr>),
     cache_count = 3, cache_limit = 8\<rparr>"

lemma cache3_rep: "cache_rep cache3 (map (cnode cache3) [0, 1, 2])"
  unfolding cache_rep_def by (intro exI [of _ "[0, 1, 2]"]) (simp add: cache3_def)

text \<open>C28: The tag cache of the client, with all its pointer assignments, is a list of descriptions: looking up
  an index or a name always returns, delivers the first description that matches and exchanges it
  with the one before it; deleting removes the first match; adding appends, in place of the last
  description when the cache is full.\<close>

theorem tag_cache_is_list:
  assumes "cache_rep c ts"
  shows "(\<exists>c'. check_cache_index c i = Some (case find (\<lambda>t. dt_idx t = i) ts of None \<Rightarrow> Inl ERR_NOTFOUND | Some t \<Rightarrow> Inr t, c') \<and>
      cache_rep c' (bubble (\<lambda>t. dt_idx t = i) ts)) \<and>
    (\<exists>c'. check_cache_name c name = Some (case find (\<lambda>t. dt_name t = name) ts of None \<Rightarrow> Inl ERR_NOTFOUND | Some t \<Rightarrow> Inr t, c') \<and>
      cache_rep c' (bubble (\<lambda>t. dt_name t = name) ts)) \<and>
    (\<exists>c'. cache_tag_del c i = Some (if \<exists>t\<in>set ts. dt_idx t = i then 0 else ERR_NOTFOUND, c') \<and>
      cache_rep c' (del_first (\<lambda>t. dt_idx t = i) ts)) \<and>
    (\<forall>n tag. cache_fresh c n \<longrightarrow> fst (cache_tag_add c (Some n) tag) = 0 \<and>
      cache_rep (snd (cache_tag_add c (Some n) tag)) (list_cache_add (cache_limit c) ts tag))"
  using check_cache_rep [OF assms, of "\<lambda>t. dt_idx t = i"] check_cache_rep [OF assms, of "\<lambda>t. dt_name t = name"]
    cache_tag_del_rep [OF assms, of i] cache_tag_add_rep [OF assms]
  unfolding check_cache_index_def check_cache_name_def by (intro conjI) blast+

theorem tag_cache_is_list_witness:
  "\<exists>c'. check_cache_index cache3 13 = Some (Inr (cnode cache3 2), c') \<and> cache_rep c' (map (cnode cache3) [0, 2, 1])"
  using tag_cache_is_list [OF cache3_rep, of 13] by (simp add: cache3_def)

text \<open>C29: Moving descriptions up changes no answer: after any sequence of lookups by index or name, the cache
  answers a lookup by index as it would have before.\<close>

theorem tag_cache_transparent:
  assumes "cache_rep c ts" and "distinct (map dt_idx ts)"
  shows "\<exists>c'. cache_checks ks c = Some c' \<and>
    map_option fst (check_cache_index c' i) = map_option fst (check_cache_index c i)"
proof -
  have "\<forall>x\<in>set ts. \<forall>y\<in>set ts. dt_idx x = i \<and> dt_idx y = i \<longrightarrow> x = y"
    using assms(2) by (auto simp: distinct_map inj_on_def)
  from tcache.lookups_transparent [OF assms(1) this] show ?thesis
    unfolding cache_checks_lookups check_cache_index_def by blast
qed

theorem tag_cache_transparent_witness:
  "\<exists>c'. cache_checks [Inl 13, Inr ''xx'', Inl 13] cache3 = Some c' \<and>
    map_option fst (check_cache_index c' 12) = map_option fst (check_cache_index cache3 12)"
  by (rule tag_cache_transparent [OF cache3_rep]) (simp add: cache3_def)

end
