(* ===== verification/Client_Data.thy ===== *)
theory Client_Data
  imports Tag_Cache Server_Loop
begin

text \<open>
  Reading and writing tags with the client library (\<^verbatim>\<open>src/lib/libmsg.c\<close>, \<^verbatim>\<open>src/lib/libdata.c\<close> and the sizes of
  \<^verbatim>\<open>src/lib/libcdt.c\<close>). A request is a message to the server, which answers with its dispatcher;
  the connection is named by the descriptor that the server has for it. The conversions of
  \<^verbatim>\<open>libconv.c\<close> between the number formats of module and server are the identity in this version.
\<close>

abbreviation ERR_DISCONNECTED :: int where "ERR_DISCONNECTED \<equiv> - 31"

section \<open>Messages\<close>

text \<open>What one \<^verbatim>\<open>read\<close> of the socket can deliver: bytes that are there, nothing within the time limit, an error.\<close>

datatype sock = S_bytes "byte list" | S_block | S_fail

fun sock_read :: "nat \<Rightarrow> sock list \<Rightarrow> (int + byte list) \<times> sock list" where
  "sock_read n [] = (Inr [], [])"
| "sock_read n (S_block # cs) = (Inl ERR_TIMEOUT, cs)"
| "sock_read n (S_fail # cs) = (Inl ERR_MSG_RECV, cs)"
| "sock_read n (S_bytes bs # cs) = (Inr (take n bs), if length bs \<le> n then cs else S_bytes (drop n bs) # cs)"

text \<open>
  \<^verbatim>\<open>_message_get\<close>: the loop for the header asks for all its eight bytes in every turn, whatever is there already.
\<close>

function get_header :: "byte list \<Rightarrow> sock list \<Rightarrow> (int + byte list) \<times> sock list" where
  "get_header acc cs =
    (if 8 \<le> length acc then (Inr acc, cs)
     else
       case sock_read 8 cs of
         (Inl e, cs') \<Rightarrow> (Inl e, cs')
       | (Inr d, cs') \<Rightarrow> if d = [] then (Inl ERR_DISCONNECTED, cs') else get_header (acc @ d) cs')"
  by pat_completeness auto
termination
  by (relation "measure (\<lambda>(acc, cs). 8 - length acc)") (auto intro!: diff_less_mono2)

function get_body :: "nat \<Rightarrow> byte list \<Rightarrow> sock list \<Rightarrow> (int + byte list) \<times> sock list" where
  "get_body n acc cs =
    (if n \<le> length acc then (Inr acc, cs)
     else
       case sock_read (n - length acc) cs of
         (Inl e, cs') \<Rightarrow> (Inl e, cs')
       | (Inr d, cs') \<Rightarrow> if d = [] then (Inl ERR_DISCONNECTED, cs') else get_body n (acc @ d) cs')"
  by pat_completeness auto
termination
  by (relation "measure (\<lambda>(n, acc, cs). n - length acc)") (auto intro!: diff_less_mono2)

declare get_header.simps [simp del] get_body.simps [simp del]

text \<open>A message of the server that does not fit into the buffers is copied beyond them.\<close>

definition message_get :: "sock list \<Rightarrow> ((int + u32 \<times> byte list) \<times> sock list) option" where
  "message_get cs =
    (case get_header [] cs of
       (Inl e, cs1) \<Rightarrow> Some (Inl e, cs1)
     | (Inr hdr, cs1) \<Rightarrow>
         let n = be_dec (take 4 hdr)
         in if MSG_DATA_SIZE < n then None
            else
              case get_body n [] cs1 of
                (Inl e, cs2) \<Rightarrow> Some (Inl e, cs2)
              | (Inr d, cs2) \<Rightarrow> Some (Inr (of_nat (be_dec (take 4 (drop 4 hdr))), d), cs2))"

text \<open>The state of a client: its connection, the data types and the tags that it has cached.\<close>

record dax_state =
  sfd :: int
  types :: "(string \<times> cdt_member list) option list"
  tagcache :: tag_cache

text \<open>
  \<^verbatim>\<open>_read_next_message\<close> and the waiting part of \<^verbatim>\<open>_message_recv\<close>: messages of events go to their queue, the
  first other one is the answer; when none comes the time runs out.
\<close>

fun await_answer :: "byte list list \<Rightarrow> (u32 \<times> byte list) option option" where
  "await_answer [] = Some None"
| "await_answer (c # cs) =
    do {
      (r, rest) \<leftarrow> message_get [S_bytes c];
      (case r of
         Inl e \<Rightarrow> await_answer cs
       | Inr (ty, d) \<Rightarrow> if ty AND MSG_EVENT \<noteq> 0 then await_answer cs else Some (Some (ty, d)))
    }"

text \<open>\<^verbatim>\<open>_message_send\<close>: size, with the header, and command in network order, then the payload.\<close>

definition message_frame :: "u32 \<Rightarrow> byte list \<Rightarrow> byte list" where
  "message_frame command payload = net32 (of_nat (length payload) + 8) @ net32 command @ payload"

text \<open>What the server has written to a connection since the state \<open>s\<close>.\<close>

definition written :: "server \<Rightarrow> server \<Rightarrow> int \<Rightarrow> byte list list" where
  "written s s1 fd = map snd (filter (\<lambda>(f, _). f = fd) (drop (length (sent s)) (sent s1)))"

text \<open>
  \<^verbatim>\<open>_message_send\<close> with \<^verbatim>\<open>_message_recv\<close>: the code that comes back and the data of the answer. The receive loop of the
  server hands a complete message to the dispatcher, and writing to the socket succeeds.
\<close>

definition message_request ::
  "env \<Rightarrow> server \<Rightarrow> dax_state \<Rightarrow> u32 \<Rightarrow> byte list \<Rightarrow> (int \<times> byte list \<times> server) option" where
  "message_request E s ds command payload =
    (if sfd ds < 0 then Some (ERR_DISCONNECTED, [], s)
     else do {
       (r, s1, nodes) \<leftarrow> msg_dispatcher E s [] (sfd ds)
         (message_frame command payload);
       a \<leftarrow> await_answer (written s s1 (sfd ds));
       Some (case a of
               None \<Rightarrow> (ERR_TIMEOUT, [], s1)
             | Some (ty, d) \<Rightarrow>
                 if ty = command OR MSG_ERROR then (dec_int (take 4 d), [], s1)
                 else if ty = command OR MSG_RESPONSE then (0, d, s1)
                 else (ERR_GENERIC, [], s1))
     })"

text \<open>A tag that the server reports as deleted leaves the cache.\<close>

definition drop_deleted :: "dax_state \<Rightarrow> int \<Rightarrow> int \<Rightarrow> dax_state option" where
  "drop_deleted ds idx r =
    (if r = ERR_DELETED then
       map_option (\<lambda>(_, c). ds\<lparr>tagcache := c\<rparr>) (cache_tag_del (tagcache ds) idx)
     else Some ds)"

section \<open>Raw access\<close>

text \<open>
  \<^verbatim>\<open>dax_read\<close>: the message is two bytes longer than what is filled in. The result has the caller's buffer.
\<close>

definition dax_read ::
  "env \<Rightarrow> server \<Rightarrow> dax_state \<Rightarrow> int \<Rightarrow> u32 \<Rightarrow> byte list \<Rightarrow> nat \<Rightarrow> (int \<times> byte list \<times> server \<times> dax_state) option" where
  "dax_read E s ds idx offset buf sz =
    (if MSG_DATA_SIZE < sz then Some (ERR_2BIG, buf, s, ds)
     else do {
       (r, d, s1) \<leftarrow> message_request E s ds MSG_TAG_READ
         (enc_int idx @ enc32 offset @ enc32 (of_nat sz) @ [junk E 12, junk E 13]);
       ds1 \<leftarrow> drop_deleted ds idx r;
       buf1 \<leftarrow> (if r = 0 then mem_put buf 0 d else Some buf);
       Some (r, buf1, s1, ds1)
     })"

definition dax_write ::
  "env \<Rightarrow> server \<Rightarrow> dax_state \<Rightarrow> int \<Rightarrow> u32 \<Rightarrow> byte list \<Rightarrow> nat \<Rightarrow> (int \<times> server \<times> dax_state) option" where
  "dax_write E s ds idx offset data sz =
    (if MSG_DATA_SIZE < sz + 8 then Some (ERR_2BIG, s, ds)
     else do {
       d \<leftarrow> mem_get data 0 (int sz);
       (r, _, s1) \<leftarrow> message_request E s ds MSG_TAG_WRITE (enc_int idx @ enc32 offset @ d);
       ds1 \<leftarrow> drop_deleted ds idx r;
       Some (r, s1, ds1)
     })"

definition dax_mask ::
  "env \<Rightarrow> server \<Rightarrow> dax_state \<Rightarrow> int \<Rightarrow> u32 \<Rightarrow> byte list \<Rightarrow> byte list \<Rightarrow> nat \<Rightarrow> (int \<times> server \<times> dax_state) option" where
  "dax_mask E s ds idx offset data msk sz =
    (if MSG_DATA_SIZE < sz * 2 + 8 then Some (ERR_2BIG, s, ds)
     else do {
       d \<leftarrow> mem_get data 0 (int sz);
       m \<leftarrow> mem_get msk 0 (int sz);
       (r, _, s1) \<leftarrow> message_request E s ds MSG_TAG_MWRITE (enc_int idx @ enc32 offset @ d @ m);
       ds1 \<leftarrow> drop_deleted ds idx r;
       Some (r, s1, ds1)
     })"

section \<open>Types\<close>

text \<open>
  The members of a compound type that is in the cache of the client. Here a type that is missing has no result;
  asking the server for it is the subject of \<^verbatim>\<open>Client_Types\<close>.
\<close>

definition cached_type :: "dax_state \<Rightarrow> u32 \<Rightarrow> cdt_member list option" where
  "cached_type ds t =
    (case arr_get (types ds) (uint (CDT_TO_INDEX t)) of
       Some (Some (name, ms)) \<Rightarrow> Some ms
     | _ \<Rightarrow> None)"

fun client_pos :: "(u32 \<Rightarrow> int option) \<Rightarrow> u32 \<Rightarrow> cdt_member list \<Rightarrow> u32 option" where
  "client_pos f pos [] = Some pos"
| "client_pos f pos (m # ms) =
    (if m_type m = DAX_BOOL then client_pos f (pos + m_count m) ms
     else if IS_CUSTOM (m_type m) then
       (case f (m_type m) of
          Some r \<Rightarrow> client_pos f (align8 pos + u32_of r * m_count m * 8) ms
        | None \<Rightarrow> None)
     else client_pos f (align8 pos + of_nat (TYPESIZE (m_type m)) * m_count m) ms)"

text \<open>\<^verbatim>\<open>dax_get_typesize\<close>: unlike on the server a BOOL and an empty type have one byte. The depth is bounded.\<close>

primrec typesize_fuel :: "nat \<Rightarrow> dax_state \<Rightarrow> u32 \<Rightarrow> int option" where
  "typesize_fuel 0 ds t = None"
| "typesize_fuel (Suc k) ds t0 =
    (let t = drop_queue t0 in
     if IS_CUSTOM t then
       do {
         ms \<leftarrow> cached_type ds t;
         pos \<leftarrow> client_pos (typesize_fuel k ds) 0 ms;
         Some (if pos \<noteq> 0 then int_of_u32 ((pos - 1) div 8 + 1) else 1)
       }
     else if t \<in> set base_types then Some (max 1 (int (TYPESIZE t div 8)))
     else Some ERR_ARG)"

definition dax_get_typesize :: "dax_state \<Rightarrow> u32 \<Rightarrow> int option" where
  "dax_get_typesize ds t = typesize_fuel (Suc (length (types ds))) ds t"

text \<open>
  \<^verbatim>\<open>_read_format\<close> and \<^verbatim>\<open>_write_format\<close>: the conversions leave the bytes as they are, what remains is the
  walk over the members, which has to stay within the data, and the code for an unknown type. The second one passes on the
  address that already has the offset in it, together with the offset (\<open>wr\<close>).
\<close>

fun format_members ::
  "(u32 \<Rightarrow> int \<Rightarrow> int \<Rightarrow> int option) \<Rightarrow> (u32 \<Rightarrow> int option) \<Rightarrow> int \<Rightarrow> cdt_member list \<Rightarrow> int option" where
  "format_members f sizes pos [] = Some 0"
| "format_members f sizes pos (m # ms) =
    do {
      r \<leftarrow> f (m_type m) (int_of_u32 (m_count m)) pos;
      if r \<noteq> 0 then Some r
      else do {
        z \<leftarrow> (if IS_CUSTOM (m_type m) then sizes (m_type m) else Some (int (TYPESIZE (m_type m))));
        let n = z * int_of_u32 (m_count m);
        let next = pos + (if IS_CUSTOM (m_type m) then n else cdiv n 8);
        if int32_ok n \<and> int32_ok next then format_members f sizes next ms else None
      }
    }"

text \<open>The bytes that are converted for one item; of a time only the first half.\<close>

definition item_bytes :: "u32 \<Rightarrow> int" where
  "item_bytes t = (if t = DAX_TIME then 4 else int (TYPESIZE t div 8))"

primrec data_format :: "nat \<Rightarrow> bool \<Rightarrow> dax_state \<Rightarrow> int \<Rightarrow> u32 \<Rightarrow> int \<Rightarrow> int \<Rightarrow> int \<Rightarrow> int option" where
  "data_format 0 wr ds len t count base offset = None"
| "data_format (Suc k) wr ds len t0 count base offset =
    (let t = drop_queue t0 in
     if IS_CUSTOM t then
       do {
         ms \<leftarrow> cached_type ds t;
         format_members (\<lambda>mt mc pos. data_format k wr ds len mt mc (if wr then base + offset else base) pos)
           (dax_get_typesize ds) offset ms
       }
     else if t \<in> set base_types then
       (if TYPESIZE t \<le> 8 \<or> count \<le> 0 \<or> base + offset + count * item_bytes t \<le> len then Some 0 else None)
     else Some ERR_ARG)"

definition read_format :: "dax_state \<Rightarrow> u32 \<Rightarrow> u32 \<Rightarrow> byte list \<Rightarrow> int option" where
  "read_format ds t count data =
    data_format (Suc (length (types ds))) False ds (int (length data)) t (int_of_u32 count) 0 0"

definition write_format :: "dax_state \<Rightarrow> u32 \<Rightarrow> u32 \<Rightarrow> byte list \<Rightarrow> int option" where
  "write_format ds t count data =
    data_format (Suc (length (types ds))) True ds (int (length data)) t (int_of_u32 count) 0 0"

section \<open>Reading and writing tags\<close>

text \<open>The loops that copy bits from one position on to another, and that set a range of bits.\<close>

primrec copy_bits :: "byte list \<Rightarrow> nat \<Rightarrow> byte list \<Rightarrow> nat \<Rightarrow> nat \<Rightarrow> byte list option" where
  "copy_bits src i dst j 0 = Some dst"
| "copy_bits src i dst j (Suc k) =
    do {
      dst1 \<leftarrow> copy_bits src i dst j k;
      b \<leftarrow> arr_get src (int ((i + k) div 8));
      if bit b ((i + k) mod 8) then
        do {
          d \<leftarrow> arr_get dst1 (int ((j + k) div 8));
          arr_set dst1 (int ((j + k) div 8)) (d OR push_bit ((j + k) mod 8) 1)
        }
      else Some dst1
    }"

primrec fill_bits :: "byte list \<Rightarrow> nat \<Rightarrow> nat \<Rightarrow> byte list option" where
  "fill_bits dst j 0 = Some dst"
| "fill_bits dst j (Suc k) =
    do {
      dst1 \<leftarrow> fill_bits dst j k;
      d \<leftarrow> arr_get dst1 (int ((j + k) div 8));
      arr_set dst1 (int ((j + k) div 8)) (d OR push_bit ((j + k) mod 8) 1)
    }"

text \<open>
  Requests that do not fit into one message are cut at multiples of the type's size. A remainder smaller
  than that is requested with size zero forever.
\<close>

definition cut_size :: "int \<Rightarrow> int \<Rightarrow> nat \<Rightarrow> nat" where
  "cut_size tsize width most =
    (let rsize = min tsize (int most) in nat (rsize - rsize mod width))"

text \<open>The comparison of a signed size with the unsigned limit.\<close>

definition over :: "int \<Rightarrow> nat \<Rightarrow> bool" where
  "over width most \<longleftrightarrow> width < 0 \<or> int most < width"

partial_function (option) read_parts ::
  "env \<Rightarrow> server \<Rightarrow> dax_state \<Rightarrow> int \<Rightarrow> u32 \<Rightarrow> byte list \<Rightarrow> int \<Rightarrow> nat \<Rightarrow> int \<Rightarrow> (int \<times> byte list \<times> server \<times> dax_state) option" where
  "read_parts E s ds idx byte buf tsize n width =
    (if tsize \<le> 0 then Some (0, buf, s, ds)
     else
       let rsize = cut_size tsize width MSG_DATA_SIZE
       in if length buf < n then None
          else do {
            (r, part, s1, ds1) \<leftarrow> dax_read E s ds idx (byte + of_nat n) (drop n buf) rsize;
            if r \<noteq> 0 then Some (r, take n buf @ part, s1, ds1)
            else read_parts E s1 ds1 idx byte (take n buf @ part) (tsize - int rsize) (n + rsize) width
          })"

definition dax_tag_read ::
  "env \<Rightarrow> server \<Rightarrow> dax_state \<Rightarrow> bool \<Rightarrow> tag_handle \<Rightarrow> byte list \<Rightarrow> (int \<times> byte list \<times> server \<times> dax_state) option" where
  "dax_tag_read E s ds mem h buf =
    do {
      let size = unat (h_size h);
      (r, buf1, s1, ds1) \<leftarrow>
        (if MSG_DATA_SIZE < size then
           do {
             width \<leftarrow> dax_get_typesize ds (h_type h);
             if over width MSG_DATA_SIZE then Some (ERR_2BIG, buf, s, ds)
             else if width = 0 then None
             else read_parts E s ds (h_index h) (h_byte h) buf (int_of_u32 (h_size h)) 0 width
           }
         else dax_read E s ds (h_index h) (h_byte h) buf size);
      if r \<noteq> 0 then Some (r, buf1, s1, ds1)
      else if h_type h = DAX_BOOL then
        (if \<not> mem then Some (ERR_ALLOC, buf1, s1, ds1)
         else do {
           new \<leftarrow> copy_bits buf1 (unat (h_bit h)) (replicate size 0) 0 (unat (h_count h));
           buf2 \<leftarrow> mem_put buf1 0 new;
           Some (0, buf2, s1, ds1)
         })
      else do {
        f \<leftarrow> read_format ds1 (h_type h) (h_count h) buf1;
        Some (f, buf1, s1, ds1)
      }
    }"

partial_function (option) write_parts ::
  "env \<Rightarrow> server \<Rightarrow> dax_state \<Rightarrow> int \<Rightarrow> u32 \<Rightarrow> byte list \<Rightarrow> int \<Rightarrow> nat \<Rightarrow> int \<Rightarrow> (int \<times> server \<times> dax_state) option" where
  "write_parts E s ds idx byte data tsize n width =
    (if tsize \<le> 0 then Some (0, s, ds)
     else
       let rsize = cut_size tsize width (MSG_DATA_SIZE - 8)
       in if length data < n then None
          else do {
            (r, s1, ds1) \<leftarrow> dax_write E s ds idx (byte + of_nat n) (drop n data) rsize;
            if r \<noteq> 0 then Some (r, s1, ds1)
            else write_parts E s1 ds1 idx byte data (tsize - int rsize) (n + rsize) width
          })"

partial_function (option) mask_parts ::
  "env \<Rightarrow> server \<Rightarrow> dax_state \<Rightarrow> int \<Rightarrow> u32 \<Rightarrow> byte list \<Rightarrow> byte list \<Rightarrow> int \<Rightarrow> nat \<Rightarrow> int \<Rightarrow> (int \<times> server \<times> dax_state) option" where
  "mask_parts E s ds idx byte data msk tsize n width =
    (if tsize \<le> 0 then Some (0, s, ds)
     else
       let rsize = cut_size tsize width ((MSG_DATA_SIZE - 8) div 2)
       in if length data < n \<or> length msk < n then None
          else do {
            (r, s1, ds1) \<leftarrow> dax_mask E s ds idx (byte + of_nat n) (drop n data) (drop n msk) rsize;
            if r \<noteq> 0 then Some (r, s1, ds1)
            else mask_parts E s1 ds1 idx byte data msk (tsize - int rsize) (n + rsize) width
          })"

text \<open>
  \<^verbatim>\<open>dax_tag_write\<close>: bits go through a mask. One more byte is taken when there is a bit offset and
  the number of bits is a multiple of eight.
\<close>

definition dax_tag_write ::
  "env \<Rightarrow> server \<Rightarrow> dax_state \<Rightarrow> bool \<Rightarrow> tag_handle \<Rightarrow> byte list \<Rightarrow> (int \<times> server \<times> dax_state) option" where
  "dax_tag_write E s ds mem h data =
    (if h_type h = DAX_BOOL \<and> (0 < h_bit h \<or> h_count h mod 8 \<noteq> 0) then
       (let size = unat (h_size h) + (if h_bit h \<noteq> 0 \<and> h_count h mod 8 = 0 then 1 else 0) in
        if \<not> mem then Some (ERR_ALLOC, s, ds)
        else do {
          new \<leftarrow> copy_bits data 0 (replicate size 0) (unat (h_bit h) mod 8) (unat (h_count h));
          msk \<leftarrow> fill_bits (replicate size 0) (unat (h_bit h) mod 8) (unat (h_count h));
          if (MSG_DATA_SIZE - 8) div 2 < unat (h_size h) then
            do {
              width \<leftarrow> dax_get_typesize ds (h_type h);
              if over width ((MSG_DATA_SIZE - 8) div 2) then Some (ERR_2BIG, s, ds)
              else if width = 0 then None
              else mask_parts E s ds (h_index h) (h_byte h) new msk (int size) 0 width
            }
          else dax_mask E s ds (h_index h) (h_byte h) new msk size
        })
     else do {
       f \<leftarrow> write_format ds (h_type h) (h_count h) data;
       if f \<noteq> 0 then Some (f, s, ds)
       else if MSG_DATA_SIZE - 8 < unat (h_size h) then
         do {
           width \<leftarrow> dax_get_typesize ds (h_type h);
           if over width (MSG_DATA_SIZE - 8) then Some (ERR_2BIG, s, ds)
           else if width = 0 then None
           else write_parts E s ds (h_index h) (h_byte h) data (int_of_u32 (h_size h)) 0 width
         }
       else dax_write E s ds (h_index h) (h_byte h) data (unat (h_size h))
     })"

end
