(* ===== verification/Client_Laws.thy ===== *)
theory Client_Laws
  imports Client_Data Memory_Safety
begin

text \<open>
  How the requests of the client library and the handlers of the server fit together: the framing of
  messages, a request through the dispatcher, and reading and writing of tags that have no
  events, mappings or overrides.
\<close>

section \<open>Framing\<close>

lemma net32_length [simp]: "length (net32 w) = 4"
  by (simp add: net32_def)

lemma be_dec_net32 [simp]: "be_dec (net32 w) = unat w"
  using unat_bound [of w] by (simp add: net32_def)

lemma get_header_done [simp]: "8 \<le> length acc \<Longrightarrow> get_header acc cs = (Inr acc, cs)"
  by (subst get_header.simps) simp

lemma get_body_done [simp]: "n \<le> length acc \<Longrightarrow> get_body n acc cs = (Inr acc, cs)"
  by (subst get_body.simps) simp

lemma get_body_chunks:
  assumes "[] \<notin> set ps" and "concat ps = d @ rest"
  shows "\<exists>cs. get_body (length acc + length d) acc (map S_bytes ps) = (Inr (acc @ d), map S_bytes cs) \<and>
    concat cs = rest \<and> [] \<notin> set cs"
  using assms
proof (induction ps arbitrary: acc d)
  case Nil
  then show ?case by (subst get_body.simps) auto
next
  case (Cons c ps)
  show ?case
  proof (cases "d = []")
    case True
    with Cons.prems show ?thesis by (subst get_body.simps) (auto intro: exI [of _ "c # ps"])
  next
    case False
    then have n: "\<not> length acc + length d \<le> length acc" by simp
    show ?thesis
    proof (cases "length c \<le> length d")
      case True
      from Cons.prems(2) True obtain d' where d: "d = c @ d'" "concat ps = d' @ rest"
        by (auto simp: append_eq_append_conv2)
      from Cons.IH [of d' "acc @ c"] Cons.prems(1) d obtain cs where
        "get_body (length (acc @ c) + length d') (acc @ c) (map S_bytes ps) = (Inr ((acc @ c) @ d'), map S_bytes cs)"
        "concat cs = rest" "[] \<notin> set cs" by auto
      with n True Cons.prems(1) d show ?thesis by (subst get_body.simps) (auto simp: add.assoc)
    next
      case big: False
      from Cons.prems(2) big obtain c' where c: "c = d @ c'" "rest = c' @ concat ps" "c' \<noteq> []"
        by (auto simp: append_eq_append_conv2)
      have "get_body (length acc + length d) acc (map S_bytes (c # ps)) =
          get_body (length acc + length d) (acc @ d) (map S_bytes (c' # ps))"
        using n False c big by (subst get_body.simps) auto
      also have "\<dots> = (Inr (acc @ d), map S_bytes (c' # ps))" by (subst get_body.simps) simp
      finally show ?thesis using c Cons.prems(1) by (intro exI [of _ "c' # ps"]) auto
    qed
  qed
qed

lemma get_header_once:
  assumes "8 \<le> length c"
  shows "get_header [] (S_bytes c # cs) = (Inr (take 8 c), if length c = 8 then cs else S_bytes (drop 8 c) # cs)"
  using assms by (subst get_header.simps) auto

lemma take_header: "take 8 (net32 a @ net32 b @ d) = net32 a @ net32 b" "drop 8 (net32 a @ net32 b @ d) = d"
  by simp_all

text \<open>A message whose header comes in one piece, in front of whatever follows it.\<close>

lemma message_get_chunks:
  assumes "8 \<le> length c" and "[] \<notin> set ps" and "c @ concat ps = net32 (of_nat (length d)) @ net32 ty @ d @ rest"
    and "length d \<le> MSG_DATA_SIZE"
  shows "\<exists>cs. message_get (map S_bytes (c # ps)) = Some (Inr (ty, d), map S_bytes cs) \<and> concat cs = rest"
proof -
  have n: "unat (of_nat (length d) :: u32) = length d" using assms(4) by (simp add: unat_of_nat MSG_DATA_SIZE_def)
  have h: "take 8 c = net32 (of_nat (length d)) @ net32 ty" and c: "drop 8 c @ concat ps = d @ rest"
    using assms(1) arg_cong [OF assms(3), of "take 8"] arg_cong [OF assms(3), of "drop 8"] by simp_all
  let ?qs = "if length c = 8 then ps else drop 8 c # ps"
  have "[] \<notin> set ?qs" "concat ?qs = d @ rest" using assms(1,2) c by auto
  from get_body_chunks [OF this, of "[]"] obtain cs where
    b: "get_body (length d) [] (map S_bytes ?qs) = (Inr d, map S_bytes cs)" "concat cs = rest" by auto
  have "message_get (map S_bytes (c # ps)) =
      (case get_body (length d) [] (map S_bytes ?qs) of
         (Inl e, cs2) \<Rightarrow> Some (Inl e, cs2) | (Inr d, cs2) \<Rightarrow> Some (Inr (ty, d), cs2))"
    using get_header_once [OF assms(1), of "map S_bytes ps"] h n assms(4)
    by (auto simp: message_get_def Let_def split: sum.split prod.split)
  with b show ?thesis by auto
qed

lemma message_get_one:
  assumes "length d \<le> MSG_DATA_SIZE"
  shows "message_get [S_bytes (net32 (of_nat (length d)) @ net32 ty @ d)] = Some (Inr (ty, d), [])"
proof -
  have n: "unat (of_nat (length d) :: u32) = length d" using assms by (simp add: unat_of_nat MSG_DATA_SIZE_def)
  have b: "get_body (length d) [] [S_bytes d] = (Inr d, [])" if "d \<noteq> []"
    using that by (subst get_body.simps) simp
  show ?thesis
    using assms n b get_header_once [of "net32 (of_nat (length d)) @ net32 ty @ d" "[]"]
    by (cases "d = []") (auto simp: message_get_def)
qed

text \<open>A request through the dispatcher of the server.\<close>

definition request_msg :: "env \<Rightarrow> int \<Rightarrow> u32 \<Rightarrow> byte list \<Rightarrow> dax_message" where
  "request_msg E fd command payload =
    \<lparr>x_size = of_nat (length payload), x_type = command,
     x_data = payload @ map (junk E) [length payload..<MSG_DATA_SIZE], x_fd = fd\<rparr>"

lemma dispatch_request:
  assumes "length payload \<le> MSG_DATA_SIZE" and "command \<noteq> 0" and "command \<le> NUM_COMMANDS"
  shows "msg_dispatcher E s nodes fd (net32 (of_nat (length payload) + 8) @ net32 command @ payload) =
    map_option (\<lambda>(r, s1). (r, s1, buff_free nodes fd))
      ((cmd_arr ! (unat command - 1)) E s (request_msg E fd command payload))"
proof -
  have n: "uint (of_nat (length payload) :: u32) = int (length payload)"
    using assms(1) by (simp add: uint_nat unat_of_nat MSG_DATA_SIZE_def)
  have "unpack_message E fd (net32 (of_nat (length payload) + 8) @ net32 command @ payload) =
      Some (request_msg E fd command payload)"
    using assms(1) by (simp add: unpack_message_def request_msg_def mem_get_def n)
  with assms(2,3) show ?thesis
    by (auto simp: msg_dispatcher_def CHECK_COMMAND_def request_msg_def map_option_case split: option.split)
qed

section \<open>Tags without side effects\<close>

text \<open>
  A plain tag on which nothing else hangs: no event, no mapping, no override that is switched on, and not read-only.
\<close>

definition quiet :: "server \<Rightarrow> int \<Rightarrow> tag_db \<Rightarrow> byte list \<Rightarrow> bool" where
  "quiet s i t b \<longleftrightarrow>
    plain s i t b \<and> t_events t = [] \<and> t_mappings t = [] \<and> \<not> attr_set (t_attr t) TAG_ATTR_READONLY \<and>
    \<not> attr_set (t_attr t) TAG_ATTR_OVR_SET"

definition stored :: "server \<Rightarrow> int \<Rightarrow> tag_db \<Rightarrow> byte list \<Rightarrow> server" where
  "stored s i t b' =
    (set_tag s i (t\<lparr>t_data := D_block b'\<rparr>))
      \<lparr>retained := retained s @ (if attr_set (t_attr t) TAG_ATTR_RETAIN then [Ret_write i] else [])\<rparr>"

lemma quietD:
  assumes "quiet s i t b"
  shows "plain s i t b" "t_events t = []" "t_mappings t = []" "\<not> attr_set (t_attr t) TAG_ATTR_READONLY"
    "\<not> attr_set (t_attr t) TAG_ATTR_OVR_SET" "get_tag s i = Some t" "length b < 2 ^ 31"
  using assms plainD [of s i t b] by (auto simp: quiet_def)

lemma stored_sent [simp]: "sent (stored s i t b') = sent s"
  by (simp add: stored_def)

lemma stored_quiet:
  assumes "quiet s i t b" and "length b' = length b"
  shows "quiet (stored s i t b') i (t\<lparr>t_data := D_block b'\<rparr>) b'"
  using quietD [OF assms(1)] plainD [OF quietD(1) [OF assms(1)]] assms get_tag_Some_range [of s i t]
  by (auto simp: quiet_def plain_def block_tag_def stored_def)

lemma stored_other: "j \<noteq> i \<Longrightarrow> 0 \<le> i \<Longrightarrow> get_tag (stored s i t b') j = get_tag s j"
  by (simp add: stored_def)

lemma tag_store_quiet:
  assumes "quiet s i t b" and "0 \<le> off" and "0 \<le> sz" and "off + sz \<le> int (length b)" and "upd b = Some b'"
    and "length b' = length b"
  shows "tag_store E s fd i t off upd sz = Some (0, stored s i t b')"
proof -
  note q = quietD [OF assms(1)] and p = plainD [OF quietD(1) [OF assms(1)]]
  let ?t = "t\<lparr>t_data := D_block b'\<rparr>" and ?s = "set_tag s i (t\<lparr>t_data := D_block b'\<rparr>)"
  have "int (length b) < 2 ^ 31" using q(7) by simp
  then have lt: "off + sz < 2 ^ 31" using assms(4) by linarith
  have g: "get_tag ?s i = Some ?t" using get_tag_Some_range [OF p(1)] by simp
  have e: "?t\<lparr>t_events := []\<rparr> = ?t" using q(2) by (cases t) simp
  have "event_check E ?s i off sz = Some ?s"
    by (simp add: event_check_def g q(2) e)
  then have "write_finish E ?s i off sz = Some (0, stored s i t b')"
    using g by (auto simp: write_finish_def stored_def ret_tag_write_def set_tag_def)
  then show ?thesis
    using assms lt p tag_get_size_block [OF p(9)] by (simp add: tag_store_def int32_ok_def)
qed

lemma tag_write_quiet:
  assumes "quiet s i t b" and "0 \<le> off" and "sz \<le> length data" and "mem_put b off (take sz data) = Some b'"
  shows "tag_write E s fd i off data (int sz) = Some (0, stored s i t b')"
proof -
  note p = plainD [OF quietD(1) [OF assms(1)]]
  have fit: "off + int sz \<le> int (length b)" using assms(3,4) by (auto simp: mem_put_def split: if_splits)
  have "tag_store E s fd i t off (\<lambda>b. do { src \<leftarrow> mem_get data 0 (int sz); mem_put b off src }) (int sz) =
      Some (0, stored s i t b')"
    using assms fit mem_put_length [OF assms(4)] by (intro tag_store_quiet) (auto simp: mem_get_def)
  with p show ?thesis by (simp add: tag_write_def)
qed

lemma tag_mask_write_quiet:
  assumes "quiet s i t b" and "0 < sz" and "sz \<le> length data" and "sz \<le> length msk" and "off + sz \<le> length b"
    and "mem_put b (int off) (mask_bytes (take sz data) (take sz msk) (take sz (drop off b))) = Some b'"
  shows "tag_mask_write E s fd i (int off) data msk (int sz) = Some (0, stored s i t b')"
proof -
  note p = plainD [OF quietD(1) [OF assms(1)]]
  have "tag_store E s fd i t (int off) (mask_update data msk (int off) (int sz)) (int sz) = Some (0, stored s i t b')"
    using assms mem_put_length [OF assms(6)] by (intro tag_store_quiet) (auto simp: mask_update_def mem_get_def)
  with p show ?thesis by (simp add: tag_mask_write_def)
qed

lemma tag_read_quiet:
  assumes "quiet s i t b" and "off + sz \<le> length b" and "sz \<le> length buf"
  shows "tag_read E s fd i (int off) buf (int sz) = Some (0, take sz (drop off b) @ drop sz buf, s)"
proof -
  note q = quietD [OF assms(1)]
  have "int off + int sz < 2 ^ 31" using q(7) assms(2) by simp
  then show ?thesis
    using tag_read_block [OF plainD(9) [OF q(1)], of "int off" "int sz" buf undefined undefined E fd] assms(2,3) q(5) by simp
qed

section \<open>Requests\<close>

definition answered :: "server \<Rightarrow> int \<Rightarrow> u32 \<Rightarrow> byte list \<Rightarrow> server" where
  "answered s fd ty d = s\<lparr>sent := sent s @ [(fd, net32 (of_nat (length d)) @ net32 ty @ d)]\<rparr>"

lemma answered_quiet: "quiet s i t b \<Longrightarrow> quiet (answered s fd ty d) i t b"
  by (simp add: quiet_def plain_def block_tag_def answered_def)

lemma answered_tag [simp]: "get_tag (answered s fd ty d) j = get_tag s j"
  by (simp add: answered_def)

lemma send_data_answered:
  assumes "xwrite_ok E fd" and "n \<le> length payload" and "n \<le> MSG_DATA_SIZE"
  shows "send_data E s fd command payload (int n) = Some (0, answered s fd (command OR MSG_RESPONSE) (take n payload))"
  using assms by (simp add: send_data_def message_send_def mem_get_def xwrite_def answer_flag_def answered_def u32_of_def min_absorb2)

lemma send_error_answered:
  assumes "xwrite_ok E fd"
  shows "send_error E s fd command e = Some (0, answered s fd (command OR MSG_ERROR) (enc_int e))"
  using assms by (simp add: send_error_def message_send_def mem_get_def xwrite_def answer_flag_def answered_def u32_of_def MSG_DATA_SIZE_def)

lemma written_answered:
  assumes "sent s1 = sent s"
  shows "written s (answered s1 fd ty d) fd = [net32 (of_nat (length d)) @ net32 ty @ d]"
  using assms by (simp add: written_def answered_def)

text \<open>The type words of the answers to the requests for data, tags and types.\<close>

definition data_command :: "u32 \<Rightarrow> bool" where
  "data_command command \<longleftrightarrow>
    command \<in> {MSG_TAG_ADD, MSG_TAG_DEL, MSG_TAG_GET, MSG_TAG_READ, MSG_TAG_WRITE, MSG_TAG_MWRITE, MSG_CDT_CREATE, MSG_CDT_GET}"

lemma data_command_flags:
  assumes "data_command command"
  shows "(command OR MSG_RESPONSE) AND MSG_EVENT = 0" "(command OR MSG_ERROR) AND MSG_EVENT = 0"
    "command OR MSG_RESPONSE \<noteq> command OR MSG_ERROR" "command \<noteq> 0" "command \<le> NUM_COMMANDS"
  using assms by (auto simp: data_command_def MSG_RESPONSE_def MSG_ERROR_def MSG_EVENT_def NUM_COMMANDS_def)

lemma request_response:
  assumes "data_command command" and "0 \<le> sfd ds" and "length payload \<le> MSG_DATA_SIZE" and "length d \<le> MSG_DATA_SIZE"
    and "sent s1 = sent s"
    and "(cmd_arr ! (unat command - 1)) E s (request_msg E (sfd ds) command payload) =
      Some (r, answered s1 (sfd ds) (command OR MSG_RESPONSE) d)"
  shows "message_request E s ds command payload = Some (0, d, answered s1 (sfd ds) (command OR MSG_RESPONSE) d)"
  using assms data_command_flags [OF assms(1)]
  by (simp add: message_request_def message_frame_def dispatch_request written_answered message_get_one)

lemma request_error:
  assumes "data_command command" and "0 \<le> sfd ds" and "length payload \<le> MSG_DATA_SIZE"
    and "sent s1 = sent s" and "int32_ok e"
    and "(cmd_arr ! (unat command - 1)) E s (request_msg E (sfd ds) command payload) =
      Some (r, answered s1 (sfd ds) (command OR MSG_ERROR) (enc_int e))"
  shows "message_request E s ds command payload =
    Some (e, [], answered s1 (sfd ds) (command OR MSG_ERROR) (enc_int e))"
proof -
  have "length (enc_int e) \<le> MSG_DATA_SIZE" by (simp add: MSG_DATA_SIZE_def)
  from message_get_one [OF this] show ?thesis
    using assms data_command_flags [OF assms(1)]
    by (simp add: message_request_def message_frame_def dispatch_request written_answered)
qed

section \<open>The requests for data\<close>

lemma cmd_arr_data:
  "cmd_arr ! (unat MSG_TAG_READ - 1) = msg_tag_read" "cmd_arr ! (unat MSG_TAG_WRITE - 1) = msg_tag_write"
  "cmd_arr ! (unat MSG_TAG_MWRITE - 1) = msg_tag_mask_write" "cmd_arr ! (unat MSG_TAG_GET - 1) = msg_tag_get"
  "cmd_arr ! (unat MSG_CDT_GET - 1) = msg_cdt_get" "cmd_arr ! (unat MSG_CDT_CREATE - 1) = msg_cdt_create"
  by (simp_all add: cmd_arr_def)

text \<open>The first fields of such a request are the index of the tag and the offset.\<close>

lemma request_fields:
  fixes off :: u32
  assumes "int32_ok i"
  shows "msg_int (request_msg E fd command (enc_int i @ enc32 off @ d)) 0 = i"
    and "msg_int (request_msg E fd command (enc_int i @ enc32 off @ d)) 4 = int_of_u32 off"
    and "x_fd (request_msg E fd command p) = fd" and "x_size (request_msg E fd command p) = of_nat (length p)"
  using assms by (simp_all add: msg_int_def msg_u32_def request_msg_def enc_int_def)

lemma request_third:
  assumes "n < 2 ^ 31"
  shows "msg_int (request_msg E fd command (enc_int i @ enc32 off @ enc32 (of_nat n) @ d)) 8 = int n"
  using assms by (simp add: msg_int_def msg_u32_def request_msg_def int_of_u32_nat)

lemma quiet_offset:
  assumes "quiet s i t b" and "unat off + n \<le> length b"
  shows "int_of_u32 off = int (unat off)" and "n < 2 ^ 31"
proof -
  have "unat off < 2 ^ 31" "n < 2 ^ 31" using quietD(7) [OF assms(1)] assms(2) by linarith+
  then show "int_of_u32 off = int (unat off)" and "n < 2 ^ 31" by (simp_all only: int_of_u32_unat)
qed

lemma dax_read_quiet:
  assumes "quiet s i t b" and "int32_ok i" and "0 \<le> sfd ds" and "xwrite_ok E (sfd ds)" and "n \<le> MSG_DATA_SIZE"
    and "unat off + n \<le> length b" and "n \<le> length buf"
  shows "dax_read E s ds i off buf n =
    Some (0, take n (drop (unat off) b) @ drop n buf,
      answered s (sfd ds) (MSG_TAG_READ OR MSG_RESPONSE) (take n (drop (unat off) b)), ds)"
proof -
  note o = quiet_offset [OF assms(1,6)]
  let ?d = "take n (drop (unat off) b)"
  let ?p = "enc_int i @ enc32 off @ enc32 (of_nat n) @ [junk E 12, junk E 13]"
  have len: "length ?d = n" using assms(6) by simp
  have "tag_read E s (sfd ds) i (int (unat off)) (map (junk E) [0..<MSG_DATA_SIZE]) (int n) =
      Some (0, ?d @ drop n (map (junk E) [0..<MSG_DATA_SIZE]), s)"
    using assms(5) by (intro tag_read_quiet [OF assms(1,6)]) simp
  then have "msg_tag_read E s (request_msg E (sfd ds) MSG_TAG_READ ?p) =
      Some (0, answered s (sfd ds) (MSG_TAG_READ OR MSG_RESPONSE) ?d)"
    using assms(2,4,5) o len
    by (simp add: msg_tag_read_def request_fields request_third send_data_answered del: of_nat_unat)
  then have "message_request E s ds MSG_TAG_READ ?p = Some (0, ?d, answered s (sfd ds) (MSG_TAG_READ OR MSG_RESPONSE) ?d)"
    using assms(3,5) len by (intro request_response) (simp_all add: data_command_def MSG_DATA_SIZE_def cmd_arr_data [simplified])
  then show ?thesis
    using assms(5,7) len by (simp add: dax_read_def drop_deleted_def mem_put_def)
qed

lemma quiet_access:
  assumes "quiet s i t b"
  shows "is_tag_readonly s i = Some False" "is_tag_owned s fd i \<noteq> None"
  using quietD [OF assms] by (simp_all add: is_tag_readonly_def tag_attr_is_def is_tag_owned_def)

lemma after_write_stored:
  assumes "quiet s i t b" and "length b' = length b" and "xwrite_ok E fd"
  shows "after_write E (stored s i t b') fd command 0 i off n =
    Some (0, answered (stored s i t b') fd (command OR MSG_RESPONSE) [])"
proof -
  note q = quietD [OF stored_quiet [OF assms(1,2)]]
  have "map_check E (stored s i t b') i off n = Some (0, stored s i t b')"
    using q(3,6) by (simp add: map_check_def)
  with send_data_answered [OF assms(3), of 0 "[]"] show ?thesis by (simp add: after_write_def)
qed

lemma dax_write_quiet:
  assumes "quiet s i t b" and "int32_ok i" and "0 \<le> sfd ds" and "xwrite_ok E (sfd ds)" and "n + 8 \<le> MSG_DATA_SIZE"
    and "n \<le> length data" and "mem_put b (int (unat off)) (take n data) = Some b'"
  shows "dax_write E s ds i off data n =
    Some (0, answered (stored s i t b') (sfd ds) (MSG_TAG_WRITE OR MSG_RESPONSE) [], ds)"
proof -
  have fit: "unat off + n \<le> length b" using assms(6,7) by (auto simp: mem_put_def simp del: of_nat_unat split: if_splits)
  note o = quiet_offset [OF assms(1) fit]
  let ?p = "enc_int i @ enc32 off @ take n data"
  let ?m = "request_msg E (sfd ds) MSG_TAG_WRITE ?p"
  have sz: "int_of_u32 (x_size ?m - 8) = int n" using assms(6) o(2) by (simp add: request_msg_def int_of_u32_nat)
  have x: "drop 8 (x_data ?m) = take n data @ map (junk E) [n + 8..<MSG_DATA_SIZE]"
    using assms(6) by (simp add: request_msg_def add.commute)
  have "tag_write E s (sfd ds) i (int (unat off)) (take n data @ map (junk E) [n + 8..<MSG_DATA_SIZE]) (int n) = Some (0, stored s i t b')"
    using assms(6,7) by (intro tag_write_quiet [OF assms(1)]) simp_all
  then have "msg_tag_write E s ?m = Some (0, answered (stored s i t b') (sfd ds) (MSG_TAG_WRITE OR MSG_RESPONSE) [])"
    using quiet_access(1) [OF assms(1)] quiet_access(2) [OF assms(1), of "sfd ds"] sz x o(1) assms(2)
      after_write_stored [OF assms(1) mem_put_length [OF assms(7)] assms(4)]
    by (auto simp: msg_tag_write_def request_fields simp del: of_nat_unat)
  then have "message_request E s ds MSG_TAG_WRITE ?p =
      Some (0, [], answered (stored s i t b') (sfd ds) (MSG_TAG_WRITE OR MSG_RESPONSE) [])"
    using assms(3,5,6) by (intro request_response) (simp_all add: data_command_def MSG_DATA_SIZE_def cmd_arr_data [simplified])
  then show ?thesis using assms(5,6) by (simp add: dax_write_def drop_deleted_def mem_get_def)
qed

lemma mwrite_size:
  fixes n :: nat
  assumes "n < 2 ^ 30"
  shows "int_of_u32 ((of_nat (8 + 2 * n) - 8) div 2) = int n"
proof -
  have "(of_nat (8 + 2 * n) - 8 :: u32) = of_nat (2 * n)" by simp
  moreover have "(of_nat (2 * n) :: u32) div 2 = of_nat n"
    using assms by (intro word_unat_eq_iff [THEN iffD2]) (simp add: unat_div unat_of_nat unat_word_ariths)
  ultimately show ?thesis using assms by (simp add: int_of_u32_nat del: of_nat_add of_nat_mult)
qed

lemma mwrite_message:
  assumes "length d = n" and "length m = n" and "n * 2 + 8 \<le> MSG_DATA_SIZE"
  shows "drop 8 (x_data (request_msg E fd c (enc_int i @ enc32 off @ d @ m))) = d @ m @ map (junk E) [n * 2 + 8..<MSG_DATA_SIZE]"
    and "int_of_u32 ((x_size (request_msg E fd c (enc_int i @ enc32 off @ d @ m)) - 8) div 2) = int n"
    and "\<not> x_size (request_msg E fd c (enc_int i @ enc32 off @ d @ m)) < 8"
proof -
  have e: "n + n + 8 = n * 2 + 8" "length (enc_int i @ enc32 off @ d @ m) = 8 + 2 * n" using assms by simp_all
  show "drop 8 (x_data (request_msg E fd c (enc_int i @ enc32 off @ d @ m))) = d @ m @ map (junk E) [n * 2 + 8..<MSG_DATA_SIZE]"
    using assms by (simp add: request_msg_def add.commute mult_2_right)
  show "int_of_u32 ((x_size (request_msg E fd c (enc_int i @ enc32 off @ d @ m)) - 8) div 2) = int n"
    using mwrite_size [of n] assms(3) unfolding request_msg_def e(2) by (simp add: MSG_DATA_SIZE_def del: of_nat_add of_nat_mult)
  have "unat (of_nat (8 + 2 * n) :: u32) = 8 + 2 * n" using assms(3) by (simp add: unat_of_nat MSG_DATA_SIZE_def del: of_nat_add of_nat_mult)
  then show "\<not> x_size (request_msg E fd c (enc_int i @ enc32 off @ d @ m)) < 8"
    unfolding request_msg_def e(2) by (simp add: word_less_nat_alt del: of_nat_add of_nat_mult)
qed

lemma dax_mask_quiet:
  assumes "quiet s i t b" and "int32_ok i" and "0 \<le> sfd ds" and "xwrite_ok E (sfd ds)" and "n * 2 + 8 \<le> MSG_DATA_SIZE"
    and "0 < n" and "n \<le> length data" and "n \<le> length msk" and "unat off + n \<le> length b"
    and "mem_put b (int (unat off)) (mask_bytes (take n data) (take n msk) (take n (drop (unat off) b))) = Some b'"
  shows "dax_mask E s ds i off data msk n =
    Some (0, answered (stored s i t b') (sfd ds) (MSG_TAG_MWRITE OR MSG_RESPONSE) [], ds)"
proof -
  note o = quiet_offset [OF assms(1,9)]
  let ?d = "take n data" and ?k = "take n msk"
  let ?p = "enc_int i @ enc32 off @ ?d @ ?k"
  let ?m = "request_msg E (sfd ds) MSG_TAG_MWRITE ?p"
  have len: "length ?d = n" "length ?k = n" using assms(7,8) by simp_all
  note m = mwrite_message [OF len assms(5), of E "sfd ds" MSG_TAG_MWRITE i off]
  have x: "drop (8 + n) (x_data ?m) = ?k @ map (junk E) [n * 2 + 8..<MSG_DATA_SIZE]"
    using m(1) len by (simp add: add.commute flip: drop_drop)
  have "tag_mask_write E s (sfd ds) i (int (unat off)) (?d @ ?k @ map (junk E) [n * 2 + 8..<MSG_DATA_SIZE])
      (?k @ map (junk E) [n * 2 + 8..<MSG_DATA_SIZE]) (int n) = Some (0, stored s i t b')"
    using assms(6-10) by (intro tag_mask_write_quiet [OF assms(1)]) simp_all
  then have "msg_tag_mask_write E s ?m = Some (0, answered (stored s i t b') (sfd ds) (MSG_TAG_MWRITE OR MSG_RESPONSE) [])"
    using quiet_access(1) [OF assms(1)] m x o(1) assms(2)
      after_write_stored [OF assms(1) mem_put_length [OF assms(10)] assms(4)]
    by (simp add: msg_tag_mask_write_def request_fields del: of_nat_unat)
  then have "message_request E s ds MSG_TAG_MWRITE ?p =
      Some (0, [], answered (stored s i t b') (sfd ds) (MSG_TAG_MWRITE OR MSG_RESPONSE) [])"
    using assms(3,5) len by (intro request_response) (simp_all add: data_command_def cmd_arr_data [simplified])
  then show ?thesis using assms(5,7,8) by (simp add: dax_mask_def drop_deleted_def mem_get_def)
qed

section \<open>Moving bits\<close>

lemma copy_bits_spec:
  assumes "i + k \<le> 8 * length src" and "j + k \<le> 8 * length dst"
  shows "\<exists>new. copy_bits src i dst j k = Some new \<and> length new = length dst \<and>
    (\<forall>p < 8 * length dst. get_bit new p \<longleftrightarrow> get_bit dst p \<or> j \<le> p \<and> p < j + k \<and> get_bit src (i + (p - j)))"
  using assms
proof (induction k)
  case 0
  then show ?case by auto
next
  case (Suc k)
  then obtain new where new: "copy_bits src i dst j k = Some new" "length new = length dst"
    "\<forall>p < 8 * length dst. get_bit new p \<longleftrightarrow> get_bit dst p \<or> j \<le> p \<and> p < j + k \<and> get_bit src (i + (p - j))" by auto
  have s: "(i + k) div 8 < length src" and q: "j + k < 8 * length new" using Suc.prems new(2) by (simp_all add: bit_pos)
  have d: "(j + k) div 8 < length new" using q by (simp add: bit_pos)
  let ?new = "if get_bit src (i + k) then new[(j + k) div 8 := new ! ((j + k) div 8) OR push_bit ((j + k) mod 8) 1] else new"
  have "copy_bits src i dst j (Suc k) = Some ?new"
    using new(1) s d by (auto simp: get_bit_def arr_set_def)
  moreover have "get_bit ?new p \<longleftrightarrow> get_bit dst p \<or> j \<le> p \<and> p < j + Suc k \<and> get_bit src (i + (p - j))"
    if p: "p < 8 * length dst" for p
    using new(3) p set_bit_at [OF q, of p] new(2) by (auto simp: less_Suc_eq)
  ultimately show ?case using new(2) by (intro exI [of _ ?new]) auto
qed

lemma fill_bits_spec:
  assumes "j + k \<le> 8 * length dst"
  shows "\<exists>new. fill_bits dst j k = Some new \<and> length new = length dst \<and>
    (\<forall>p < 8 * length dst. get_bit new p \<longleftrightarrow> get_bit dst p \<or> j \<le> p \<and> p < j + k)"
  using assms
proof (induction k)
  case 0
  then show ?case by auto
next
  case (Suc k)
  then obtain new where new: "fill_bits dst j k = Some new" "length new = length dst"
    "\<forall>p < 8 * length dst. get_bit new p \<longleftrightarrow> get_bit dst p \<or> j \<le> p \<and> p < j + k" by auto
  have q: "j + k < 8 * length new" using Suc.prems new(2) by simp
  have d: "(j + k) div 8 < length new" using q by (simp add: bit_pos)
  let ?new = "new[(j + k) div 8 := new ! ((j + k) div 8) OR push_bit ((j + k) mod 8) 1]"
  have "fill_bits dst j (Suc k) = Some ?new" using new(1) d by (simp add: arr_set_def)
  moreover have "get_bit ?new p \<longleftrightarrow> get_bit dst p \<or> j \<le> p \<and> p < j + Suc k" if p: "p < 8 * length dst" for p
    using new(3) p set_bit_at [OF q, of p] new(2) by (auto simp: less_Suc_eq)
  ultimately show ?case using new(2) by (intro exI [of _ ?new]) auto
qed

end
