(* ===== verification/Client_Access.thy ===== *)
theory Client_Access
  imports Client_Laws
begin

text \<open>
  The functions \<^verbatim>\<open>dax_tag_read\<close> and \<^verbatim>\<open>dax_tag_write\<close> of the client library against the server: ranges of bits, which are
  shifted on their way, and numbers, in one message or in several.
\<close>

section \<open>Ranges of bits\<close>

text \<open>
  A handle to bits with the bit below eight and as many bytes as the bits meet. The library also makes handles
  with a higher bit, for items of a BOOL member that does not start on a byte (\<^verbatim>\<open>_parse_next_member\<close>); they are left out.
\<close>

definition bool_handle :: "tag_handle \<Rightarrow> bool" where
  "bool_handle h \<longleftrightarrow>
    h_type h = DAX_BOOL \<and> unat (h_bit h) < 8 \<and> 0 < unat (h_count h) \<and>
    unat (h_size h) = (unat (h_bit h) + unat (h_count h) - 1) div 8 + 1"

lemma bool_handle_fits: "bool_handle h \<Longrightarrow> unat (h_bit h) + unat (h_count h) \<le> 8 * unat (h_size h)"
  by (auto simp: bool_handle_def)

text \<open>The bytes that a write of bits sends.\<close>

definition bool_bytes :: "tag_handle \<Rightarrow> nat" where
  "bool_bytes h = unat (h_size h) + (if h_bit h \<noteq> 0 \<and> h_count h mod 8 = 0 then 1 else 0)"

lemma count_mod: "h_count h mod 8 = 0 \<longleftrightarrow> unat (h_count h) mod 8 = 0"
  by (simp add: word_unat_eq_iff unat_mod)

text \<open>The bits of the handle within the tag.\<close>

definition bit_start :: "tag_handle \<Rightarrow> nat" where
  "bit_start h = 8 * unat (h_byte h) + unat (h_bit h)"

lemma dax_tag_write_bool:
  assumes q: "quiet s (h_index h) t b" and i: "int32_ok (h_index h)" and fd: "0 \<le> sfd ds" and x: "xwrite_ok E (sfd ds)"
    and h: "bool_handle h" and n: "bool_bytes h * 2 + 8 \<le> MSG_DATA_SIZE" and fit: "unat (h_byte h) + bool_bytes h \<le> length b"
    and data: "unat (h_count h) \<le> 8 * length data"
  shows "\<exists>ty b'. dax_tag_write E s ds True h data =
      Some (0, answered (stored s (h_index h) t b') (sfd ds) ty [], ds) \<and> length b' = length b \<and>
    (\<forall>p < 8 * length b. get_bit b' p =
      (if bit_start h \<le> p \<and> p < bit_start h + unat (h_count h) then get_bit data (p - bit_start h) else get_bit b p))"
proof (cases "0 < h_bit h \<or> h_count h mod 8 \<noteq> 0")
  case True
  let ?n = "bool_bytes h" and ?k = "unat (h_count h)" and ?o = "unat (h_byte h)"
  have tb: "h_type h = DAX_BOOL" using h by (simp add: bool_handle_def)
  have bit: "unat (h_bit h) mod 8 = unat (h_bit h)" using h by (simp add: bool_handle_def)
  have room: "unat (h_bit h) + ?k \<le> 8 * ?n" using bool_handle_fits [OF h] by (auto simp: bool_bytes_def)
  obtain new where new: "copy_bits data 0 (replicate ?n 0) (unat (h_bit h)) ?k = Some new" "length new = ?n"
    "\<forall>p < 8 * ?n. get_bit new p \<longleftrightarrow> unat (h_bit h) \<le> p \<and> p < unat (h_bit h) + ?k \<and> get_bit data (p - unat (h_bit h))"
    using copy_bits_spec [of 0 ?k data "unat (h_bit h)" "replicate ?n 0"] data room by auto
  obtain msk where msk: "fill_bits (replicate ?n 0) (unat (h_bit h)) ?k = Some msk" "length msk = ?n"
    "\<forall>p < 8 * ?n. get_bit msk p \<longleftrightarrow> unat (h_bit h) \<le> p \<and> p < unat (h_bit h) + ?k"
    using fill_bits_spec [of "unat (h_bit h)" ?k "replicate ?n 0"] room by auto
  have pos: "0 < ?n" using room h by (simp add: bool_handle_def)
  let ?new = "mask_bytes (take ?n new) (take ?n msk) (take ?n (drop ?o b))"
  have "length ?new = ?n" using fit by simp
  with fit obtain b' where b': "mem_put b (int ?o) ?new = Some b'" by (auto simp: mem_put_def simp del: of_nat_unat)
  have "dax_mask E s ds (h_index h) (h_byte h) new msk ?n =
      Some (0, answered (stored s (h_index h) t b') (sfd ds) (MSG_TAG_MWRITE OR MSG_RESPONSE) [], ds)"
    using new(2) msk(2) by (intro dax_mask_quiet [OF q i fd x n pos _ _ fit b']) simp_all
  moreover have "\<not> (MSG_DATA_SIZE - 8) div 2 < unat (h_size h)" using n by (simp add: bool_bytes_def MSG_DATA_SIZE_def split: if_splits)
  ultimately have "dax_tag_write E s ds True h data =
      Some (0, answered (stored s (h_index h) t b') (sfd ds) (MSG_TAG_MWRITE OR MSG_RESPONSE) [], ds)"
    using True new(1) msk(1) tb unfolding dax_tag_write_def bool_bytes_def [symmetric] Let_def bit by simp
  moreover have "get_bit b' p =
      (if bit_start h \<le> p \<and> p < bit_start h + ?k then get_bit data (p - bit_start h) else get_bit b p)"
    if p: "p < 8 * length b" for p
  proof -
    have "get_bit b' p = (if 8 * ?o \<le> p \<and> p < 8 * (?o + ?n) \<and> get_bit msk (p - 8 * ?o) then get_bit new (p - 8 * ?o) else get_bit b p)"
      using new(2) msk(2) fit p by (intro mask_put_bits [OF b']) simp_all
    then show ?thesis using new(3) msk(3) room by (auto simp: bit_start_def)
  qed
  ultimately show ?thesis using mem_put_length [OF b'] by blast
next
  case False
  let ?n = "unat (h_size h)" and ?k = "unat (h_count h)" and ?o = "unat (h_byte h)"
  have b0: "h_bit h = 0" "?k mod 8 = 0" using False by (auto simp: count_mod word_gt_0)
  have k: "?k = 8 * ?n"
  proof -
    obtain m where m: "?k = 8 * m" using b0(2) by (auto simp: mod_eq_0_iff_dvd)
    then have "(?k - 1) div 8 + 1 = m" using h by (cases m) (auto simp: bool_handle_def)
    with m h b0 show ?thesis by (simp add: bool_handle_def)
  qed
  have nn: "bool_bytes h = ?n" using b0 by (simp add: bool_bytes_def)
  have len: "?n \<le> length data" using data k by simp
  with fit nn obtain b' where b': "mem_put b (int ?o) (take ?n data) = Some b'" by (auto simp: mem_put_def simp del: of_nat_unat)
  have "dax_write E s ds (h_index h) (h_byte h) data ?n =
      Some (0, answered (stored s (h_index h) t b') (sfd ds) (MSG_TAG_WRITE OR MSG_RESPONSE) [], ds)"
    using n nn by (intro dax_write_quiet [OF q i fd x _ len b']) simp
  moreover have "write_format ds (h_type h) (h_count h) data = Some 0"
    using h by (simp add: bool_handle_def write_format_def drop_queue_def IS_CUSTOM_def base_types_def TYPESIZE_def)
  ultimately have "dax_tag_write E s ds True h data =
      Some (0, answered (stored s (h_index h) t b') (sfd ds) (MSG_TAG_WRITE OR MSG_RESPONSE) [], ds)"
    using False n nn by (simp add: dax_tag_write_def MSG_DATA_SIZE_def)
  moreover have "get_bit b' p =
      (if bit_start h \<le> p \<and> p < bit_start h + ?k then get_bit data (p - bit_start h) else get_bit b p)"
    if p: "p < 8 * length b" for p
  proof -
    have "get_bit (take ?n data) q = get_bit data q" if "q < 8 * ?n" for q using that by (simp add: get_bit_def bit_pos)
    then show ?thesis using mem_put_bits [OF b' p] b0 k len by (auto simp: bit_start_def min_absorb2)
  qed
  ultimately show ?thesis using mem_put_length [OF b'] by blast
qed

lemma dax_tag_read_bool:
  assumes q: "quiet s (h_index h) t b" and i: "int32_ok (h_index h)" and fd: "0 \<le> sfd ds" and x: "xwrite_ok E (sfd ds)"
    and h: "bool_handle h" and n: "unat (h_size h) \<le> MSG_DATA_SIZE" and fit: "unat (h_byte h) + unat (h_size h) \<le> length b"
    and buf: "length buf = unat (h_size h)"
  shows "\<exists>ty d buf'. dax_tag_read E s ds True h buf = Some (0, buf', answered s (sfd ds) ty d, ds) \<and>
    length buf' = length buf \<and>
    (\<forall>p < 8 * length buf. get_bit buf' p \<longleftrightarrow> p < unat (h_count h) \<and> get_bit b (bit_start h + p))"
proof -
  let ?d = "take (unat (h_size h)) (drop (unat (h_byte h)) b)"
  have len: "length ?d = unat (h_size h)" using fit by simp
  have r: "dax_read E s ds (h_index h) (h_byte h) buf (unat (h_size h)) =
      Some (0, ?d, answered s (sfd ds) (MSG_TAG_READ OR MSG_RESPONSE) ?d, ds)"
    using dax_read_quiet [OF q i fd x n fit, of buf] buf by simp
  obtain new where new: "copy_bits ?d (unat (h_bit h)) (replicate (unat (h_size h)) 0) 0 (unat (h_count h)) = Some new"
    "length new = unat (h_size h)"
    "\<forall>p < 8 * unat (h_size h). get_bit new p \<longleftrightarrow> p < unat (h_count h) \<and> get_bit ?d (unat (h_bit h) + p)"
    using copy_bits_spec [of "unat (h_bit h)" "unat (h_count h)" ?d 0 "replicate (unat (h_size h)) 0"] bool_handle_fits [OF h] len by auto
  have "dax_tag_read E s ds True h buf = Some (0, new, answered s (sfd ds) (MSG_TAG_READ OR MSG_RESPONSE) ?d, ds)"
    using r new(1,2) len n h by (simp add: dax_tag_read_def bool_handle_def mem_put_def Let_def)
  moreover have "get_bit ?d (unat (h_bit h) + p) = get_bit b (bit_start h + p)" if "p < unat (h_count h)" for p
  proof -
    have lt: "unat (h_bit h) + p < 8 * unat (h_size h)" using that bool_handle_fits [OF h] by simp
    have e: "bit_start h + p = 8 * unat (h_byte h) + (unat (h_bit h) + p)" by (simp add: bit_start_def)
    have "(bit_start h + p) div 8 = unat (h_byte h) + (unat (h_bit h) + p) div 8"
      "(bit_start h + p) mod 8 = (unat (h_bit h) + p) mod 8" unfolding e by (rule div_mult_self4 mod_mult_self4; simp)+
    then show ?thesis using lt fit by (simp add: get_bit_def bit_pos)
  qed
  ultimately show ?thesis using new(2,3) buf by (intro exI conjI) auto
qed

section \<open>Requests in several messages\<close>

lemma cut_size_spec:
  assumes "0 < w" and "w \<le> most" and "0 < n" and "w dvd n"
  shows "0 < cut_size (int n) (int w) most" "cut_size (int n) (int w) most \<le> n" "cut_size (int n) (int w) most \<le> most"
    "w dvd (n - cut_size (int n) (int w) most)"
proof -
  let ?m = "min n most"
  have e: "cut_size (int n) (int w) most = ?m - ?m mod w"
    by (simp add: cut_size_def Let_def of_nat_min [symmetric] of_nat_mod [symmetric] nat_diff_distrib del: of_nat_min of_nat_mod)
  have "w \<le> ?m" using assms dvd_imp_le by simp
  then have "?m mod w < ?m" using assms(1) by (meson mod_less_divisor order_less_le_trans)
  moreover have "w dvd (?m - ?m mod w)" by (simp add: minus_mod_eq_mult_div)
  then have "w dvd (n - (?m - ?m mod w))" by (rule dvd_diff_nat [OF assms(4)])
  ultimately show "0 < cut_size (int n) (int w) most" "cut_size (int n) (int w) most \<le> n"
    "cut_size (int n) (int w) most \<le> most" "w dvd (n - cut_size (int n) (int w) most)"
    unfolding e by (simp_all only: zero_less_diff)
qed

lemma unat_add_offset:
  fixes byte :: u32
  assumes "quiet s i t b" and "unat byte + n \<le> length b"
  shows "unat (byte + of_nat n) = unat byte + n"
  using quietD(7) [OF assms(1)] assms(2) by (subst unat_add_lem [THEN iffD1]) (auto simp: unat_of_nat)

lemma read_parts_quiet:
  assumes "quiet s i t b" and "int32_ok i" and "0 \<le> sfd ds" and "xwrite_ok E (sfd ds)" and "0 < w" and "w \<le> MSG_DATA_SIZE"
    and "w dvd k" and "n + k \<le> length buf" and "unat byte + n + k \<le> length b"
  shows "\<exists>s'. read_parts E s ds i byte buf (int k) n (int w) =
      Some (0, take n buf @ take k (drop (unat byte + n) b) @ drop (n + k) buf, s', ds) \<and>
    quiet s' i t b \<and> (\<forall>j. get_tag s' j = get_tag s j)"
  using assms(1,7-9)
proof (induction k arbitrary: n s buf rule: less_induct)
  case (less k)
  show ?case
  proof (cases "k = 0")
    case True
    then show ?thesis using less.prems by (subst read_parts.simps) auto
  next
    case False
    define r where "r = cut_size (int k) (int w) MSG_DATA_SIZE"
    have r: "0 < r" "r \<le> k" "r \<le> MSG_DATA_SIZE" "w dvd (k - r)"
      using cut_size_spec [OF assms(5,6), of k] False less.prems(2) by (auto simp: r_def)
    have o: "unat (byte + of_nat n) = unat byte + n"
      by (rule unat_add_offset [OF less.prems(1)]) (use less.prems(4) in simp)
    let ?d = "take r (drop (unat byte + n) b)"
    let ?s = "answered s (sfd ds) (MSG_TAG_READ OR MSG_RESPONSE) ?d"
    let ?buf = "take n buf @ ?d @ drop (n + r) buf"
    have rd: "dax_read E s ds i (byte + of_nat n) (drop n buf) r = Some (0, ?d @ drop r (drop n buf), ?s, ds)"
      using dax_read_quiet [OF less.prems(1) assms(2-4) r(3), of "byte + of_nat n" "drop n buf"] r(2) less.prems(3,4)
      by (simp add: o)
    have len: "length ?buf = length buf" "length ?d = r" using r(2) less.prems(3,4) by simp_all
    have "\<exists>s'. read_parts E ?s ds i byte ?buf (int (k - r)) (n + r) (int w) =
        Some (0, take (n + r) ?buf @ take (k - r) (drop (unat byte + (n + r)) b) @ drop (n + r + (k - r)) ?buf, s', ds) \<and>
      quiet s' i t b \<and> (\<forall>j. get_tag s' j = get_tag ?s j)"
      using r less.prems len by (intro less.IH answered_quiet) simp_all
    moreover have "take (n + r) ?buf @ take (k - r) (drop (unat byte + (n + r)) b) @ drop (n + r + (k - r)) ?buf =
        take n buf @ take k (drop (unat byte + n) b) @ drop (n + k) buf"
    proof -
      have "take k (drop (unat byte + n) b) = ?d @ take (k - r) (drop r (drop (unat byte + n) b))"
        using take_add [of r "k - r" "drop (unat byte + n) b"] r(2) by simp
      then show ?thesis using r(2) less.prems(3) len(2) by (simp add: ac_simps)
    qed
    moreover have "read_parts E s ds i byte buf (int k) n (int w) = read_parts E ?s ds i byte ?buf (int (k - r)) (n + r) (int w)"
      using False rd less.prems(3) r(2)
      by (subst read_parts.simps) (simp add: r_def [symmetric] Let_def of_nat_diff add.commute)
    ultimately show ?thesis by simp
  qed
qed

lemma write_parts_quiet:
  assumes "quiet s i t b" and "int32_ok i" and "0 \<le> sfd ds" and "xwrite_ok E (sfd ds)" and "0 < w" and "w \<le> MSG_DATA_SIZE - 8"
    and "w dvd k" and "n + k \<le> length data" and "unat byte + n + k \<le> length b"
  shows "\<exists>s' t' b'. write_parts E s ds i byte data (int k) n (int w) = Some (0, s', ds) \<and>
    b' = take (unat byte + n) b @ take k (drop n data) @ drop (unat byte + n + k) b \<and>
    quiet s' i t' b' \<and> (\<forall>j. j \<noteq> i \<longrightarrow> get_tag s' j = get_tag s j)"
  using assms(1,7-9)
proof (induction k arbitrary: n s t b rule: less_induct)
  case (less k)
  show ?case
  proof (cases "k = 0")
    case True
    then show ?thesis using less.prems by (subst write_parts.simps) auto
  next
    case False
    define r where "r = cut_size (int k) (int w) (MSG_DATA_SIZE - 8)"
    have r: "0 < r" "r \<le> k" "r \<le> MSG_DATA_SIZE - 8" "w dvd (k - r)"
      using cut_size_spec [OF assms(5,6), of k] False less.prems(2) by (auto simp: r_def)
    let ?o = "unat byte + n"
    have o: "unat (byte + of_nat n) = ?o"
      by (rule unat_add_offset [OF less.prems(1)]) (use less.prems(4) in simp)
    define b1 where "b1 = take ?o b @ take r (drop n data) @ drop (?o + r) b"
    have put: "mem_put b (int (unat (byte + of_nat n))) (take r (drop n data)) = Some b1"
      unfolding o using r(2) less.prems(3,4) by (simp add: mem_put_def b1_def nat_int_add del: of_nat_unat)
    have len: "length b1 = length b" by (rule mem_put_length [OF put])
    let ?s = "answered (stored s i t b1) (sfd ds) (MSG_TAG_WRITE OR MSG_RESPONSE) []"
    have wr: "dax_write E s ds i (byte + of_nat n) (drop n data) r = Some (0, ?s, ds)"
      using r(2,3) less.prems(3) by (intro dax_write_quiet [OF less.prems(1) assms(2-4) _ _ put]) (simp_all add: MSG_DATA_SIZE_def)
    have q: "quiet ?s i (t\<lparr>t_data := D_block b1\<rparr>) b1"
      by (intro answered_quiet stored_quiet [OF less.prems(1) len])
    have "\<exists>s' t' b'. write_parts E ?s ds i byte data (int (k - r)) (n + r) (int w) = Some (0, s', ds) \<and>
        b' = take (unat byte + (n + r)) b1 @ take (k - r) (drop (n + r) data) @ drop (unat byte + (n + r) + (k - r)) b1 \<and>
        quiet s' i t' b' \<and> (\<forall>j. j \<noteq> i \<longrightarrow> get_tag s' j = get_tag ?s j)"
      using r less.prems len by (intro less.IH [OF _ q]) simp_all
    then obtain s' t' b' where ih: "write_parts E ?s ds i byte data (int (k - r)) (n + r) (int w) = Some (0, s', ds)"
      "b' = take (unat byte + (n + r)) b1 @ take (k - r) (drop (n + r) data) @ drop (unat byte + (n + r) + (k - r)) b1"
      "quiet s' i t' b'" "\<forall>j. j \<noteq> i \<longrightarrow> get_tag s' j = get_tag ?s j" by blast
    have "write_parts E s ds i byte data (int k) n (int w) = Some (0, s', ds)"
      using False wr less.prems(3) r(2) ih(1)
      by (subst write_parts.simps) (simp add: r_def [symmetric] Let_def of_nat_diff)
    moreover have "b' = take ?o b @ take k (drop n data) @ drop (?o + k) b"
    proof -
      have "take k (drop n data) = take r (drop n data) @ take (k - r) (drop r (drop n data))"
        using take_add [of r "k - r" "drop n data"] r(2) by simp
      then show ?thesis using r(2) less.prems(3,4) by (simp add: ih(2) b1_def add.assoc add.commute)
    qed
    moreover have "0 \<le> i" by (rule plainD(2) [OF quietD(1) [OF less.prems(1)]])
    then have "\<forall>j. j \<noteq> i \<longrightarrow> get_tag s' j = get_tag s j" using ih(4) by (simp add: stored_other)
    ultimately show ?thesis using ih(3) by blast
  qed
qed

section \<open>Reading what was written\<close>

lemma base_width:
  assumes "ty \<in> set base_types" and "ty \<noteq> DAX_BOOL"
  shows "TYPESIZE ty div 8 \<in> {1, 2, 4, 8}" "\<not> IS_CUSTOM ty" "drop_queue ty = ty"
    "dax_get_typesize ds ty = Some (int (TYPESIZE ty div 8))"
proof -
  have "TYPESIZE ty div 8 \<in> {1, 2, 4, 8} \<and> \<not> IS_CUSTOM ty \<and> drop_queue ty = ty"
    using assms by (auto simp: base_types_def TYPESIZE_def IS_CUSTOM_def drop_queue_def)
  then show w: "TYPESIZE ty div 8 \<in> {1, 2, 4, 8}" "\<not> IS_CUSTOM ty" "drop_queue ty = ty" by simp_all
  show "dax_get_typesize ds ty = Some (int (TYPESIZE ty div 8))"
    using w assms(1) by (auto simp: dax_get_typesize_def Let_def)
qed

text \<open>A handle to numbers: its size is that of all of them.\<close>

definition number_handle :: "tag_handle \<Rightarrow> bool" where
  "number_handle h \<longleftrightarrow>
    h_type h \<in> set base_types \<and> h_type h \<noteq> DAX_BOOL \<and> unat (h_size h) = unat (h_count h) * (TYPESIZE (h_type h) div 8)"

lemma format_number:
  assumes "number_handle h" and "unat (h_size h) < 2 ^ 31" and "unat (h_size h) \<le> length data"
  shows "read_format ds (h_type h) (h_count h) data = Some 0" "write_format ds (h_type h) (h_count h) data = Some 0"
proof -
  have b: "h_type h \<in> set base_types" "h_type h \<noteq> DAX_BOOL" and sz: "unat (h_size h) = unat (h_count h) * (TYPESIZE (h_type h) div 8)"
    using assms(1) by (auto simp: number_handle_def)
  note w = base_width [OF b]
  have "unat (h_count h) * 1 \<le> unat (h_size h)" unfolding sz using w(1) by (intro mult_le_mono) auto
  then have c: "int_of_u32 (h_count h) = int (unat (h_count h))" using assms(2) by (intro int_of_u32_unat) linarith
  have "int (unat (h_count h)) * int (TYPESIZE (h_type h) div 8) \<le> int (length data)"
    using assms(3) unfolding sz by (simp only: of_nat_mult [symmetric] of_nat_le_iff)
  moreover have "item_bytes (h_type h) \<le> int (TYPESIZE (h_type h) div 8)" by (simp add: item_bytes_def TYPESIZE_def)
  then have "int (unat (h_count h)) * item_bytes (h_type h) \<le> int (unat (h_count h)) * int (TYPESIZE (h_type h) div 8)"
    by (rule mult_left_mono) simp
  ultimately have "int (unat (h_count h)) * item_bytes (h_type h) \<le> int (length data)" by linarith
  then show "read_format ds (h_type h) (h_count h) data = Some 0" "write_format ds (h_type h) (h_count h) data = Some 0"
    using w b by (simp_all add: read_format_def write_format_def Let_def c del: of_nat_unat)
qed

lemma dax_tag_write_number:
  assumes q: "quiet s (h_index h) t b" and i: "int32_ok (h_index h)" and fd: "0 \<le> sfd ds" and x: "xwrite_ok E (sfd ds)"
    and h: "number_handle h" and data: "unat (h_size h) \<le> length data" and fit: "unat (h_byte h) + unat (h_size h) \<le> length b"
  shows "\<exists>s' t' b'. dax_tag_write E s ds mem h data = Some (0, s', ds) \<and>
    b' = take (unat (h_byte h)) b @ take (unat (h_size h)) data @ drop (unat (h_byte h) + unat (h_size h)) b \<and>
    quiet s' (h_index h) t' b' \<and> (\<forall>j. j \<noteq> h_index h \<longrightarrow> get_tag s' j = get_tag s j)"
proof -
  let ?n = "unat (h_size h)" and ?o = "unat (h_byte h)" and ?w = "TYPESIZE (h_type h) div 8"
  have b: "h_type h \<in> set base_types" "h_type h \<noteq> DAX_BOOL" and dv: "?w dvd ?n" using h by (auto simp: number_handle_def)
  note w = base_width [OF b]
  have lt: "?n < 2 ^ 31" using quietD(7) [OF q] fit by simp
  note f = format_number(2) [OF h lt data, of ds]
  show ?thesis
  proof (cases "MSG_DATA_SIZE - 8 < ?n")
    case True
    have sz: "int_of_u32 (h_size h) = int ?n" by (rule int_of_u32_unat [OF lt])
    have "dax_tag_write E s ds mem h data = write_parts E s ds (h_index h) (h_byte h) data (int ?n) 0 (int ?w)"
      using f True w b sz by (auto simp: dax_tag_write_def over_def MSG_DATA_SIZE_def simp del: of_nat_unat)
    moreover have "0 < ?w" "?w \<le> MSG_DATA_SIZE - 8" using w(1) by (auto simp: MSG_DATA_SIZE_def)
    from write_parts_quiet [OF q i fd x this dv, of 0 data "h_byte h"] data fit
    have "\<exists>s' t' b'. write_parts E s ds (h_index h) (h_byte h) data (int ?n) 0 (int ?w) = Some (0, s', ds) \<and>
      b' = take ?o b @ take ?n data @ drop (?o + ?n) b \<and> quiet s' (h_index h) t' b' \<and>
      (\<forall>j. j \<noteq> h_index h \<longrightarrow> get_tag s' j = get_tag s j)" by simp
    ultimately show ?thesis by simp
  next
    case False
    define b' where "b' = take ?o b @ take ?n data @ drop (?o + ?n) b"
    have put: "mem_put b (int ?o) (take ?n data) = Some b'"
      using data fit by (simp add: mem_put_def b'_def min_absorb2 del: of_nat_unat)
    let ?s = "answered (stored s (h_index h) t b') (sfd ds) (MSG_TAG_WRITE OR MSG_RESPONSE) []"
    have "dax_write E s ds (h_index h) (h_byte h) data ?n = Some (0, ?s, ds)"
      using False by (intro dax_write_quiet [OF q i fd x _ data put]) (simp add: MSG_DATA_SIZE_def)
    then have "dax_tag_write E s ds mem h data = Some (0, ?s, ds)"
      using f False b by (simp add: dax_tag_write_def)
    moreover have "quiet ?s (h_index h) (t\<lparr>t_data := D_block b'\<rparr>) b'"
      by (intro answered_quiet stored_quiet [OF q mem_put_length [OF put]])
    moreover have "\<forall>j. j \<noteq> h_index h \<longrightarrow> get_tag ?s j = get_tag s j"
      using plainD(2) [OF quietD(1) [OF q]] by (simp add: stored_other)
    ultimately show ?thesis unfolding b'_def by blast
  qed
qed

lemma dax_tag_read_number:
  assumes q: "quiet s (h_index h) t b" and i: "int32_ok (h_index h)" and fd: "0 \<le> sfd ds" and x: "xwrite_ok E (sfd ds)"
    and h: "number_handle h" and buf: "unat (h_size h) \<le> length buf" and fit: "unat (h_byte h) + unat (h_size h) \<le> length b"
  shows "\<exists>s'. dax_tag_read E s ds mem h buf = Some (0, take (unat (h_size h)) (drop (unat (h_byte h)) b) @ drop (unat (h_size h)) buf, s', ds) \<and>
    quiet s' (h_index h) t b \<and> (\<forall>j. get_tag s' j = get_tag s j)"
proof -
  let ?n = "unat (h_size h)" and ?o = "unat (h_byte h)" and ?w = "TYPESIZE (h_type h) div 8"
  have b: "h_type h \<in> set base_types" "h_type h \<noteq> DAX_BOOL" and dv: "?w dvd ?n" using h by (auto simp: number_handle_def)
  note w = base_width [OF b]
  have lt: "?n < 2 ^ 31" using quietD(7) [OF q] fit by simp
  let ?d = "take ?n (drop ?o b)"
  have f: "read_format ds (h_type h) (h_count h) (?d @ drop ?n buf) = Some 0"
    using fit by (intro format_number(1) [OF h lt]) simp
  show ?thesis
  proof (cases "MSG_DATA_SIZE < ?n")
    case True
    have sz: "int_of_u32 (h_size h) = int ?n" by (rule int_of_u32_unat [OF lt])
    have "0 < ?w" "?w \<le> MSG_DATA_SIZE" using w(1) by (auto simp: MSG_DATA_SIZE_def)
    from read_parts_quiet [OF q i fd x this dv, of 0 buf "h_byte h"] buf fit
    obtain s' where "read_parts E s ds (h_index h) (h_byte h) buf (int ?n) 0 (int ?w) = Some (0, ?d @ drop ?n buf, s', ds)"
      "quiet s' (h_index h) t b" "\<forall>j. get_tag s' j = get_tag s j" by auto
    with f True w b sz show ?thesis by (auto simp: dax_tag_read_def over_def MSG_DATA_SIZE_def Let_def simp del: of_nat_unat)
  next
    case False
    have "dax_read E s ds (h_index h) (h_byte h) buf ?n =
        Some (0, ?d @ drop ?n buf, answered s (sfd ds) (MSG_TAG_READ OR MSG_RESPONSE) ?d, ds)"
      using dax_read_quiet [OF q i fd x _ fit, of buf] buf False by simp
    with f False b answered_quiet [OF q] show ?thesis by (simp add: dax_tag_read_def Let_def)
  qed
qed

end
