(* ===== verification/Client_Properties.thy ===== *)
theory Client_Properties
  imports Client_Access Server_Properties
begin

text \<open>
  Properties of the client library together with the server: what a module that writes and another one that
  reads a tag see, for numbers and for ranges of bits, and the framing of the messages between them.
\<close>

section \<open>Clients of the small server\<close>

definition demo_client :: "int \<Rightarrow> dax_state" where
  "demo_client fd = \<lparr>sfd = fd, types = [], tagcache = cache3\<rparr>"

lemma demo_client_sfd [simp]: "sfd (demo_client fd) = fd"
  by (simp add: demo_client_def)

lemma demo_quiet: "quiet demo 0 demo_tag [1, 2, 3, 4, 5, 6, 7, 8]"
  using demo_plain by (simp add: quiet_def attr_set_def) (simp add: demo_tag_def tag_zero_def)

lemma env0_xwrite [simp]: "xwrite_ok env0 fd"
  by (simp add: env0_def)

section \<open>Writing and reading through the server\<close>

text \<open>C4: What one module writes to a range of numbers with the client library, another module reads
  back from the server with it, byte for byte and whatever the size, also when the range has to be cut into several messages.
  Bytes of the tag outside the range keep their values and no other tag changes. (The tag has no events, mappings or overrides.)\<close>

theorem client_write_read:
  assumes "quiet s (h_index h) t b" and "int32_ok (h_index h)" and "0 \<le> sfd ds" and "xwrite_ok E (sfd ds)"
    and "0 \<le> sfd ds2" and "xwrite_ok E (sfd ds2)" and "number_handle h" and "unat (h_size h) \<le> length data"
    and "length buf = unat (h_size h)" and "unat (h_byte h) + unat (h_size h) \<le> length b"
  shows "\<exists>s1 s2 t2 b2. dax_tag_write E s ds mem h data = Some (0, s1, ds) \<and>
    dax_tag_read E s1 ds2 mem2 h buf = Some (0, take (unat (h_size h)) data, s2, ds2) \<and>
    get_tag s2 (h_index h) = Some t2 \<and> t_data t2 = D_block b2 \<and> length b2 = length b \<and>
    (\<forall>k < length b. k < unat (h_byte h) \<or> unat (h_byte h) + unat (h_size h) \<le> k \<longrightarrow> b2 ! k = b ! k) \<and>
    (\<forall>j. j \<noteq> h_index h \<longrightarrow> get_tag s2 j = get_tag s j)"
proof -
  let ?n = "unat (h_size h)" and ?o = "unat (h_byte h)"
  from dax_tag_write_number [OF assms(1-4,7,8,10), of mem] obtain s1 t1 b1 where
    w: "dax_tag_write E s ds mem h data = Some (0, s1, ds)" "b1 = take ?o b @ take ?n data @ drop (?o + ?n) b"
      "quiet s1 (h_index h) t1 b1" "\<forall>j. j \<noteq> h_index h \<longrightarrow> get_tag s1 j = get_tag s j" by blast
  have len: "length b1 = length b" and d: "take ?n (drop ?o b1) = take ?n data" using w(2) assms(8,10) by simp_all
  from dax_tag_read_number [OF w(3) assms(2,5-7), of buf mem2] assms(9,10) len d obtain s2 where
    r: "dax_tag_read E s1 ds2 mem2 h buf = Some (0, take ?n data, s2, ds2)" "\<forall>j. get_tag s2 j = get_tag s1 j" by auto
  have "b1 ! k = b ! k" if "k < length b" "k < ?o \<or> ?o + ?n \<le> k" for k
    using that assms(8,10) by (auto simp: w(2) nth_append min_absorb2)
  with w r len quietD(6) [OF w(3)] plainD(4) [OF quietD(1) [OF w(3)]] show ?thesis
    by (intro exI [of _ s1] exI [of _ s2] exI [of _ t1] exI [of _ b1]) auto
qed

theorem client_write_read_witness:
  "\<exists>s1 s2. dax_tag_write env0 demo (demo_client 5) True \<lparr>h_index = 0, h_byte = 4, h_bit = 0, h_count = 1, h_size = 4, h_type = DAX_DINT\<rparr>
      [90, 91, 92, 93] = Some (0, s1, demo_client 5) \<and>
    dax_tag_read env0 s1 (demo_client 6) True \<lparr>h_index = 0, h_byte = 4, h_bit = 0, h_count = 1, h_size = 4, h_type = DAX_DINT\<rparr>
      [0, 0, 0, 0] = Some (0, [90, 91, 92, 93], s2, demo_client 6)"
  using client_write_read [of demo "\<lparr>h_index = 0, h_byte = 4, h_bit = 0, h_count = 1, h_size = 4, h_type = DAX_DINT\<rparr>"
      demo_tag "[1, 2, 3, 4, 5, 6, 7, 8]" "demo_client 5" env0 "demo_client 6" "[90, 91, 92, 93]" "[0, 0, 0, 0]" True True]
  by (auto simp: demo_quiet int32_ok_def number_handle_def base_types_def TYPESIZE_def)

text \<open>C5: Writing bits through a handle changes exactly the bits of the handle, from whatever bit position on, and reading
  through the same handle delivers them from the first bit of the buffer on, with zeros behind them. All
  other bits of the tag and all other tags keep their values. (\<^verbatim>\<open>bool_bytes\<close> is the number of bytes that the
  library sends; they have to be within the tag and fit into one message.)\<close>

theorem client_bool_write_read:
  assumes "quiet s (h_index h) t b" and "int32_ok (h_index h)" and "0 \<le> sfd ds" and "xwrite_ok E (sfd ds)"
    and "0 \<le> sfd ds2" and "xwrite_ok E (sfd ds2)" and "bool_handle h" and "bool_bytes h * 2 + 8 \<le> MSG_DATA_SIZE"
    and "unat (h_byte h) + bool_bytes h \<le> length b" and "unat (h_count h) \<le> 8 * length data" and "length buf = unat (h_size h)"
  shows "\<exists>s1 s2 buf2 t2 b2. dax_tag_write E s ds True h data = Some (0, s1, ds) \<and>
    dax_tag_read E s1 ds2 True h buf = Some (0, buf2, s2, ds2) \<and>
    length buf2 = length buf \<and> (\<forall>p < 8 * length buf. get_bit buf2 p \<longleftrightarrow> p < unat (h_count h) \<and> get_bit data p) \<and>
    get_tag s2 (h_index h) = Some t2 \<and> t_data t2 = D_block b2 \<and> length b2 = length b \<and>
    (\<forall>p < 8 * length b. p < bit_start h \<or> bit_start h + unat (h_count h) \<le> p \<longrightarrow> get_bit b2 p = get_bit b p) \<and>
    (\<forall>j. j \<noteq> h_index h \<longrightarrow> get_tag s2 j = get_tag s j)"
proof -
  from dax_tag_write_bool [OF assms(1-4,7-10)] obtain ty b1 where
    w: "dax_tag_write E s ds True h data = Some (0, answered (stored s (h_index h) t b1) (sfd ds) ty [], ds)" "length b1 = length b"
      "\<forall>p < 8 * length b. get_bit b1 p =
        (if bit_start h \<le> p \<and> p < bit_start h + unat (h_count h) then get_bit data (p - bit_start h) else get_bit b p)" by blast
  let ?s1 = "answered (stored s (h_index h) t b1) (sfd ds) ty []"
  have q: "quiet ?s1 (h_index h) (t\<lparr>t_data := D_block b1\<rparr>) b1" by (intro answered_quiet stored_quiet [OF assms(1) w(2)])
  have sz: "unat (h_size h) \<le> bool_bytes h" by (simp add: bool_bytes_def)
  then have sz2: "unat (h_size h) \<le> MSG_DATA_SIZE" and fit: "unat (h_byte h) + unat (h_size h) \<le> length b1"
    using assms(8,9) w(2) by linarith+
  from dax_tag_read_bool [OF q assms(2,5-7) sz2 fit assms(11)] obtain ty2 d buf2 where
    r: "dax_tag_read E ?s1 ds2 True h buf = Some (0, buf2, answered ?s1 (sfd ds2) ty2 d, ds2)" "length buf2 = length buf"
      "\<forall>p < 8 * length buf. get_bit buf2 p \<longleftrightarrow> p < unat (h_count h) \<and> get_bit b1 (bit_start h + p)" by blast
  have "bit_start h + p < 8 * length b" if "p < unat (h_count h)" for p
    using that bool_handle_fits [OF assms(7)] fit w(2) by (simp add: bit_start_def)
  with w(3) r(3) have "\<forall>p < 8 * length buf. get_bit buf2 p \<longleftrightarrow> p < unat (h_count h) \<and> get_bit data p" by auto
  moreover have "\<forall>j. j \<noteq> h_index h \<longrightarrow> get_tag (answered ?s1 (sfd ds2) ty2 d) j = get_tag s j"
    using plainD(2) [OF quietD(1) [OF assms(1)]] by (simp add: stored_other)
  ultimately show ?thesis
    using w r(1,2) quietD(6) [OF q]
    by (intro exI [of _ ?s1] exI [of _ "answered ?s1 (sfd ds2) ty2 d"] exI [of _ buf2] exI [of _ "t\<lparr>t_data := D_block b1\<rparr>"] exI [of _ b1])
      auto
qed

theorem client_bool_write_read_witness:
  "\<exists>s1 s2 buf2. dax_tag_write env0 demo (demo_client 5) True \<lparr>h_index = 0, h_byte = 3, h_bit = 5, h_count = 6, h_size = 2, h_type = DAX_BOOL\<rparr>
      [45] = Some (0, s1, demo_client 5) \<and>
    dax_tag_read env0 s1 (demo_client 6) True \<lparr>h_index = 0, h_byte = 3, h_bit = 5, h_count = 6, h_size = 2, h_type = DAX_BOOL\<rparr>
      [255, 255] = Some (0, buf2, s2, demo_client 6) \<and> (\<forall>p < 16. get_bit buf2 p \<longleftrightarrow> p < 6 \<and> get_bit [45] p)"
proof -
  let ?h = "\<lparr>h_index = 0, h_byte = 3, h_bit = 5, h_count = 6, h_size = 2, h_type = DAX_BOOL\<rparr>"
  have h: "bool_handle ?h" "bool_bytes ?h = 2" by (simp_all add: bool_handle_def bool_bytes_def)
  from client_bool_write_read [of demo ?h demo_tag "[1, 2, 3, 4, 5, 6, 7, 8]" "demo_client 5" env0 "demo_client 6" "[45]" "[255, 255]"]
  show ?thesis using h by (fastforce simp: demo_quiet int32_ok_def MSG_DATA_SIZE_def)
qed

lemma dax_mask_too_big:
  assumes q: "quiet s i t b" and i: "int32_ok i" and fd: "0 \<le> sfd ds" and x: "xwrite_ok E (sfd ds)"
    and n: "n * 2 + 8 \<le> MSG_DATA_SIZE" "n \<le> length data" "n \<le> length msk"
    and big: "length b < unat off + n" "unat off + n < 2 ^ 31"
  shows "dax_mask E s ds i off data msk n =
    Some (ERR_2BIG, answered s (sfd ds) (MSG_TAG_MWRITE OR MSG_ERROR) (enc_int ERR_2BIG), ds)"
proof -
  note p = plainD [OF quietD(1) [OF q]]
  let ?d = "take n data" and ?k = "take n msk"
  let ?p = "enc_int i @ enc32 off @ ?d @ ?k"
  let ?m = "request_msg E (sfd ds) MSG_TAG_MWRITE ?p"
  have len: "length ?d = n" "length ?k = n" using n by simp_all
  note m = mwrite_message [OF len n(1), of E "sfd ds" MSG_TAG_MWRITE i off]
  have o: "int_of_u32 off = int (unat off)" using big(2) by (intro int_of_u32_unat) linarith
  have lt: "int32_ok (int (unat off) + int n)" using big(2) by (simp add: int32_ok_def del: of_nat_unat)
  have gt: "int (length b) < int (unat off) + int n" using big(1) by linarith
  have "tag_mask_write E s (sfd ds) i (int (unat off)) x1 x2 (int n) = Some (ERR_2BIG, s)" for x1 x2
    using p tag_get_size_block [OF p(9)] lt gt by (simp add: tag_mask_write_def tag_store_def del: of_nat_unat)
  then have "msg_tag_mask_write E s ?m = Some (0, answered s (sfd ds) (MSG_TAG_MWRITE OR MSG_ERROR) (enc_int ERR_2BIG))"
    using quiet_access(1) [OF q] m o i send_error_answered [OF x]
    by (simp add: msg_tag_mask_write_def request_fields after_write_def del: of_nat_unat)
  then have "message_request E s ds MSG_TAG_MWRITE ?p =
      Some (ERR_2BIG, [], answered s (sfd ds) (MSG_TAG_MWRITE OR MSG_ERROR) (enc_int ERR_2BIG))"
    using fd n(1) len by (intro request_error) (simp_all add: data_command_def cmd_arr_data [simplified] int32_ok_def)
  then show ?thesis using n by (simp add: dax_mask_def drop_deleted_def mem_get_def)
qed

text \<open>C36: Writing a multiple of eight bits that start within a byte and end in the last byte of the tag is refused:
  the library sends one byte more than the bits meet, which the server rejects as too big, although the handle
  is within the tag and reading through it works.\<close>

theorem client_bool_write_refused:
  assumes "quiet s (h_index h) t b" and "int32_ok (h_index h)" and "0 \<le> sfd ds" and "xwrite_ok E (sfd ds)"
    and "bool_handle h" and "h_bit h \<noteq> 0" and "h_count h mod 8 = 0" and "bool_bytes h * 2 + 8 \<le> MSG_DATA_SIZE"
    and "unat (h_byte h) + unat (h_size h) = length b" and "unat (h_count h) \<le> 8 * length data" and "length buf = unat (h_size h)"
    and "length b + 1 < 2 ^ 31"
  shows "(\<exists>s'. dax_tag_write E s ds True h data = Some (ERR_2BIG, s', ds) \<and> (\<forall>j. get_tag s' j = get_tag s j)) \<and>
    (\<exists>buf' s'. dax_tag_read E s ds True h buf = Some (0, buf', s', ds))"
proof
  let ?n = "bool_bytes h" and ?k = "unat (h_count h)"
  have n: "?n = unat (h_size h) + 1" using assms(6,7) by (simp add: bool_bytes_def)
  have bit: "unat (h_bit h) mod 8 = unat (h_bit h)" and tb: "h_type h = DAX_BOOL" using assms(5) by (simp_all add: bool_handle_def)
  have room: "unat (h_bit h) + ?k \<le> 8 * ?n" using bool_handle_fits [OF assms(5)] n by simp
  obtain new where new: "copy_bits data 0 (replicate ?n 0) (unat (h_bit h)) ?k = Some new" "length new = ?n"
    using copy_bits_spec [of 0 ?k data "unat (h_bit h)" "replicate ?n 0"] assms(10) room by auto
  obtain msk where msk: "fill_bits (replicate ?n 0) (unat (h_bit h)) ?k = Some msk" "length msk = ?n"
    using fill_bits_spec [of "unat (h_bit h)" ?k "replicate ?n 0"] room by auto
  have "dax_mask E s ds (h_index h) (h_byte h) new msk ?n =
      Some (ERR_2BIG, answered s (sfd ds) (MSG_TAG_MWRITE OR MSG_ERROR) (enc_int ERR_2BIG), ds)"
    using new(2) msk(2) assms(8,9,12) n by (intro dax_mask_too_big [OF assms(1-4)]) simp_all
  moreover have "\<not> (MSG_DATA_SIZE - 8) div 2 < unat (h_size h)" using assms(8) n by simp
  ultimately have "dax_tag_write E s ds True h data =
      Some (ERR_2BIG, answered s (sfd ds) (MSG_TAG_MWRITE OR MSG_ERROR) (enc_int ERR_2BIG), ds)"
    using assms(6) new(1) msk(1) tb unfolding dax_tag_write_def bool_bytes_def [symmetric] Let_def bit by (simp add: word_gt_0)
  then show "\<exists>s'. dax_tag_write E s ds True h data = Some (ERR_2BIG, s', ds) \<and> (\<forall>j. get_tag s' j = get_tag s j)" by simp
  have "unat (h_size h) \<le> MSG_DATA_SIZE" using assms(8) n by simp
  from dax_tag_read_bool [OF assms(1-5) this _ assms(11)] assms(9)
  show "\<exists>buf' s'. dax_tag_read E s ds True h buf = Some (0, buf', s', ds)" by auto
qed

theorem client_bool_write_refused_witness:
  "\<exists>s'. dax_tag_write env0 demo (demo_client 5) True \<lparr>h_index = 0, h_byte = 6, h_bit = 1, h_count = 8, h_size = 2, h_type = DAX_BOOL\<rparr> [45] =
    Some (ERR_2BIG, s', demo_client 5)"
proof -
  let ?h = "\<lparr>h_index = 0, h_byte = 6, h_bit = 1, h_count = 8, h_size = 2, h_type = DAX_BOOL\<rparr>"
  have h: "bool_handle ?h" "bool_bytes ?h = 3" by (simp_all add: bool_handle_def bool_bytes_def)
  from client_bool_write_refused [of demo ?h demo_tag "[1, 2, 3, 4, 5, 6, 7, 8]" "demo_client 5" env0 "[45]" "[0, 0]"]
  show ?thesis using h by (auto simp: demo_quiet int32_ok_def MSG_DATA_SIZE_def)
qed

section \<open>Types within types\<close>


















section \<open>Framing\<close>

lemma net32_bytes:
  "net32 w = [of_nat (unat w div 256 div 256 div 256 mod 256), of_nat (unat w div 256 div 256 mod 256), of_nat (unat w div 256 mod 256), of_nat (unat w mod 256)]"
proof -
  have "le_enc (Suc (Suc (Suc (Suc 0)))) x = [of_nat (x mod 256), of_nat (x div 256 mod 256), of_nat (x div 256 div 256 mod 256),
      of_nat (x div 256 div 256 div 256 mod 256)]" for x by simp
  moreover have "(4 :: nat) = Suc (Suc (Suc (Suc 0)))" by simp
  ultimately show ?thesis by (simp only: net32_def be_enc_def rev.simps append.simps)
qed

text \<open>C30: When the header of a message of the server comes in one piece, the client gets exactly the message, however
  the rest of the stream is cut, and leaves everything behind it in the stream.\<close>

theorem message_get_frames:
  assumes "8 \<le> length c" and "[] \<notin> set ps" and "c @ concat ps = net32 (of_nat (length d)) @ net32 ty @ d @ rest"
    and "length d \<le> MSG_DATA_SIZE"
  shows "\<exists>cs. message_get (map S_bytes (c # ps)) = Some (Inr (ty, d), map S_bytes cs) \<and> concat cs = rest"
  by (rule message_get_chunks [OF assms])

theorem message_get_frames_witness:
  "\<exists>cs. message_get (map S_bytes [[0, 0, 0, 3, 1, 0, 0, 6, 70], [71], [72, 9, 9]]) =
    Some (Inr (0x01000006, [70, 71, 72]), map S_bytes cs) \<and> concat cs = [9, 9]"
  by (rule message_get_frames) (simp_all add: net32_bytes MSG_DATA_SIZE_def)

text \<open>C38: When the header of a message comes in two pieces, the client asks for eight more bytes for the second one, whatever it
  has already. The bytes that this takes beyond the header, as many as the two reads bring in excess of eight, are lost
  from the data, and as many that follow the message in the stream (there have to be so many, or the client goes on waiting) are taken for
  its end. Nothing is lost when the second piece ends with the header.\<close>

theorem split_header_loses_bytes:
  assumes "a \<noteq> []" and "length a < 8" and "8 \<le> length a + length b" and "[] \<notin> set ps"
    and "a @ b @ concat ps = net32 (of_nat (length d)) @ net32 ty @ d @ rest" and "length d \<le> MSG_DATA_SIZE"
    and "lost = length a + min 8 (length b) - 8" and "lost \<le> length rest"
  shows "\<exists>cs. message_get (map S_bytes (a # b # ps)) =
      Some (Inr (ty, take (length d) (drop lost (d @ rest))), map S_bytes cs) \<and>
    concat cs = drop (lost + length d) (d @ rest)"
proof -
  have n: "unat (of_nat (length d) :: u32) = length d" using assms(6) by (simp add: unat_of_nat MSG_DATA_SIZE_def)
  let ?h = "a @ take 8 b" and ?ps = "if length b \<le> 8 then ps else drop 8 b # ps"
  have "get_header [] (map S_bytes (a # b # ps)) = get_header a (map S_bytes (b # ps))"
    using assms(1,2) by (subst get_header.simps) simp
  also have "\<dots> = get_header ?h (map S_bytes ?ps)" using assms(2,3) by (subst get_header.simps) auto
  also have "\<dots> = (Inr ?h, map S_bytes ?ps)" using assms(2,3) by (intro get_header_done) simp
  finally have hdr: "get_header [] (map S_bytes (a # b # ps)) = (Inr ?h, map S_bytes ?ps)" .
  have lh: "length ?h = 8 + lost" using assms(2,3,7) by simp
  have "?h @ concat ?ps = a @ b @ concat ps" by (simp add: take_all)
  then have st: "?h @ concat ?ps = (net32 (of_nat (length d)) @ net32 ty) @ d @ rest" using assms(5) by simp
  have "take 8 ?h = take 8 (?h @ concat ?ps)" using lh by (simp only: take_append) simp
  then have h8: "take 8 ?h = net32 (of_nat (length d)) @ net32 ty" unfolding st by simp
  have "take 4 ?h = take 4 (take 8 ?h)" "take 4 (drop 4 ?h) = drop 4 (take 8 ?h)" by (simp_all only: take_take drop_take) simp_all
  then have h: "take 4 ?h = net32 (of_nat (length d))" "take 4 (drop 4 ?h) = net32 ty" unfolding h8 by simp_all
  have "concat ?ps = drop (length ?h) (?h @ concat ?ps)" by (simp only: append_eq_conv_conj [THEN iffD1, OF refl, THEN conjunct2])
  also have "\<dots> = drop lost (d @ rest)" unfolding st lh by simp
  finally have body: "concat ?ps = drop lost (d @ rest)" .
  let ?d = "take (length d) (drop lost (d @ rest))"
  have len: "length ?d = length d" using assms(8) by simp
  have "[] \<notin> set ?ps" using assms(4) by auto
  moreover have "concat ?ps = ?d @ drop (lost + length d) (d @ rest)"
    unfolding body by (metis append_take_drop_id drop_drop add.commute)
  ultimately obtain cs where cs: "get_body (length d) [] (map S_bytes ?ps) = (Inr ?d, map S_bytes cs)"
    "concat cs = drop (lost + length d) (d @ rest)"
    using get_body_chunks [of ?ps ?d "drop (lost + length d) (d @ rest)" "[]"] len by auto
  have "message_get (map S_bytes (a # b # ps)) = Some (Inr (ty, ?d), map S_bytes cs)"
    using hdr h n assms(6) cs(1) by (simp add: message_get_def Let_def)
  with cs(2) show ?thesis by blast
qed

theorem split_header_loses_bytes_witness:
  "\<exists>cs. message_get (map S_bytes [[0, 0], [0, 3, 1, 0, 0, 6, 70], [71, 72, 80, 81, 82]]) =
    Some (Inr (0x01000006, [71, 72, 80]), map S_bytes cs) \<and> concat cs = [81, 82]"
  using split_header_loses_bytes [of "[0, 0]" "[0, 3, 1, 0, 0, 6, 70]" "[[71, 72, 80, 81, 82]]" "[70, 71, 72]" "0x01000006" "[80, 81, 82]" 1]
  by (simp add: net32_bytes MSG_DATA_SIZE_def)

end
