(* ===== verification/Modbus_Crc.thy ===== *)
theory Modbus_Crc
  imports Dax_Prelude
begin

text \<open>
  The checksum of the Modbus module (\<^verbatim>\<open>modules/modbus/mbutil.c\<close>): the table driven CRC-16 is the shift
  register of the Modbus specification, it accepts what it produced, and it detects every change of one byte.
\<close>

unbundle bit_operations_syntax

section \<open>The tables and the loop\<close>

definition aCRCHi :: "byte list" where
  "aCRCHi =
    [0x00, 0xC1, 0x81, 0x40, 0x01, 0xC0, 0x80, 0x41, 0x01, 0xC0, 0x80, 0x41, 0x00, 0xC1, 0x81, 0x40,
     0x01, 0xC0, 0x80, 0x41, 0x00, 0xC1, 0x81, 0x40, 0x00, 0xC1, 0x81, 0x40, 0x01, 0xC0, 0x80, 0x41,
     0x01, 0xC0, 0x80, 0x41, 0x00, 0xC1, 0x81, 0x40, 0x00, 0xC1, 0x81, 0x40, 0x01, 0xC0, 0x80, 0x41,
     0x00, 0xC1, 0x81, 0x40, 0x01, 0xC0, 0x80, 0x41, 0x01, 0xC0, 0x80, 0x41, 0x00, 0xC1, 0x81, 0x40,
     0x01, 0xC0, 0x80, 0x41, 0x00, 0xC1, 0x81, 0x40, 0x00, 0xC1, 0x81, 0x40, 0x01, 0xC0, 0x80, 0x41,
     0x00, 0xC1, 0x81, 0x40, 0x01, 0xC0, 0x80, 0x41, 0x01, 0xC0, 0x80, 0x41, 0x00, 0xC1, 0x81, 0x40,
     0x00, 0xC1, 0x81, 0x40, 0x01, 0xC0, 0x80, 0x41, 0x01, 0xC0, 0x80, 0x41, 0x00, 0xC1, 0x81, 0x40,
     0x01, 0xC0, 0x80, 0x41, 0x00, 0xC1, 0x81, 0x40, 0x00, 0xC1, 0x81, 0x40, 0x01, 0xC0, 0x80, 0x41,
     0x01, 0xC0, 0x80, 0x41, 0x00, 0xC1, 0x81, 0x40, 0x00, 0xC1, 0x81, 0x40, 0x01, 0xC0, 0x80, 0x41,
     0x00, 0xC1, 0x81, 0x40, 0x01, 0xC0, 0x80, 0x41, 0x01, 0xC0, 0x80, 0x41, 0x00, 0xC1, 0x81, 0x40,
     0x00, 0xC1, 0x81, 0x40, 0x01, 0xC0, 0x80, 0x41, 0x01, 0xC0, 0x80, 0x41, 0x00, 0xC1, 0x81, 0x40,
     0x01, 0xC0, 0x80, 0x41, 0x00, 0xC1, 0x81, 0x40, 0x00, 0xC1, 0x81, 0x40, 0x01, 0xC0, 0x80, 0x41,
     0x00, 0xC1, 0x81, 0x40, 0x01, 0xC0, 0x80, 0x41, 0x01, 0xC0, 0x80, 0x41, 0x00, 0xC1, 0x81, 0x40,
     0x01, 0xC0, 0x80, 0x41, 0x00, 0xC1, 0x81, 0x40, 0x00, 0xC1, 0x81, 0x40, 0x01, 0xC0, 0x80, 0x41,
     0x01, 0xC0, 0x80, 0x41, 0x00, 0xC1, 0x81, 0x40, 0x00, 0xC1, 0x81, 0x40, 0x01, 0xC0, 0x80, 0x41,
     0x00, 0xC1, 0x81, 0x40, 0x01, 0xC0, 0x80, 0x41, 0x01, 0xC0, 0x80, 0x41, 0x00, 0xC1, 0x81, 0x40]"

definition aCRCLo :: "byte list" where
  "aCRCLo =
    [0x00, 0xC0, 0xC1, 0x01, 0xC3, 0x03, 0x02, 0xC2, 0xC6, 0x06, 0x07, 0xC7, 0x05, 0xC5, 0xC4, 0x04,
     0xCC, 0x0C, 0x0D, 0xCD, 0x0F, 0xCF, 0xCE, 0x0E, 0x0A, 0xCA, 0xCB, 0x0B, 0xC9, 0x09, 0x08, 0xC8,
     0xD8, 0x18, 0x19, 0xD9, 0x1B, 0xDB, 0xDA, 0x1A, 0x1E, 0xDE, 0xDF, 0x1F, 0xDD, 0x1D, 0x1C, 0xDC,
     0x14, 0xD4, 0xD5, 0x15, 0xD7, 0x17, 0x16, 0xD6, 0xD2, 0x12, 0x13, 0xD3, 0x11, 0xD1, 0xD0, 0x10,
     0xF0, 0x30, 0x31, 0xF1, 0x33, 0xF3, 0xF2, 0x32, 0x36, 0xF6, 0xF7, 0x37, 0xF5, 0x35, 0x34, 0xF4,
     0x3C, 0xFC, 0xFD, 0x3D, 0xFF, 0x3F, 0x3E, 0xFE, 0xFA, 0x3A, 0x3B, 0xFB, 0x39, 0xF9, 0xF8, 0x38,
     0x28, 0xE8, 0xE9, 0x29, 0xEB, 0x2B, 0x2A, 0xEA, 0xEE, 0x2E, 0x2F, 0xEF, 0x2D, 0xED, 0xEC, 0x2C,
     0xE4, 0x24, 0x25, 0xE5, 0x27, 0xE7, 0xE6, 0x26, 0x22, 0xE2, 0xE3, 0x23, 0xE1, 0x21, 0x20, 0xE0,
     0xA0, 0x60, 0x61, 0xA1, 0x63, 0xA3, 0xA2, 0x62, 0x66, 0xA6, 0xA7, 0x67, 0xA5, 0x65, 0x64, 0xA4,
     0x6C, 0xAC, 0xAD, 0x6D, 0xAF, 0x6F, 0x6E, 0xAE, 0xAA, 0x6A, 0x6B, 0xAB, 0x69, 0xA9, 0xA8, 0x68,
     0x78, 0xB8, 0xB9, 0x79, 0xBB, 0x7B, 0x7A, 0xBA, 0xBE, 0x7E, 0x7F, 0xBF, 0x7D, 0xBD, 0xBC, 0x7C,
     0xB4, 0x74, 0x75, 0xB5, 0x77, 0xB7, 0xB6, 0x76, 0x72, 0xB2, 0xB3, 0x73, 0xB1, 0x71, 0x70, 0xB0,
     0x50, 0x90, 0x91, 0x51, 0x93, 0x53, 0x52, 0x92, 0x96, 0x56, 0x57, 0x97, 0x55, 0x95, 0x94, 0x54,
     0x9C, 0x5C, 0x5D, 0x9D, 0x5F, 0x9F, 0x9E, 0x5E, 0x5A, 0x9A, 0x9B, 0x5B, 0x99, 0x59, 0x58, 0x98,
     0x88, 0x48, 0x49, 0x89, 0x4B, 0x8B, 0x8A, 0x4A, 0x4E, 0x8E, 0x8F, 0x4F, 0x8D, 0x4D, 0x4C, 0x8C,
     0x44, 0x84, 0x85, 0x45, 0x87, 0x47, 0x46, 0x86, 0x82, 0x42, 0x43, 0x83, 0x41, 0x81, 0x80, 0x40]"

text \<open>\<^verbatim>\<open>crc16\<close>; its length is an \<^verbatim>\<open>unsigned short\<close>.\<close>

fun crc_loop :: "byte list \<Rightarrow> byte \<Rightarrow> byte \<Rightarrow> byte \<times> byte" where
  "crc_loop [] hi lo = (hi, lo)"
| "crc_loop (m # ms) hi lo =
    (let i = unat (hi XOR m) in crc_loop ms (lo XOR aCRCHi ! i) (aCRCLo ! i))"

definition crc16 :: "byte list \<Rightarrow> int \<Rightarrow> u16 option" where
  "crc16 msg len =
    do {
      ms \<leftarrow> mem_get msg 0 (len mod 2 ^ 16);
      let (hi, lo) = crc_loop ms 0xFF 0xFF;
      Some (push_bit 8 (ucast hi) OR ucast lo)
    }"

text \<open>\<^verbatim>\<open>COPYWORD\<close> on a little endian machine: a word in a message has its high byte first.\<close>

definition put_word :: "u16 \<Rightarrow> byte list" where
  "put_word w = [ucast (drop_bit 8 w), ucast w]"

definition get_word :: "byte list \<Rightarrow> int \<Rightarrow> u16 option" where
  "get_word buff i =
    do {
      d \<leftarrow> mem_get buff i 2;
      Some (push_bit 8 (ucast (d ! 0)) OR ucast (d ! 1))
    }"

definition crc16check :: "byte list \<Rightarrow> int \<Rightarrow> bool option" where
  "crc16check buff len =
    (if len < 2 then Some False
     else do {
       crcLocal \<leftarrow> crc16 buff (len - 2);
       crcRemote \<leftarrow> get_word buff (len - 2);
       Some (crcLocal = crcRemote)
     })"

section \<open>The shift register\<close>

text \<open>The definition of the specification: eight shifts for each byte, with the polynomial 0xA001.\<close>

definition crc_shift :: "u16 \<Rightarrow> u16" where
  "crc_shift c = (if bit c 0 then drop_bit 1 c XOR 0xA001 else drop_bit 1 c)"

definition crc_byte :: "u16 \<Rightarrow> byte \<Rightarrow> u16" where
  "crc_byte c m = (crc_shift ^^ 8) (c XOR ucast m)"

definition crc_ref :: "byte list \<Rightarrow> u16" where
  "crc_ref = foldl crc_byte 0xFFFF"

text \<open>The register that the two bytes of the loop stand for, and the order of its bytes in the result.\<close>

definition crc_reg :: "byte \<Rightarrow> byte \<Rightarrow> u16" where
  "crc_reg hi lo = push_bit 8 (ucast lo) OR ucast hi"

definition swap_bytes :: "u16 \<Rightarrow> u16" where
  "swap_bytes w = push_bit 8 w OR drop_bit 8 w"

lemma bit_byte_less: "bit (x :: byte) n \<Longrightarrow> n < 8"
  by (drule bit_imp_le_length) simp

lemma bit_u16_less: "bit (x :: u16) n \<Longrightarrow> n < 16"
  by (drule bit_imp_le_length) simp

lemma xor_cancel: "a XOR c = b XOR c \<longleftrightarrow> a = b" for a b c :: "'a::len word"
proof
  assume "a XOR c = b XOR c"
  then have "(a XOR c) XOR c = (b XOR c) XOR c" by simp
  then show "a = b" by (simp add: xor.assoc)
qed simp

lemma crc_shift_xor: "crc_shift (a XOR b) = crc_shift a XOR crc_shift b"
  by (rule bit_word_eqI) (auto simp: crc_shift_def bit_simps)

lemma crc_shift_funpow_xor: "(crc_shift ^^ n) (a XOR b) = (crc_shift ^^ n) a XOR (crc_shift ^^ n) b"
  by (induction n arbitrary: a b) (simp_all add: crc_shift_xor funpow_swap1)

lemma crc_shift_zeros:
  "n \<le> k \<Longrightarrow> (\<forall>i < k. \<not> bit c i) \<Longrightarrow> (crc_shift ^^ n) c = drop_bit n c"
proof (induction n)
  case (Suc n)
  then have "(crc_shift ^^ n) c = drop_bit n c" "\<not> bit c n" by simp_all
  then show ?case by (simp add: crc_shift_def [of "drop_bit n c"] bit_simps)
qed simp

text \<open>The tables hold the register after eight shifts of each byte.\<close>

lemma crc_shift_funpow8: "(crc_shift ^^ 8) c = crc_shift (crc_shift (crc_shift (crc_shift (crc_shift (crc_shift (crc_shift (crc_shift c)))))))"
  by (simp add: numeral_eq_Suc)

definition reg8 :: "nat \<Rightarrow> u16" where
  "reg8 i = (crc_shift ^^ 8) (of_nat i)"

lemma nat_xor_power:
  fixes i :: nat
  assumes "i < 2 ^ k"
  shows "2 ^ k XOR i = 2 ^ k + i"
proof -
  have "take_bit k i = i" using assms by (simp add: take_bit_nat_eq_self)
  then have "bit i n \<Longrightarrow> n < k" for n by (metis bit_take_bit_iff)
  then have "2 ^ k AND i = 0" by (intro bit_eqI) (auto simp: bit_simps)
  from disjunctive_add_eq_xor [OF this] show ?thesis by simp
qed

lemma reg8_power: "i < 2 ^ k \<Longrightarrow> reg8 (2 ^ k + i) = reg8 i XOR reg8 (2 ^ k)"
  unfolding nat_xor_power [symmetric] by (simp only: reg8_def of_nat_xor_eq crc_shift_funpow_xor xor.commute)

text \<open>The list of registers for a number of bits, doubled for each bit.\<close>

definition dbl :: "u16 list \<Rightarrow> u16 \<Rightarrow> u16 list" where
  "dbl xs t = xs @ map (\<lambda>x. x XOR t) xs"

lemma dbl_reg8:
  "dbl (map reg8 [0..<2 ^ k]) (reg8 (2 ^ k)) = map reg8 [0..<2 ^ Suc k]"
proof -
  have "map reg8 [2 ^ k..<2 ^ k + 2 ^ k] = map (\<lambda>i. reg8 (2 ^ k + i)) [0..<2 ^ k]"
    by (rule nth_equalityI) simp_all
  also have "\<dots> = map (\<lambda>x. x XOR reg8 (2 ^ k)) (map reg8 [0..<2 ^ k])" by (simp add: reg8_power)
  finally show ?thesis
    by (simp add: dbl_def mult_2 upt_add_eq_append [of 0 "2 ^ k" "2 ^ k", simplified])
qed

lemma reg8_values:
  "reg8 1 = 0xC0C1" "reg8 2 = 0xC181" "reg8 4 = 0xC301" "reg8 8 = 0xC601"
  "reg8 16 = 0xCC01" "reg8 32 = 0xD801" "reg8 64 = 0xF001" "reg8 128 = 0xA001" "reg8 0 = 0"
  unfolding reg8_def crc_shift_funpow8 by (simp_all add: crc_shift_def)

lemma reg8_list:
  "map reg8 [0..<256] = dbl (dbl (dbl (dbl (dbl (dbl (dbl (dbl [0] 0xC0C1) 0xC181) 0xC301) 0xC601) 0xCC01) 0xD801) 0xF001) 0xA001"
  using dbl_reg8 [of 0] dbl_reg8 [of 1] dbl_reg8 [of 2] dbl_reg8 [of 3] dbl_reg8 [of 4] dbl_reg8 [of 5]
    dbl_reg8 [of 6] dbl_reg8 [of 7] by (simp add: reg8_values reg8_values(1) [unfolded One_nat_def])

lemma table_list: "map2 crc_reg aCRCHi aCRCLo = map reg8 [0..<256]"
  unfolding reg8_list by (simp add: dbl_def aCRCHi_def aCRCLo_def crc_reg_def)

lemma table_length: "length aCRCHi = 256" "length aCRCLo = 256"
  by (simp_all add: aCRCHi_def aCRCLo_def)

lemma table_reg: "i < 256 \<Longrightarrow> crc_reg (aCRCHi ! i) (aCRCLo ! i) = reg8 i"
  using arg_cong [OF table_list, of "\<lambda>xs. xs ! i"] by (simp add: table_length)

section \<open>The loop computes the register\<close>

lemma crc_reg_split:
  "crc_reg (ucast c) (ucast (drop_bit 8 c)) = c" "crc_reg (hi XOR m) lo = crc_reg hi lo XOR ucast m"
  by (rule bit_word_eqI; auto simp: crc_reg_def bit_simps dest: bit_byte_less)+

lemma crc_byte_table:
  "crc_byte (crc_reg hi lo) m = crc_reg (lo XOR aCRCHi ! unat (hi XOR m)) (aCRCLo ! unat (hi XOR m))"
proof -
  let ?i = "unat (hi XOR m)"
  have i: "?i < 256" using unat_bound [of "hi XOR m"] by simp
  have "crc_reg hi lo XOR ucast m = push_bit 8 (ucast lo) XOR of_nat ?i"
    by (rule bit_word_eqI) (auto simp: crc_reg_def bit_simps dest: bit_byte_less)
  then have "crc_byte (crc_reg hi lo) m = (crc_shift ^^ 8) (push_bit 8 (ucast lo)) XOR reg8 ?i"
    by (simp add: crc_byte_def crc_shift_funpow_xor reg8_def)
  also have "(crc_shift ^^ 8) (push_bit 8 (ucast lo)) = ucast lo"
  proof -
    have "drop_bit 8 (push_bit 8 (ucast lo)) = (ucast lo :: u16)"
      by (rule bit_word_eqI) (auto simp: bit_simps dest: bit_byte_less)
    with crc_shift_zeros [of 8 8 "push_bit 8 (ucast lo)"] show ?thesis by (simp add: bit_simps)
  qed
  also have "reg8 ?i = crc_reg (aCRCHi ! ?i) (aCRCLo ! ?i)" by (simp add: table_reg [OF i])
  finally show ?thesis by (simp only: crc_reg_split(2) xor.commute [of lo] xor.commute [of "ucast lo"])
qed

lemma crc_loop_ref:
  "crc_loop ms hi lo = (let c = foldl crc_byte (crc_reg hi lo) ms in (ucast c, ucast (drop_bit 8 c)))"
proof (induction ms arbitrary: hi lo)
  case Nil
  show ?case by (auto simp: crc_reg_def bit_simps intro!: bit_word_eqI dest: bit_byte_less)
next
  case (Cons m ms)
  show ?case unfolding foldl_Cons crc_byte_table by (simp add: Cons.IH Let_def)
qed

lemma crc16_ref:
  assumes "int n \<le> int (length msg)" and "n < 2 ^ 16"
  shows "crc16 msg (int n) = Some (swap_bytes (crc_ref (take n msg)))"
proof -
  have "crc_reg 0xFF 0xFF = 0xFFFF" by (simp add: crc_reg_def)
  moreover have "push_bit 8 (ucast (ucast c :: byte)) OR ucast (ucast (drop_bit 8 c) :: byte) = swap_bytes c" for c :: u16
    by (rule bit_word_eqI) (auto simp: swap_bytes_def bit_simps dest: bit_u16_less)
  ultimately show ?thesis
    using assms by (simp add: crc16_def mem_get_def crc_loop_ref crc_ref_def Let_def)
qed

section \<open>The checksum is injective in each byte\<close>

lemma crc_shift_bit15: "bit (crc_shift c) 15 = bit c 0"
  by (auto simp: crc_shift_def bit_simps dest: bit_u16_less)

lemma crc_shift_inj: "crc_shift a = crc_shift b \<Longrightarrow> a = b"
proof -
  assume e: "crc_shift a = crc_shift b"
  have z: "bit a 0 = bit b 0" using e crc_shift_bit15 by metis
  with e have d: "drop_bit 1 a = drop_bit 1 b" by (auto simp: crc_shift_def xor_cancel split: if_splits)
  have "bit a n = bit b n" for n
  proof (cases n)
    case (Suc k)
    have "bit (drop_bit 1 a) k = bit (drop_bit 1 b) k" by (simp only: d)
    then show ?thesis by (simp add: Suc bit_simps)
  qed (use z in simp)
  then show ?thesis by (simp add: bit_eq_iff)
qed

lemma crc_shift_funpow_inj: "(crc_shift ^^ n) a = (crc_shift ^^ n) b \<Longrightarrow> a = b"
  by (induction n) (auto dest: crc_shift_inj)

lemma crc_byte_inj: "crc_byte a m = crc_byte b m \<Longrightarrow> a = b" "crc_byte c m = crc_byte c m' \<Longrightarrow> m = m'"
proof -
  assume "crc_byte a m = crc_byte b m"
  then have "a XOR ucast m = b XOR ucast m" unfolding crc_byte_def by (rule crc_shift_funpow_inj)
  then show "a = b" by (simp only: xor_cancel)
next
  assume "crc_byte c m = crc_byte c m'"
  then have "c XOR ucast m = c XOR ucast m'" unfolding crc_byte_def by (rule crc_shift_funpow_inj)
  then have "(ucast m :: u16) = ucast m'" by (simp only: xor.commute [of c] xor_cancel)
  then have "bit (ucast m :: u16) n = bit (ucast m' :: u16) n" for n by simp
  then have "(n < 16 \<and> bit m n) = (n < 16 \<and> bit m' n)" for n by (simp add: bit_simps)
  note b = this
  have "bit m n = bit m' n" if "n < 8" for n using b [of n] that by simp
  then show "m = m'" by (intro bit_word_eqI) simp
qed

lemma crc_fold_inj: "foldl crc_byte a ms = foldl crc_byte b ms \<Longrightarrow> a = b"
  by (induction ms arbitrary: a b) (auto dest: crc_byte_inj(1))

lemma swap_bytes_inj: "swap_bytes a = swap_bytes b \<longleftrightarrow> a = b"
proof
  assume e: "swap_bytes a = swap_bytes b"
  have "swap_bytes (swap_bytes c) = c" for c by (rule bit_word_eqI) (auto simp: swap_bytes_def bit_simps)
  with e show "a = b" by metis
qed simp

section \<open>Properties of the checksum\<close>

text \<open>C31: The table driven checksum is the 16 bit shift register of the Modbus specification (reflected
  polynomial 0xA001, start value 0xFFFF), with its two bytes exchanged, for every message.\<close>

theorem crc16_is_shift_register:
  assumes "n \<le> length msg" and "n < 65536"
  shows "crc16 msg (int n) = Some (swap_bytes (crc_ref (take n msg)))"
  using crc16_ref [of n msg] assms by simp

theorem crc16_is_shift_register_witness:
  "crc16 [1, 3, 0, 0, 0, 10] 6 = Some (swap_bytes (crc_ref [1, 3, 0, 0, 0, 10]))"
  using crc16_is_shift_register [of 6 "[1, 3, 0, 0, 0, 10]"] by simp

lemma put_get_word: "push_bit 8 (ucast (put_word w ! 0)) OR ucast (put_word w ! 1) = w"
  by (rule bit_word_eqI) (auto simp: put_word_def bit_simps dest: bit_u16_less)

lemma crc16check_frame:
  assumes "length frame < 65536" and "crc16 frame (int (length frame)) = Some c"
  shows "crc16check (frame @ put_word w) (int (length frame) + 2) = Some (c = w)"
proof -
  have "crc16 (frame @ put_word w) (int (length frame)) = Some c"
    using assms by (simp add: crc16_def mem_get_def put_word_def)
  moreover have "get_word (frame @ put_word w) (int (length frame)) = Some w"
    using put_get_word [of w] by (simp add: get_word_def mem_get_def) (simp add: put_word_def)
  ultimately show ?thesis by (simp add: crc16check_def)
qed

lemma put_word_of: "put_word (push_bit 8 (ucast p) OR ucast q) = [p, q]"
proof -
  have "ucast (drop_bit 8 (push_bit 8 (ucast p) OR ucast q :: u16)) = p" "ucast (push_bit 8 (ucast p) OR ucast q :: u16) = q"
    by (rule bit_word_eqI; auto simp: bit_simps dest: bit_byte_less)+
  then show ?thesis by (simp add: put_word_def)
qed

text \<open>C32: A frame that carries its checksum, as the functions that send frames append it, passes the check of the receiver; a
  frame in which one byte was changed on the way, of the message or of the checksum, never passes.\<close>

theorem crc16_detects_byte_errors:
  assumes "length frame < 65536" and "crc16 frame (int (length frame)) = Some c"
    and "j < length frame + 2" and "x \<noteq> (frame @ put_word c) ! j"
  shows "crc16check (frame @ put_word c) (int (length frame) + 2) = Some True \<and>
    crc16check ((frame @ put_word c)[j := x]) (int (length frame) + 2) = Some False"
proof -
  have c: "c = swap_bytes (crc_ref frame)" using crc16_ref [of "length frame" frame] assms(1,2) by simp
  have "crc16check ((frame @ put_word c)[j := x]) (int (length frame) + 2) = Some False"
  proof (cases "j < length frame")
    case True
    define f where "f = frame[j := x]"
    have f: "f = take j frame @ x # drop (Suc j) frame" unfolding f_def using True by (simp add: upd_conv_take_nth_drop)
    have fr: "frame = take j frame @ frame ! j # drop (Suc j) frame" using True by (simp add: id_take_nth_drop)
    have "crc_ref f \<noteq> crc_ref frame"
    proof
      assume e: "crc_ref f = crc_ref frame"
      have "crc_ref f = foldl crc_byte (crc_byte (foldl crc_byte 0xFFFF (take j frame)) x) (drop (Suc j) frame)"
        by (simp add: crc_ref_def f)
      moreover have "crc_ref frame =
        foldl crc_byte (crc_byte (foldl crc_byte 0xFFFF (take j frame)) (frame ! j)) (drop (Suc j) frame)"
        unfolding crc_ref_def by (subst fr) (simp only: foldl_append foldl_Cons)
      ultimately have "foldl crc_byte (crc_byte (foldl crc_byte 0xFFFF (take j frame)) x) (drop (Suc j) frame) =
        foldl crc_byte (crc_byte (foldl crc_byte 0xFFFF (take j frame)) (frame ! j)) (drop (Suc j) frame)"
        using e by simp
      then have "x = frame ! j" by (blast dest: crc_fold_inj crc_byte_inj(2))
      with assms(4) True show False by (simp add: nth_append)
    qed
    then have "swap_bytes (crc_ref f) \<noteq> c" by (simp add: c swap_bytes_inj)
    moreover have "crc16 f (int (length f)) = Some (swap_bytes (crc_ref f))"
      using crc16_ref [of "length f" f] assms(1) by (simp add: f_def)
    moreover have "(frame @ put_word c)[j := x] = f @ put_word c" using True by (simp add: f_def list_update_append)
    ultimately show ?thesis using crc16check_frame [of f _ c] assms(1) by (simp add: f_def)
  next
    case False
    then have j: "j = length frame \<or> j = Suc (length frame)" using assms(3) by auto
    obtain p q where pq: "put_word c = [p, q]" by (simp add: put_word_def)
    define d where "d = (put_word c)[j - length frame := x]"
    have upd: "(frame @ put_word c)[j := x] = frame @ d" using False by (simp add: list_update_append d_def)
    have d: "d \<noteq> put_word c" "\<exists>p' q'. d = [p', q']" using j assms(4) by (auto simp: d_def pq nth_append)
    then obtain p' q' where "d = [p', q']" by blast
    then have "d = put_word (push_bit 8 (ucast p') OR ucast q')" by (simp only: put_word_of)
    then obtain w where w: "d = put_word w" by blast
    with d have "c \<noteq> w" by auto
    with crc16check_frame [OF assms(1,2), of w] show ?thesis by (simp add: upd w)
  qed
  with crc16check_frame [OF assms(1,2), of c] show ?thesis by simp
qed

theorem crc16_detects_byte_errors_witness:
  "\<exists>c. crc16 [1, 3, 0, 0] 4 = Some c \<and> crc16check ([1, 3, 0, 0] @ put_word c) 6 = Some True \<and>
    crc16check (([1, 3, 0, 0] @ put_word c)[2 := 7]) 6 = Some False"
proof -
  obtain c where c: "crc16 [1, 3, 0, 0] 4 = Some c" using crc16_ref [of 4 "[1, 3, 0, 0]"] by simp
  with crc16_detects_byte_errors [of "[1, 3, 0, 0]" c 2 7] show ?thesis by simp
qed

end
