(* ===== verification/Modbus_Slave.thy ===== *)
theory Modbus_Slave
  imports Client_Data Modbus_Crc
begin

text \<open>
  The slave side of the Modbus module (\<^verbatim>\<open>src/modules/modbus\<close>): the functions of \<^verbatim>\<open>modbus.c\<close> that turn a request into a
  response, the access to the registers in the tag server (\<^verbatim>\<open>database.c\<close>), and the frames of a serial line
  (\<^verbatim>\<open>mbslave.c\<close>) and of a TCP connection (\<^verbatim>\<open>mbserver.c\<close>). The registers are tags, read and written with the
  client library. An array of 16 bit words in memory is the list of its bytes.
\<close>

section \<open>Nodes and ports\<close>

text \<open>
  A callback is a function written in Lua: it gets node, function code, register and count, and delivers a
  number, or fails.
\<close>

type_synonym lua_fun = "int \<Rightarrow> int \<Rightarrow> int \<Rightarrow> int \<Rightarrow> int option"

record mb_node_def =
  hold_size :: u32
  hold_idx :: int
  input_size :: u32
  input_idx :: int
  coil_size :: u32
  coil_idx :: int
  disc_size :: u32
  disc_idx :: int
  read_callback :: "lua_fun option"
  write_callback :: "lua_fun option"

record mb_port =
  mb_nodes :: "mb_node_def option list"
  mb_tcp :: bool

datatype mb_reg = MB_REG_HOLDING | MB_REG_INPUT | MB_REG_COIL | MB_REG_DISC

abbreviation MB_ERR_RECV_FAIL :: int where "MB_ERR_RECV_FAIL \<equiv> - 12"
abbreviation MB_ERR_NO_SOCKET :: int where "MB_ERR_NO_SOCKET \<equiv> - 13"
abbreviation MB_ERR_BAD_ARG :: int where "MB_ERR_BAD_ARG \<equiv> - 14"
abbreviation MB_ERR_OVERFLOW :: int where "MB_ERR_OVERFLOW \<equiv> - 16"
abbreviation ME_EXCEPTION :: byte where "ME_EXCEPTION \<equiv> 0x80"
abbreviation ME_WRONG_FUNCTION :: int where "ME_WRONG_FUNCTION \<equiv> 1"
abbreviation ME_BAD_ADDRESS :: int where "ME_BAD_ADDRESS \<equiv> 2"
abbreviation ME_WRONG_DEVICE :: int where "ME_WRONG_DEVICE \<equiv> 3"

definition MB_BUFF_SIZE :: nat where "MB_BUFF_SIZE = 256"

section \<open>Access to the registers\<close>

text \<open>Division by eight as C does it, towards zero.\<close>

definition div8 :: "int \<Rightarrow> int" where
  "div8 x = (if x < 0 then - ((- x) div 8) else x div 8)"

definition slave_handle :: "int \<Rightarrow> mb_reg \<Rightarrow> int \<Rightarrow> int \<Rightarrow> tag_handle" where
  "slave_handle idx reg offset count =
    (if reg = MB_REG_HOLDING \<or> reg = MB_REG_INPUT then
       \<lparr>h_index = idx, h_byte = u32_of (offset * 2), h_bit = 0, h_count = u32_of count, h_size = u32_of (count * 2), h_type = DAX_UINT\<rparr>
     else
       \<lparr>h_index = idx, h_byte = u32_of (offset div 8), h_bit = word_of_int (offset mod 8), h_count = u32_of count,
        h_size = u32_of (div8 (offset mod 8 + count - 1) - offset mod 8 div 8 + 1), h_type = DAX_BOOL\<rparr>)"

text \<open>An error of the tag server is only logged.\<close>

definition slave_write_database ::
  "env \<Rightarrow> bool \<Rightarrow> server \<Rightarrow> dax_state \<Rightarrow> int \<Rightarrow> mb_reg \<Rightarrow> int \<Rightarrow> int \<Rightarrow> byte list \<Rightarrow> (server \<times> dax_state) option" where
  "slave_write_database E mem s ds idx reg offset count data =
    map_option snd (dax_tag_write E s ds mem (slave_handle idx reg offset count) data)"

definition slave_read_database ::
  "env \<Rightarrow> bool \<Rightarrow> server \<Rightarrow> dax_state \<Rightarrow> int \<Rightarrow> mb_reg \<Rightarrow> int \<Rightarrow> int \<Rightarrow> byte list \<Rightarrow> (byte list \<times> server \<times> dax_state) option" where
  "slave_read_database E mem s ds idx reg offset count data =
    map_option snd (dax_tag_read E s ds mem (slave_handle idx reg offset count) data)"

section \<open>Responses\<close>

definition create_exception :: "byte list \<Rightarrow> int \<Rightarrow> (int \<times> byte list) option" where
  "create_exception buff exception =
    do {
      f \<leftarrow> arr_get buff 1;
      b1 \<leftarrow> arr_set buff 1 (f OR ME_EXCEPTION);
      b2 \<leftarrow> arr_set b1 2 (word_of_int exception);
      Some (3, b2)
    }"

text \<open>The loops that set or clear single bits, and that copy words with their bytes exchanged.\<close>

primrec assign_bits :: "byte list \<Rightarrow> nat \<Rightarrow> byte list \<Rightarrow> nat \<Rightarrow> nat \<Rightarrow> byte list option" where
  "assign_bits src i dst j 0 = Some dst"
| "assign_bits src i dst j (Suc k) =
    do {
      dst1 \<leftarrow> assign_bits src i dst j k;
      b \<leftarrow> arr_get src (int ((i + k) div 8));
      d \<leftarrow> arr_get dst1 (int ((j + k) div 8));
      arr_set dst1 (int ((j + k) div 8))
        (if bit b ((i + k) mod 8) then d OR push_bit ((j + k) mod 8) 1 else d AND NOT (push_bit ((j + k) mod 8) 1))
    }"

primrec copy_words :: "byte list \<Rightarrow> nat \<Rightarrow> byte list \<Rightarrow> nat \<Rightarrow> nat \<Rightarrow> byte list option" where
  "copy_words src i dst j 0 = Some dst"
| "copy_words src i dst j (Suc k) =
    do {
      dst1 \<leftarrow> copy_words src i dst j k;
      d \<leftarrow> mem_get src (int (i + 2 * k)) 2;
      mem_put dst1 (int (j + 2 * k)) [d ! 1, d ! 0]
    }"

text \<open>
  \<^verbatim>\<open>_read_bits_response\<close> and \<^verbatim>\<open>_read_words_response\<close>: the registers are read into an array of 150 words before anything has been
  checked. \<open>buff\<close> is the request and becomes the response; the number is its length.
\<close>

type_synonym reply = "int \<times> byte list \<times> server \<times> dax_state"

definition read_bits_response ::
  "env \<Rightarrow> bool \<Rightarrow> server \<Rightarrow> dax_state \<Rightarrow> mb_node_def \<Rightarrow> byte list \<Rightarrow> int \<Rightarrow> mb_reg \<Rightarrow> reply option" where
  "read_bits_response E mem s ds nd buff sz mbreg =
    do {
      index \<leftarrow> get_word buff 2;
      count \<leftarrow> get_word buff 4;
      let (idx, regsize) = (if mbreg = MB_REG_COIL then (coil_idx nd, coil_size nd) else (disc_idx nd, disc_size nd));
      (reg, s1, ds1) \<leftarrow> slave_read_database E mem s ds idx mbreg (uint index) (uint count) (map (junk E) [0..<300]);
      if sz - 3 < div8 (uint count - 1) + 1 then Some (MB_ERR_OVERFLOW, buff, s1, ds1)
      else if uint regsize < uint index + uint count then
        do { (n, b) \<leftarrow> create_exception buff ME_BAD_ADDRESS; Some (n, b, s1, ds1) }
      else do {
        b1 \<leftarrow> arr_set buff 2 (word_of_int (div8 (uint count - 1) + 1));
        b2 \<leftarrow> assign_bits reg 0 b1 24 (unat count);
        Some (div8 (uint count - 1) + 4, b2, s1, ds1)
      }
    }"

definition read_words_response ::
  "env \<Rightarrow> bool \<Rightarrow> server \<Rightarrow> dax_state \<Rightarrow> mb_node_def \<Rightarrow> byte list \<Rightarrow> int \<Rightarrow> mb_reg \<Rightarrow> reply option" where
  "read_words_response E mem s ds nd buff sz mbreg =
    do {
      index \<leftarrow> get_word buff 2;
      count \<leftarrow> get_word buff 4;
      let (idx, regsize) = (if mbreg = MB_REG_HOLDING then (hold_idx nd, hold_size nd) else (input_idx nd, input_size nd));
      (reg, s1, ds1) \<leftarrow> slave_read_database E mem s ds idx mbreg (uint index) (uint count) (map (junk E) [0..<300]);
      if sz - 3 < uint count * 2 then Some (MB_ERR_OVERFLOW, buff, s1, ds1)
      else if uint regsize < uint index + uint count then
        do { (n, b) \<leftarrow> create_exception buff ME_BAD_ADDRESS; Some (n, b, s1, ds1) }
      else do {
        b1 \<leftarrow> arr_set buff 2 (word_of_int (uint count * 2));
        b2 \<leftarrow> copy_words reg 0 b1 3 (unat count);
        Some (uint count * 2 + 3, b2, s1, ds1)
      }
    }"

definition check_function_code_exception :: "mb_port \<Rightarrow> mb_node_def \<Rightarrow> byte \<Rightarrow> int" where
  "check_function_code_exception port nd function =
    (if function \<in> {1, 5, 15} then (if coil_size nd \<noteq> 0 then 0 else ME_WRONG_FUNCTION)
     else if function = 2 then (if disc_size nd \<noteq> 0 then 0 else ME_WRONG_FUNCTION)
     else if function \<in> {3, 6, 16} then (if hold_size nd \<noteq> 0 then 0 else ME_WRONG_FUNCTION)
     else if function = 4 then (if input_size nd \<noteq> 0 then 0 else ME_WRONG_FUNCTION)
     else if function = 8 then (if \<not> mb_tcp port then 0 else ME_WRONG_FUNCTION)
     else ME_WRONG_FUNCTION)"

text \<open>The result of a callback is kept in an \<^verbatim>\<open>int8_t\<close>.\<close>

definition int8 :: "int \<Rightarrow> int" where
  "int8 x = (x + 128) mod 256 - 128"

text \<open>
  The callback before a read: for other function codes, and when the callback fails, a variable is looked at that
  nobody has set.
\<close>

definition read_hook :: "mb_node_def \<Rightarrow> byte \<Rightarrow> byte \<Rightarrow> byte list \<Rightarrow> int option" where
  "read_hook nd node function buff =
    (case read_callback nd of
       None \<Rightarrow> Some 0
     | Some f \<Rightarrow>
         if function \<in> {1, 2, 3, 4} then
           do {
             index \<leftarrow> get_word buff 2;
             count \<leftarrow> get_word buff 4;
             map_option int8 (f (uint node) (uint function) (uint index) (uint count))
           }
         else None)"

text \<open>The four functions that write: index, count for the callback, and what happens to the tags.\<close>

definition write_coil ::
  "env \<Rightarrow> bool \<Rightarrow> server \<Rightarrow> dax_state \<Rightarrow> mb_node_def \<Rightarrow> byte list \<Rightarrow> (bool \<times> u16 \<times> int \<times> server \<times> dax_state) option" where
  "write_coil E mem s ds nd buff =
    do {
      index \<leftarrow> get_word buff 2;
      value \<leftarrow> get_word buff 4;
      if uint (coil_size nd) \<le> uint index then Some (False, index, 1, s, ds)
      else do {
        data \<leftarrow> mem_put (map (junk E) [0..<256]) 0 [if value \<noteq> 0 then 1 else 0, 0];
        (s1, ds1) \<leftarrow> slave_write_database E mem s ds (coil_idx nd) MB_REG_COIL (uint index) 1 data;
        Some (True, index, 1, s1, ds1)
      }
    }"

definition write_register ::
  "env \<Rightarrow> bool \<Rightarrow> server \<Rightarrow> dax_state \<Rightarrow> mb_node_def \<Rightarrow> byte list \<Rightarrow> (bool \<times> u16 \<times> int \<times> server \<times> dax_state) option" where
  "write_register E mem s ds nd buff =
    do {
      index \<leftarrow> get_word buff 2;
      value \<leftarrow> get_word buff 4;
      if uint (hold_size nd) \<le> uint index then Some (False, index, 1, s, ds)
      else do {
        data \<leftarrow> mem_put (map (junk E) [0..<256]) 0 (enc16 value);
        (s1, ds1) \<leftarrow> slave_write_database E mem s ds (hold_idx nd) MB_REG_HOLDING (uint index) 1 data;
        Some (True, index, 1, s1, ds1)
      }
    }"

definition write_coils ::
  "env \<Rightarrow> bool \<Rightarrow> server \<Rightarrow> dax_state \<Rightarrow> mb_node_def \<Rightarrow> byte list \<Rightarrow> (bool \<times> u16 \<times> int \<times> server \<times> dax_state) option" where
  "write_coils E mem s ds nd buff =
    do {
      index \<leftarrow> get_word buff 2;
      count \<leftarrow> get_word buff 4;
      if uint (coil_size nd) < uint index + uint count then Some (False, index, uint count, s, ds)
      else do {
        data \<leftarrow> assign_bits buff 56 (map (junk E) [0..<256]) 0 (unat count);
        (s1, ds1) \<leftarrow> slave_write_database E mem s ds (coil_idx nd) MB_REG_COIL (uint index) (uint count) data;
        Some (True, index, uint count, s1, ds1)
      }
    }"

definition write_registers ::
  "env \<Rightarrow> bool \<Rightarrow> server \<Rightarrow> dax_state \<Rightarrow> mb_node_def \<Rightarrow> byte list \<Rightarrow> (bool \<times> u16 \<times> int \<times> server \<times> dax_state) option" where
  "write_registers E mem s ds nd buff =
    do {
      index \<leftarrow> get_word buff 2;
      count \<leftarrow> get_word buff 4;
      if uint (hold_size nd) < uint index + uint count then Some (False, index, uint count, s, ds)
      else do {
        data \<leftarrow> copy_words buff 7 (map (junk E) [0..<256]) 0 (unat count);
        (s1, ds1) \<leftarrow> slave_write_database E mem s ds (hold_idx nd) MB_REG_HOLDING (uint index) (uint count) data;
        Some (True, index, uint count, s1, ds1)
      }
    }"

text \<open>The response to a write: an exception for a bad address, or what the callback makes of it.\<close>

definition write_response ::
  "mb_node_def \<Rightarrow> byte \<Rightarrow> byte \<Rightarrow> byte list \<Rightarrow> (bool \<times> u16 \<times> int \<times> server \<times> dax_state) \<Rightarrow> reply option" where
  "write_response nd node function buff w =
    (case w of (ok, index, count, s1, ds1) \<Rightarrow>
       if \<not> ok then do { (n, b) \<leftarrow> create_exception buff ME_BAD_ADDRESS; Some (n, b, s1, ds1) }
       else
         (case write_callback nd of
            None \<Rightarrow> Some (6, buff, s1, ds1)
          | Some f \<Rightarrow>
              do {
                r \<leftarrow> map_option int8 (f (uint node) (uint function) (uint index) count);
                if r \<noteq> 0 then do { (n, b) \<leftarrow> create_exception buff r; Some (n, b, s1, ds1) }
                else Some (6, buff, s1, ds1)
              }))"

text \<open>
  \<^verbatim>\<open>create_response\<close>. Node 0 stands for all nodes that are not configured; the array has 248 entries, the node in
  the request can be larger.
\<close>

definition create_response ::
  "env \<Rightarrow> bool \<Rightarrow> server \<Rightarrow> dax_state \<Rightarrow> mb_port \<Rightarrow> byte list \<Rightarrow> int \<Rightarrow> reply option" where
  "create_response E mem s ds port buff sz =
    do {
      node0 \<leftarrow> arr_get buff 0;
      function \<leftarrow> arr_get buff 1;
      n1 \<leftarrow> arr_get (mb_nodes port) (uint node0);
      n0 \<leftarrow> arr_get (mb_nodes port) 0;
      (case (if n1 = None then n0 else n1) of
         None \<Rightarrow> Some (0, buff, s, ds)
       | Some nd \<Rightarrow>
           let node = (if n1 = None then 0 else node0) in
           do {
             r \<leftarrow> read_hook nd node function buff;
             if r \<noteq> 0 then do { (n, b) \<leftarrow> create_exception buff r; Some (n, b, s, ds) }
             else if check_function_code_exception port nd function \<noteq> 0 then
               do { (n, b) \<leftarrow> create_exception buff ME_WRONG_FUNCTION; Some (n, b, s, ds) }
             else if function = 1 then read_bits_response E mem s ds nd buff sz MB_REG_COIL
             else if function = 2 then read_bits_response E mem s ds nd buff sz MB_REG_DISC
             else if function = 3 then read_words_response E mem s ds nd buff sz MB_REG_HOLDING
             else if function = 4 then read_words_response E mem s ds nd buff sz MB_REG_INPUT
             else if function = 5 then Option.bind (write_coil E mem s ds nd buff) (write_response nd node function buff)
             else if function = 6 then Option.bind (write_register E mem s ds nd buff) (write_response nd node function buff)
             else if function = 8 then Some (sz div 2, buff, s, ds)
             else if function = 15 then Option.bind (write_coils E mem s ds nd buff) (write_response nd node function buff)
             else Option.bind (write_registers E mem s ds nd buff) (write_response nd node function buff)
           })
    }"

section \<open>Frames\<close>

text \<open>
  \<^verbatim>\<open>_mb_read\<close> of \<^verbatim>\<open>mbslave.c\<close>, after a frame of \<open>n\<close> bytes has come in: what is written to the line, if anything.
\<close>

definition rtu_serve ::
  "env \<Rightarrow> bool \<Rightarrow> server \<Rightarrow> dax_state \<Rightarrow> mb_port \<Rightarrow> byte list \<Rightarrow> int \<Rightarrow> (int \<times> byte list option \<times> server \<times> dax_state) option" where
  "rtu_serve E mem s ds port buff n =
    (if n \<le> 0 then Some (0, None, s, ds)
     else do {
       ok \<leftarrow> crc16check buff n;
       if \<not> ok then Some (0, None, s, ds)
       else do {
         (r, b1, s1, ds1) \<leftarrow> create_response E mem s ds port buff (int MB_BUFF_SIZE);
         if r < 0 then Some (r, None, s1, ds1)
         else if r = 0 then Some (0, None, s1, ds1)
         else do {
           checksum \<leftarrow> crc16 b1 r;
           b2 \<leftarrow> mem_put b1 r (put_word checksum);
           w \<leftarrow> mem_get b2 0 (r + 2);
           Some (0, Some w, s1, ds1)
         }
       }
     })"

record client_buffer =
  cb_index :: int
  cb_buff :: "byte list"

text \<open>
  \<^verbatim>\<open>_mb_read\<close> of \<^verbatim>\<open>mbserver.c\<close> for bytes that a connection has delivered (none when it was closed). A request that gets no answer
  stays in the buffer.
\<close>

definition tcp_serve ::
  "env \<Rightarrow> bool \<Rightarrow> server \<Rightarrow> dax_state \<Rightarrow> mb_port \<Rightarrow> client_buffer \<Rightarrow> byte list \<Rightarrow>
    (int \<times> byte list option \<times> client_buffer \<times> server \<times> dax_state) option" where
  "tcp_serve E mem s ds port cc bs =
    (let got = take 100 bs in
     if got = [] then Some (MB_ERR_NO_SOCKET, None, cc, s, ds)
     else if int MB_BUFF_SIZE < int (length got) + cb_index cc then Some (MB_ERR_OVERFLOW, None, cc, s, ds)
     else do {
       b \<leftarrow> mem_put (cb_buff cc) (cb_index cc) got;
       let i = cb_index cc + int (length got);
       let cc1 = \<lparr>cb_index = i, cb_buff = b\<rparr>;
       if i \<le> 5 then Some (0, None, cc1, s, ds)
       else do {
         msgsize \<leftarrow> get_word b 4;
         if i < uint msgsize + 6 then Some (0, None, cc1, s, ds)
         else do {
           (r, b1, s1, ds1) \<leftarrow> create_response E mem s ds port (drop 6 b) (int MB_BUFF_SIZE - 6);
           let b2 = take 6 b @ b1;
           if r < 0 then Some (r, None, cc1\<lparr>cb_buff := b2\<rparr>, s1, ds1)
           else if r = 0 then Some (0, None, cc1\<lparr>cb_buff := b2\<rparr>, s1, ds1)
           else do {
             b3 \<leftarrow> mem_put b2 4 (put_word (word_of_int r));
             w \<leftarrow> mem_get b3 0 (r + 6);
             Some (0, Some w, \<lparr>cb_index = 0, cb_buff = b3\<rparr>, s1, ds1)
           }
         }
       }
     })"

end
