(* ===== verification/Modbus_Master.thy ===== *)
theory Modbus_Master
  imports Modbus_Slave
begin

text \<open>
  The master side of the Modbus module: setting up a command (\<^verbatim>\<open>mbcmds.c\<close>), the request frames for a serial line and for
  TCP, and the evaluation of the response (\<^verbatim>\<open>modbus.c\<close>).
\<close>

section \<open>Commands\<close>

record mb_cmd =
  c_enable :: byte
  c_mode :: byte
  c_node :: byte
  c_function :: byte
  c_register :: u16
  c_length :: u16
  c_data :: "byte list"
  c_requests :: u32
  c_responses :: u32
  c_lastcrc :: u16
  c_firstrun :: bool

abbreviation MB_ERR_ALLOC :: int where "MB_ERR_ALLOC \<equiv> - 2"
abbreviation MB_ERR_FUNCTION :: int where "MB_ERR_FUNCTION \<equiv> - 9"
abbreviation MB_CONTINUOUS :: byte where "MB_CONTINUOUS \<equiv> 1"
abbreviation MB_ONCHANGE :: byte where "MB_ONCHANGE \<equiv> 4"

definition initcmd :: mb_cmd where
  "initcmd = \<lparr>c_enable = 1, c_mode = 0, c_node = 0, c_function = 0, c_register = 0, c_length = 0, c_data = [],
     c_requests = 0, c_responses = 0, c_lastcrc = 0, c_firstrun = False\<rparr>"

text \<open>The bytes of data that a command needs.\<close>

definition cmd_size :: "byte \<Rightarrow> u16 \<Rightarrow> int" where
  "cmd_size function len =
    (if function \<in> {1, 2, 15} then (uint len - 1) div 8 + 1
     else if function \<in> {3, 4, 16} then uint len * 2
     else if function = 5 then 1 else if function = 6 then 2 else 0)"

text \<open>
  \<^verbatim>\<open>mb_set_command\<close>: \<open>fresh\<close> has the bytes of a larger block behind those that \<^verbatim>\<open>realloc\<close> keeps; \<open>mem\<close> says whether it succeeds.
\<close>

definition mb_set_command ::
  "bool \<Rightarrow> byte list \<Rightarrow> mb_cmd \<Rightarrow> byte \<Rightarrow> byte \<Rightarrow> u16 \<Rightarrow> u16 \<Rightarrow> int \<times> mb_cmd" where
  "mb_set_command mem fresh cmd node function reg len =
    (if node < 1 \<or> 247 < node then (MB_ERR_BAD_ARG, cmd)
     else
       let c1 = cmd\<lparr>c_node := node\<rparr>
       in if function \<notin> {1, 2, 3, 4, 5, 6, 15, 16} then (MB_ERR_FUNCTION, c1)
          else
            let c2 = c1\<lparr>c_function := function, c_register := reg\<rparr>
            in if function \<in> {1, 2, 15} \<and> (len < 1 \<or> 2000 < len) then (MB_ERR_BAD_ARG, c2)
               else if function \<in> {3, 4, 16} \<and> (len < 1 \<or> 125 < len) then (MB_ERR_BAD_ARG, c2)
               else
                 let c3 = c2\<lparr>c_length := len\<rparr>; n = nat (cmd_size function len)
                 in if \<not> mem then (MB_ERR_ALLOC, c3)
                    else (0, c3\<lparr>c_data := take n (c_data cmd @ fresh)\<rparr>))"

definition mb_set_mode :: "mb_cmd \<Rightarrow> byte \<Rightarrow> mb_cmd" where
  "mb_set_mode cmd mode = cmd\<lparr>c_mode := (if mode = MB_ONCHANGE then MB_ONCHANGE else MB_CONTINUOUS)\<rparr>"

definition mb_is_read_cmd :: "mb_cmd \<Rightarrow> bool" where
  "mb_is_read_cmd cmd \<longleftrightarrow> c_function cmd \<in> {1, 2, 3, 4}"

definition mb_is_write_cmd :: "mb_cmd \<Rightarrow> bool" where
  "mb_is_write_cmd cmd \<longleftrightarrow> c_function cmd \<in> {5, 6, 15, 16}"

section \<open>Requests\<close>

text \<open>What is compared with the last request when a command is only sent after a change.\<close>

definition coils_crc :: "mb_cmd \<Rightarrow> u16 option" where
  "coils_crc cmd =
    (if 16 < c_length cmd then crc16 (c_data cmd) (int (length (c_data cmd)))
     else if 8 < c_length cmd then map_option dec16 (mem_get (c_data cmd) 0 2)
     else map_option ucast (arr_get (c_data cmd) 0))"

definition data_crc :: "mb_cmd \<Rightarrow> u16 option" where
  "data_crc cmd = crc16 (c_data cmd) (int (length (c_data cmd)))"

text \<open>
  The loop of \<^verbatim>\<open>sendRTUrequest\<close> for function 15 takes the number of bytes from the place where it
  puts the first of them.
\<close>

function rtu_coils :: "byte list \<Rightarrow> byte list \<Rightarrow> nat \<Rightarrow> byte list option" where
  "rtu_coils data buff n =
    (if unat (buff ! 7) \<le> n then Some buff
     else do {
       x \<leftarrow> arr_get data (int n);
       b \<leftarrow> arr_set buff (7 + int n) x;
       rtu_coils data b (n + 1)
     })"
  by pat_completeness auto
termination
proof (relation "measure (\<lambda>(data, buff, n). 256 - n)", goal_cases)
  case (2 data buff n x b)
  then show ?case using unat_byte_less [of "buff ! 7"] by (simp del: unat_byte_less)
qed simp

declare rtu_coils.simps [simp del]

text \<open>The first six bytes, and the two words of most requests.\<close>

definition put_words :: "byte list \<Rightarrow> int \<Rightarrow> u16 \<Rightarrow> u16 \<Rightarrow> byte list option" where
  "put_words buff i a b = do { b1 \<leftarrow> mem_put buff i (put_word a); mem_put b1 (i + 2) (put_word b) }"

text \<open>
  The part of \<^verbatim>\<open>sendRTUrequest\<close> that builds the message: no value when there is nothing to send, else the buffer, the
  length, which is kept in one byte, and the command. The value of a single register or coil is read through a pointer to
  bytes.
\<close>

definition rtu_message :: "env \<Rightarrow> mb_cmd \<Rightarrow> (byte list \<times> byte \<times> mb_cmd) option option" where
  "rtu_message E cmd =
    (let buff = c_node cmd # c_function cmd # map (junk E) [2..<1024]; always = c_enable cmd = MB_CONTINUOUS
     in if c_function cmd \<in> {1, 2, 3, 4} then
          do { b \<leftarrow> put_words buff 2 (c_register cmd) (c_length cmd); Some (Some (b, 6, cmd)) }
        else if c_function cmd = 5 then
          do {
            d \<leftarrow> arr_get (c_data cmd) 0;
            if always \<or> ucast d \<noteq> c_lastcrc cmd \<or> \<not> c_firstrun cmd then
              do {
                b \<leftarrow> put_words buff 2 (c_register cmd) (if d \<noteq> 0 then 0xFF00 else 0);
                Some (Some (b, 6, cmd\<lparr>c_firstrun := True, c_lastcrc := ucast d\<rparr>))
              }
            else Some None
          }
        else if c_function cmd = 6 then
          do {
            d \<leftarrow> arr_get (c_data cmd) 0;
            if always \<or> ucast d \<noteq> c_lastcrc cmd then
              do {
                b \<leftarrow> put_words buff 2 (c_register cmd) (ucast d);
                Some (Some (b, 6, cmd\<lparr>c_lastcrc := ucast d\<rparr>))
              }
            else Some None
          }
        else if c_function cmd = 15 then
          do {
            crc \<leftarrow> (if always then Some (dec16 [junk E 0, junk E 1]) else coils_crc cmd);
            if always \<or> crc \<noteq> c_lastcrc cmd then
              do {
                b1 \<leftarrow> put_words buff 2 (c_register cmd) (c_length cmd);
                b2 \<leftarrow> arr_set b1 6 (word_of_int (div8 (uint (c_length cmd) - 1) + 1));
                b3 \<leftarrow> rtu_coils (c_data cmd) b2 0;
                Some (Some (b3, 7 + b3 ! 7, cmd\<lparr>c_lastcrc := crc\<rparr>))
              }
            else Some None
          }
        else if c_function cmd = 16 then
          do {
            crc \<leftarrow> (if always then Some (dec16 [junk E 0, junk E 1]) else data_crc cmd);
            if always \<or> crc \<noteq> c_lastcrc cmd then
              do {
                b1 \<leftarrow> put_words buff 2 (c_register cmd) (c_length cmd);
                b2 \<leftarrow> arr_set b1 6 (ucast (c_length cmd) * 2);
                b3 \<leftarrow> copy_words (c_data cmd) 0 b2 7 (unat (c_length cmd));
                Some (Some (b3, 7 + ucast (c_length cmd) * 2, cmd\<lparr>c_lastcrc := crc\<rparr>))
              }
            else Some None
          }
        else None)"

definition sendRTUrequest :: "env \<Rightarrow> mb_cmd \<Rightarrow> (byte list option \<times> mb_cmd) option" where
  "sendRTUrequest E cmd =
    do {
      m \<leftarrow> rtu_message E cmd;
      (case m of
         None \<Rightarrow> Some (None, cmd)
       | Some (b, len, c1) \<Rightarrow>
           do {
             crc \<leftarrow> crc16 b (uint len);
             b1 \<leftarrow> mem_put b (uint len) (put_word crc);
             w \<leftarrow> mem_get b1 0 (uint len + 2);
             Some (Some w, c1\<lparr>c_requests := c_requests c1 + 1\<rparr>)
           })
    }"

text \<open>
  The same for TCP, with the header in front and the length of the message in it; function 5 clears a byte of
  the header instead of the second byte of the value.
\<close>

definition tcp_message :: "env \<Rightarrow> u16 \<Rightarrow> mb_cmd \<Rightarrow> (byte list \<times> u16 \<times> mb_cmd) option option" where
  "tcp_message E tid cmd =
    (let buff = put_word tid @ [0, 0] @ map (junk E) [4..<6] @ [c_node cmd, c_function cmd] @ map (junk E) [8..<1024];
         always = c_enable cmd = MB_CONTINUOUS
     in if c_function cmd \<in> {1, 2, 3, 4} then
          do { b \<leftarrow> put_words buff 8 (c_register cmd) (c_length cmd); Some (Some (b, 6, cmd)) }
        else if c_function cmd = 5 then
          do {
            d \<leftarrow> arr_get (c_data cmd) 0;
            if always \<or> ucast d \<noteq> c_lastcrc cmd \<or> \<not> c_firstrun cmd then
              do {
                b \<leftarrow> mem_put buff 8 (put_word (c_register cmd) @ [if d \<noteq> 0 then 0xFF else 0]);
                b1 \<leftarrow> arr_set b 5 0;
                Some (Some (b1, 6, cmd\<lparr>c_firstrun := True, c_lastcrc := ucast d\<rparr>))
              }
            else Some None
          }
        else if c_function cmd = 6 then
          do {
            d \<leftarrow> arr_get (c_data cmd) 0;
            if always \<or> ucast d \<noteq> c_lastcrc cmd then
              do {
                b1 \<leftarrow> mem_put buff 8 (put_word (c_register cmd));
                b2 \<leftarrow> copy_words (c_data cmd) 0 b1 10 1;
                Some (Some (b2, 6, cmd\<lparr>c_lastcrc := ucast d\<rparr>))
              }
            else Some None
          }
        else if c_function cmd = 15 then
          do {
            crc \<leftarrow> (if always then Some (dec16 [junk E 0, junk E 1]) else coils_crc cmd);
            if always \<or> crc \<noteq> c_lastcrc cmd then
              do {
                b1 \<leftarrow> put_words buff 8 (c_register cmd) (c_length cmd);
                let n = (word_of_int (div8 (uint (c_length cmd) - 1) + 1) :: byte);
                b2 \<leftarrow> arr_set b1 12 n;
                d \<leftarrow> mem_get (c_data cmd) 0 (uint n);
                b3 \<leftarrow> mem_put b2 13 d;
                Some (Some (b3, 7 + ucast n, cmd\<lparr>c_lastcrc := crc\<rparr>))
              }
            else Some None
          }
        else if c_function cmd = 16 then
          do {
            crc \<leftarrow> (if always then Some (dec16 [junk E 0, junk E 1]) else data_crc cmd);
            if always \<or> crc \<noteq> c_lastcrc cmd then
              do {
                b1 \<leftarrow> put_words buff 8 (c_register cmd) (c_length cmd);
                b2 \<leftarrow> arr_set b1 12 (ucast (c_length cmd) * 2);
                b3 \<leftarrow> copy_words (c_data cmd) 0 b2 13 (unat (c_length cmd));
                Some (Some (b3, 7 + c_length cmd * 2, cmd\<lparr>c_lastcrc := crc\<rparr>))
              }
            else Some None
          }
        else None)"

definition sendTCPrequest :: "env \<Rightarrow> u16 \<Rightarrow> mb_cmd \<Rightarrow> (byte list option \<times> u16 \<times> mb_cmd) option" where
  "sendTCPrequest E tid cmd =
    do {
      m \<leftarrow> tcp_message E tid cmd;
      (case m of
         None \<Rightarrow> Some (None, tid + 1, cmd)
       | Some (b, len, c1) \<Rightarrow>
           do {
             b1 \<leftarrow> mem_put b 4 (put_word len);
             w \<leftarrow> mem_get b1 0 (uint len + 6);
             Some (Some w, tid + 1, c1\<lparr>c_requests := c_requests c1 + 1\<rparr>)
           })
    }"

section \<open>Responses\<close>

text \<open>
  \<^verbatim>\<open>getRTUresponse\<close> once the whole message is in the buffer, and \<^verbatim>\<open>getTCPresponse\<close>, which cuts the header off.
\<close>

definition getRTUresponse :: "byte list \<Rightarrow> int \<Rightarrow> int option" where
  "getRTUresponse buff n = map_option (\<lambda>ok. if ok then n else - 1) (crc16check buff n)"

definition getTCPresponse :: "byte list \<Rightarrow> byte list \<Rightarrow> (int \<times> byte list) option" where
  "getTCPresponse bs buff =
    (let got = take 256 bs in
     if got = [] then Some (0, buff)
     else if length got < 6 then None
     else do { b \<leftarrow> mem_put buff 0 (drop 6 got); Some (int (length got) - 6, b) })"

definition handleresponse :: "byte list \<Rightarrow> mb_cmd \<Rightarrow> (int \<times> mb_cmd) option" where
  "handleresponse buff cmd =
    do {
      let c1 = cmd\<lparr>c_responses := c_responses cmd + 1\<rparr>;
      b0 \<leftarrow> arr_get buff 0;
      b1 \<leftarrow> arr_get buff 1;
      b2 \<leftarrow> arr_get buff 2;
      if 0x80 \<le> b1 then Some (uint b2, c1)
      else if b0 \<noteq> c_node cmd then Some (ME_WRONG_DEVICE, c1)
      else if b1 \<noteq> c_function cmd then Some (ME_WRONG_FUNCTION, c1)
      else if c_function cmd \<in> {1, 2} then
        do {
          d \<leftarrow> mem_get buff 3 (uint b2);
          data \<leftarrow> mem_put (c_data cmd) 0 d;
          Some (0, c1\<lparr>c_data := data\<rparr>)
        }
      else if c_function cmd \<in> {3, 4} then
        do {
          data \<leftarrow> copy_words buff 3 (c_data cmd) 0 (unat b2 div 2);
          Some (0, c1\<lparr>c_data := data\<rparr>)
        }
      else Some (0, c1)
    }"

end
