(* ===== verification/Modbus_Laws.thy ===== *)
theory Modbus_Laws
  imports Modbus_Master Client_Access
begin

text \<open>
  The Modbus module on top of the client library: words and their order of bytes, and the registers of a slave
  as parts of a tag.
\<close>

section \<open>Words\<close>

fun swab :: "byte list \<Rightarrow> byte list" where
  "swab (x # y # r) = y # x # swab r"
| "swab xs = []"

lemma swab_length: "even (length xs) \<Longrightarrow> length (swab xs) = length xs"
  by (induction xs rule: swab.induct) auto

lemma swab_swab [simp]: "even (length xs) \<Longrightarrow> swab (swab xs) = xs"
  by (induction xs rule: swab.induct) auto

lemma swab_append: "even (length xs) \<Longrightarrow> swab (xs @ ys) = swab xs @ swab ys"
  by (induction xs rule: swab.induct) auto

lemma copy_words_eq:
  assumes "i + 2 * k \<le> length src" and "j + 2 * k \<le> length dst"
  shows "copy_words src i dst j k = Some (take j dst @ swab (take (2 * k) (drop i src)) @ drop (j + 2 * k) dst)"
  using assms
proof (induction k)
  case (Suc k)
  let ?w = "swab (take (2 * k) (drop i src))"
  have len: "length ?w = 2 * k" using Suc.prems by (subst swab_length) auto
  obtain p q where pq: "take 2 (drop (i + 2 * k) src) = [p, q]"
  proof -
    have "length (take 2 (drop (i + 2 * k) src)) = Suc (Suc 0)" using Suc.prems by simp
    then show ?thesis using that by (auto simp: length_Suc_conv simp del: length_take)
  qed
  have "take (2 * Suc k) (drop i src) = take (2 * k) (drop i src) @ take 2 (drop (i + 2 * k) src)"
    using take_add [of "2 * k" 2 "drop i src"] by (simp add: add.commute)
  moreover have "even (length (take (2 * k) (drop i src)))" using Suc.prems by simp
  ultimately have sw: "swab (take (2 * Suc k) (drop i src)) = ?w @ [q, p]" by (simp add: pq swab_append)
  have "copy_words src i dst j (Suc k) = mem_put (take j dst @ ?w @ drop (j + 2 * k) dst) (int (j + 2 * k)) [q, p]"
    using Suc pq by (simp add: mem_get_def nat_add_distrib nat_mult_distrib)
  also have "\<dots> = Some (take j dst @ (?w @ [q, p]) @ drop (j + 2 * Suc k) dst)"
    using Suc.prems len by (simp add: mem_put_def nat_add_distrib nat_mult_distrib)
  finally show ?case by (simp only: sw)
qed simp

lemma put_word_length [simp]: "length (put_word w) = 2"
  by (simp add: put_word_def)

lemma get_word_at:
  assumes "take 2 (drop i buff) = put_word w" and "i + 2 \<le> length buff"
  shows "get_word buff (int i) = Some w"
  using assms put_get_word [of w] by (simp add: get_word_def mem_get_def)

section \<open>Registers in tags\<close>

lemma unat_u32_small:
  assumes "0 \<le> x" and "x < 2 ^ 31"
  shows "int (unat (u32_of x)) = x"
  using uint_u32_of [of x] assms by (simp add: int32_ok_def)

lemma unat_double: "unat (u32_of (uint (w :: u16) * 2)) = 2 * unat w"
proof -
  have "uint w < 65536" using unsigned_less [of w] by simp
  then have "int (unat (u32_of (uint w * 2))) = uint w * 2" by (intro unat_u32_small) simp_all
  also have "\<dots> = int (2 * unat w)" by simp
  finally show ?thesis by (simp only: of_nat_eq_iff)
qed

lemma unat_u32_u16: "unat (u32_of (uint (w :: u16))) = unat w"
proof -
  have "uint w < 65536" using unsigned_less [of w] by simp
  then have "int (unat (u32_of (uint w))) = uint w" by (intro unat_u32_small) simp_all
  also have "\<dots> = int (unat w)" by simp
  finally show ?thesis by (simp only: of_nat_eq_iff)
qed

lemma slave_handle_words:
  fixes index count :: u16
  assumes "reg \<in> {MB_REG_HOLDING, MB_REG_INPUT}"
  shows "number_handle (slave_handle idx reg (uint index) (uint count))"
    "h_index (slave_handle idx reg (uint index) (uint count)) = idx"
    "unat (h_byte (slave_handle idx reg (uint index) (uint count))) = 2 * unat index"
    "unat (h_size (slave_handle idx reg (uint index) (uint count))) = 2 * unat count"
  using assms by (auto simp: slave_handle_def number_handle_def unat_double unat_u32_u16 base_types_def TYPESIZE_def)

lemma slave_read_words:
  fixes index count :: u16
  assumes "quiet s idx t b" and "int32_ok idx" and "0 \<le> sfd ds" and "xwrite_ok E (sfd ds)"
    and "reg \<in> {MB_REG_HOLDING, MB_REG_INPUT}" and "2 * (unat index + unat count) \<le> length b" and "2 * unat count \<le> length data"
  shows "\<exists>s'. slave_read_database E mem s ds idx reg (uint index) (uint count) data =
      Some (take (2 * unat count) (drop (2 * unat index) b) @ drop (2 * unat count) data, s', ds) \<and>
    quiet s' idx t b \<and> (\<forall>j. get_tag s' j = get_tag s j)"
proof -
  let ?h = "slave_handle idx reg (uint index) (uint count)"
  note h = slave_handle_words [OF assms(5), of idx index count]
  from dax_tag_read_number [of s ?h t b ds E data mem] assms h show ?thesis
    by (auto simp: slave_read_database_def)
qed

lemma slave_write_words:
  fixes index count :: u16
  assumes "quiet s idx t b" and "int32_ok idx" and "0 \<le> sfd ds" and "xwrite_ok E (sfd ds)"
    and "reg \<in> {MB_REG_HOLDING, MB_REG_INPUT}" and "2 * (unat index + unat count) \<le> length b" and "2 * unat count \<le> length data"
  shows "\<exists>s' t' b'. slave_write_database E mem s ds idx reg (uint index) (uint count) data = Some (s', ds) \<and>
    b' = take (2 * unat index) b @ take (2 * unat count) data @ drop (2 * unat index + 2 * unat count) b \<and>
    quiet s' idx t' b' \<and> (\<forall>j. j \<noteq> idx \<longrightarrow> get_tag s' j = get_tag s j)"
proof -
  let ?h = "slave_handle idx reg (uint index) (uint count)"
  note h = slave_handle_words [OF assms(5), of idx index count]
  from dax_tag_write_number [of s ?h t b ds E data mem] assms h obtain s' t' b' where
    "dax_tag_write E s ds mem ?h data = Some (0, s', ds)"
    "b' = take (2 * unat index) b @ take (2 * unat count) data @ drop (2 * unat index + 2 * unat count) b"
    "quiet s' idx t' b'" "\<forall>j. j \<noteq> idx \<longrightarrow> get_tag s' j = get_tag s j" by auto
  then show ?thesis by (auto simp: slave_write_database_def)
qed

text \<open>Registers behind the end of the tag are not delivered.\<close>

lemma dax_read_too_big:
  assumes q: "quiet s i t b" and i: "int32_ok i" and fd: "0 \<le> sfd ds" and x: "xwrite_ok E (sfd ds)"
    and n: "n \<le> MSG_DATA_SIZE" and big: "length b < unat off + n" "unat off + n < 2 ^ 31"
  shows "dax_read E s ds i off buf n =
    Some (ERR_2BIG, buf, answered s (sfd ds) (MSG_TAG_READ OR MSG_ERROR) (enc_int ERR_2BIG), ds)"
proof -
  let ?p = "enc_int i @ enc32 off @ enc32 (of_nat n) @ [junk E 12, junk E 13]"
  have o: "int_of_u32 off = int (unat off)" using big(2) by (intro int_of_u32_unat) linarith
  have lt: "int (unat off) + int n < 2 ^ 31" "n < 2 ^ 31" "int (length b) < int (unat off) + int n"
    using big by (simp_all del: of_nat_unat)
  have "tag_read E s (sfd ds) i (int (unat off)) (map (junk E) [0..<MSG_DATA_SIZE]) (int n) =
      Some (ERR_2BIG, map (junk E) [0..<MSG_DATA_SIZE], s)"
    using tag_read_block [OF plainD(9) [OF quietD(1) [OF q]], of "int (unat off)" "int n" "map (junk E) [0..<MSG_DATA_SIZE]"]
      lt n quietD(5) [OF q] by (simp del: of_nat_unat)
  then have "msg_tag_read E s (request_msg E (sfd ds) MSG_TAG_READ ?p) =
      Some (0, answered s (sfd ds) (MSG_TAG_READ OR MSG_ERROR) (enc_int ERR_2BIG))"
    using i o lt(2) send_error_answered [OF x]
    by (simp add: msg_tag_read_def request_fields request_third del: of_nat_unat)
  then have "message_request E s ds MSG_TAG_READ ?p =
      Some (ERR_2BIG, [], answered s (sfd ds) (MSG_TAG_READ OR MSG_ERROR) (enc_int ERR_2BIG))"
    using fd by (intro request_error) (simp_all add: data_command_def MSG_DATA_SIZE_def cmd_arr_data [simplified] int32_ok_def)
  then show ?thesis using n by (simp add: dax_read_def drop_deleted_def)
qed

lemma slave_read_words_big:
  fixes index count :: u16
  assumes "quiet s idx t b" and "int32_ok idx" and "0 \<le> sfd ds" and "xwrite_ok E (sfd ds)"
    and "reg \<in> {MB_REG_HOLDING, MB_REG_INPUT}" and "length b < 2 * (unat index + unat count)" and "unat count \<le> 150"
  shows "\<exists>s'. slave_read_database E mem s ds idx reg (uint index) (uint count) data = Some (data, s', ds) \<and>
    quiet s' idx t b \<and> (\<forall>j. get_tag s' j = get_tag s j)"
proof -
  let ?h = "slave_handle idx reg (uint index) (uint count)"
  note h = slave_handle_words [OF assms(5), of idx index count]
  have "unat index < 2 ^ 16" "unat count < 2 ^ 16" using unsigned_less [of index] unsigned_less [of count] by simp_all
  then have "dax_read E s ds idx (h_byte ?h) data (unat (h_size ?h)) =
      Some (ERR_2BIG, data, answered s (sfd ds) (MSG_TAG_READ OR MSG_ERROR) (enc_int ERR_2BIG), ds)"
    using assms h by (intro dax_read_too_big [OF assms(1-4)]) (simp_all add: MSG_DATA_SIZE_def)
  then have "dax_tag_read E s ds mem ?h data =
      Some (ERR_2BIG, data, answered s (sfd ds) (MSG_TAG_READ OR MSG_ERROR) (enc_int ERR_2BIG), ds)"
    using h assms(7) by (simp add: dax_tag_read_def MSG_DATA_SIZE_def Let_def)
  then show ?thesis using answered_quiet [OF assms(1)] by (simp add: slave_read_database_def)
qed

end
