(* ===== verification/Modbus_Properties.thy ===== *)
theory Modbus_Properties
  imports Modbus_Laws Client_Properties
begin

text \<open>
  Properties of the Modbus module: what a slave answers, and a master, a slave, the client library and the tag server
  together.
\<close>

section \<open>Requests and responses\<close>

text \<open>A node that a port serves, without callbacks.\<close>

definition serves :: "mb_port \<Rightarrow> byte \<Rightarrow> mb_node_def \<Rightarrow> bool" where
  "serves port node nd \<longleftrightarrow>
    unat node < length (mb_nodes port) \<and> mb_nodes port ! unat node = Some nd \<and> read_callback nd = None \<and> write_callback nd = None"

definition mb_request :: "byte \<Rightarrow> byte \<Rightarrow> u16 \<Rightarrow> u16 \<Rightarrow> byte list" where
  "mb_request node function a b = [node, function] @ put_word a @ put_word b"

lemma mb_request_words:
  "get_word (mb_request node f a b @ rest) 2 = Some a" "get_word (mb_request node f a b @ rest) 4 = Some b"
  "length (mb_request node f a b) = 6"
proof -
  have "take 2 (drop 2 (mb_request node f a b @ rest)) = put_word a" "take 2 (drop 4 (mb_request node f a b @ rest)) = put_word b"
    by (simp_all add: mb_request_def put_word_def)
  from this [THEN get_word_at] show "get_word (mb_request node f a b @ rest) 2 = Some a" "get_word (mb_request node f a b @ rest) 4 = Some b"
    by (simp_all add: mb_request_def put_word_def)
qed (simp add: mb_request_def)

lemma mb_request_start: "mb_request node f a b @ rest = node # f # put_word a @ put_word b @ rest"
  by (simp add: mb_request_def)

lemma serves_nodes:
  assumes "serves port node nd"
  shows "arr_get (mb_nodes port) (uint node) = Some (Some nd)" "\<exists>n0. arr_get (mb_nodes port) 0 = Some n0"
  using assms by (auto simp: serves_def arr_get_uint) (auto simp: arr_get_def)

lemma create_response_holding:
  assumes "serves port node nd" and "hold_size nd \<noteq> 0"
  shows "create_response E mem s ds port (mb_request node 3 index count @ rest) sz =
      read_words_response E mem s ds nd (mb_request node 3 index count @ rest) sz MB_REG_HOLDING"
    and "create_response E mem s ds port (mb_request node 16 index count @ rest) sz =
      Option.bind (write_registers E mem s ds nd (mb_request node 16 index count @ rest))
        (write_response nd node 16 (mb_request node 16 index count @ rest))"
proof -
  obtain n0 where n: "arr_get (mb_nodes port) (uint node) = Some (Some nd)" "arr_get (mb_nodes port) 0 = Some n0"
    using serves_nodes [OF assms(1)] by blast
  have b: "arr_get (mb_request node f index count @ rest) 0 = Some node" "arr_get (mb_request node f index count @ rest) 1 = Some f" for f
    by (simp_all add: arr_get_def mb_request_def)
  have "read_hook nd node f buff = Some 0" for f buff using assms(1) by (simp add: read_hook_def serves_def)
  then show "create_response E mem s ds port (mb_request node 3 index count @ rest) sz =
      read_words_response E mem s ds nd (mb_request node 3 index count @ rest) sz MB_REG_HOLDING"
    "create_response E mem s ds port (mb_request node 16 index count @ rest) sz =
      Option.bind (write_registers E mem s ds nd (mb_request node 16 index count @ rest))
        (write_response nd node 16 (mb_request node 16 index count @ rest))"
    using n b assms(2) by (simp_all add: create_response_def check_function_code_exception_def)
qed

lemma create_exception_bytes:
  assumes "2 < length buff"
  shows "create_exception buff e = Some (3, buff[1 := buff ! 1 OR ME_EXCEPTION, 2 := word_of_int e])"
  using assms by (simp add: create_exception_def arr_get_def arr_set_def)

lemma read_words_answer:
  assumes nd: "quiet s (hold_idx nd) t b" "length b = 2 * unat (hold_size nd)" "int32_ok (hold_idx nd)"
    and cl: "0 \<le> sfd ds" "xwrite_ok E (sfd ds)"
    and sz: "2 * unat count + 3 \<le> sz" "sz \<le> length (mb_request node 3 index count @ rest)" "unat count \<le> 125"
  shows "\<exists>n buff' s'. read_words_response E mem s ds nd (mb_request node 3 index count @ rest) (int sz) MB_REG_HOLDING = Some (int n, buff', s', ds) \<and>
    (\<forall>j. get_tag s' j = get_tag s j) \<and> quiet s' (hold_idx nd) t b \<and> length buff' = length (mb_request node 3 index count @ rest) \<and>
    take n buff' = (if unat index + unat count \<le> unat (hold_size nd)
      then [node, 3, of_nat (2 * unat count)] @ swab (take (2 * unat count) (drop (2 * unat index) b))
      else [node, 0x83, 2]) \<and>
    n = (if unat index + unat count \<le> unat (hold_size nd) then 2 * unat count + 3 else 3)"
proof -
  let ?buff = "mb_request node 3 index count @ rest" and ?c = "unat count" and ?i = "unat index"
  define data where "data = map (junk E) [0..<300]"
  have ld: "length data = 300" by (simp only: data_def length_map length_upt)
  have room: "\<not> int sz - 3 < uint count * 2"
  proof -
    have "int (2 * ?c + 3) \<le> int sz" using sz(1) by (simp only: of_nat_le_iff)
    then show ?thesis by simp
  qed
  have cmp: "uint (hold_size nd) < uint index + uint count \<longleftrightarrow> \<not> ?i + ?c \<le> unat (hold_size nd)"
  proof -
    have "uint (hold_size nd) < uint index + uint count \<longleftrightarrow> int (unat (hold_size nd)) < int (?i + ?c)" by simp
    then show ?thesis by (simp only: of_nat_less_iff not_le)
  qed
  show ?thesis
  proof (cases "?i + ?c \<le> unat (hold_size nd)")
    case True
    let ?w = "take (2 * ?c) (drop (2 * ?i) b)"
    have fit: "2 * (?i + ?c) \<le> length b" using True nd(2) by simp
    obtain s' where r: "slave_read_database E mem s ds (hold_idx nd) MB_REG_HOLDING (uint index) (uint count) data =
        Some (?w @ drop (2 * ?c) data, s', ds)" "quiet s' (hold_idx nd) t b" "\<forall>j. get_tag s' j = get_tag s j"
      using slave_read_words [OF nd(1,3) cl, of MB_REG_HOLDING index count data mem] fit sz(3) ld by auto
    define b1 where "b1 = ?buff[2 := word_of_int (uint count * 2)]"
    have b1: "length b1 = length ?buff" "take 3 b1 = [node, 3, of_nat (2 * ?c)]"
      by (simp_all add: b1_def mb_request_def put_word_def numeral_3_eq_3)
    have set: "arr_set ?buff 2 (word_of_int (uint count * 2)) = Some b1" using sz(1,2) by (simp add: arr_set_def b1_def)
    have len: "length ?w = 2 * ?c" using fit by simp
    define b2 where "b2 = take 3 b1 @ swab ?w @ drop (3 + 2 * ?c) b1"
    have cw: "copy_words (?w @ drop (2 * ?c) data) 0 b1 3 ?c = Some b2"
      using copy_words_eq [of 0 ?c "?w @ drop (2 * ?c) data" 3 b1] len sz b1(1) ld by (simp add: b2_def)
    have sw: "length (swab ?w) = 2 * ?c" using len by (subst swab_length) simp_all
    have "read_words_response E mem s ds nd ?buff (int sz) MB_REG_HOLDING = Some (uint count * 2 + 3, b2, s', ds)"
      using room cmp True r(1) set cw by (simp add: read_words_response_def data_def [symmetric] mb_request_words)
    moreover have "uint count * 2 + 3 = int (2 * ?c + 3)" by simp
    moreover have "length (take 3 b1) = 3" by (simp only: b1(2)) simp
    then have "take (2 * ?c + 3) b2 = take 3 b1 @ swab ?w" using sw by (simp add: b2_def del: length_take)
    moreover have "length b2 = length ?buff" using sw b1 sz by (simp add: b2_def)
    ultimately show ?thesis using True r(2,3) b1(2) by (intro exI [of _ "2 * ?c + 3"] exI [of _ b2] exI [of _ s']) simp
  next
    case False
    obtain s' where r: "slave_read_database E mem s ds (hold_idx nd) MB_REG_HOLDING (uint index) (uint count) data = Some (data, s', ds)"
      "quiet s' (hold_idx nd) t b" "\<forall>j. get_tag s' j = get_tag s j"
      using slave_read_words_big [OF nd(1,3) cl, of MB_REG_HOLDING index count mem data] False nd(2) sz(3) by auto
    let ?b = "?buff[1 := ?buff ! 1 OR ME_EXCEPTION, 2 := word_of_int ME_BAD_ADDRESS]"
    have "read_words_response E mem s ds nd ?buff (int sz) MB_REG_HOLDING = Some (3, ?b, s', ds)"
      using room cmp False r(1) sz by (simp add: read_words_response_def data_def [symmetric] mb_request_words create_exception_bytes)
    moreover have "take 3 ?b = [node, 0x83, 2]" by (simp add: mb_request_def put_word_def numeral_3_eq_3 numeral_2_eq_2)
    ultimately show ?thesis using False r(2,3) by (intro exI [of _ "3 :: nat"] exI [of _ ?b] exI [of _ s']) simp
  qed
qed

lemma write_words_answer:
  assumes "serves port node nd" and nd: "quiet s (hold_idx nd) t b" "length b = 2 * unat (hold_size nd)" "int32_ok (hold_idx nd)"
    and cl: "0 \<le> sfd ds" "xwrite_ok E (sfd ds)" and d: "length d = 2 * unat count" "unat count \<le> 128"
    and fit: "unat index + unat count \<le> unat (hold_size nd)"
  shows "\<exists>s' t' b'. Option.bind (write_registers E mem s ds nd (mb_request node 16 index count @ x # d @ rest))
        (write_response nd node 16 (mb_request node 16 index count @ x # d @ rest)) =
      Some (6, mb_request node 16 index count @ x # d @ rest, s', ds) \<and>
    quiet s' (hold_idx nd) t' b' \<and> b' = take (2 * unat index) b @ swab d @ drop (2 * unat index + 2 * unat count) b \<and>
    (\<forall>j. j \<noteq> hold_idx nd \<longrightarrow> get_tag s' j = get_tag s j)"
proof -
  let ?buff = "mb_request node 16 index count @ x # d @ rest" and ?c = "unat count" and ?i = "unat index"
  define data where "data = map (junk E) [0..<256]"
  have ld: "length data = 256" by (simp only: data_def length_map length_upt)
  have cmp: "\<not> uint (hold_size nd) < uint index + uint count"
  proof -
    have "int (?i + ?c) \<le> int (unat (hold_size nd))" using fit by (simp only: of_nat_le_iff)
    then show ?thesis by simp
  qed
  have sw: "length (swab d) = 2 * ?c" using d(1) by (subst swab_length) simp_all
  have "drop 7 ?buff = d @ rest" by (simp add: mb_request_words(3))
  then have dd: "take (2 * ?c) (drop 7 ?buff) = d" using d(1) by simp
  have cw: "copy_words ?buff 7 data 0 ?c = Some (swab d @ drop (2 * ?c) data)"
    using copy_words_eq [of 7 ?c ?buff 0 data] dd d ld by (simp add: mb_request_words(3) del: drop_append)
  obtain s' t' b' where w: "slave_write_database E mem s ds (hold_idx nd) MB_REG_HOLDING (uint index) (uint count) (swab d @ drop (2 * ?c) data) = Some (s', ds)"
    "b' = take (2 * ?i) b @ swab d @ drop (2 * ?i + 2 * ?c) b" "quiet s' (hold_idx nd) t' b'"
    "\<forall>j. j \<noteq> hold_idx nd \<longrightarrow> get_tag s' j = get_tag s j"
    using slave_write_words [OF nd(1,3) cl, of MB_REG_HOLDING index count "swab d @ drop (2 * ?c) data" mem] fit nd(2) sw by auto
  have "write_registers E mem s ds nd ?buff = Some (True, index, uint count, s', ds)"
    using cmp cw w(1) by (simp add: write_registers_def data_def [symmetric] mb_request_words)
  then show ?thesis using assms(1) w by (auto simp: write_response_def serves_def)
qed

section \<open>Properties of the slave\<close>

definition demo_node :: mb_node_def where
  "demo_node = \<lparr>hold_size = 4, hold_idx = 0, input_size = 0, input_idx = 0, coil_size = 0, coil_idx = 0, disc_size = 0, disc_idx = 0,
     read_callback = None, write_callback = None\<rparr>"

definition demo_port :: mb_port where
  "demo_port = \<lparr>mb_nodes = [None, Some demo_node], mb_tcp = False\<rparr>"

lemma demo_serves: "serves demo_port 1 demo_node" "hold_size demo_node \<noteq> 0" "hold_idx demo_node = 0" "unat (hold_size demo_node) = 4"
  by (simp_all add: serves_def demo_port_def demo_node_def)

text \<open>C26: A slave answers a request for holding registers with exactly the registers asked for, each with its high byte first, as the
  tag server has them; when the range does not lie within the registers of the node it answers with the
  exception for a bad address. No tag changes.\<close>

theorem slave_read_registers:
  assumes "serves port node nd" and "hold_size nd \<noteq> 0" and "quiet s (hold_idx nd) t b" and "length b = 2 * unat (hold_size nd)"
    and "int32_ok (hold_idx nd)" and "0 \<le> sfd ds" and "xwrite_ok E (sfd ds)"
    and "2 * unat count + 3 \<le> sz" and "sz \<le> length (mb_request node 3 index count @ rest)" and "unat count \<le> 125"
  shows "\<exists>n buff' s'. create_response E mem s ds port (mb_request node 3 index count @ rest) (int sz) = Some (int n, buff', s', ds) \<and>
    (\<forall>j. get_tag s' j = get_tag s j) \<and>
    take n buff' = (if unat index + unat count \<le> unat (hold_size nd)
      then [node, 3, of_nat (2 * unat count)] @ swab (take (2 * unat count) (drop (2 * unat index) b))
      else [node, 0x83, 2])"
  using read_words_answer [OF assms(3-10), of mem] unfolding create_response_holding(1) [OF assms(1,2)] by blast

theorem slave_read_registers_witness:
  "\<exists>n buff' s'. create_response env0 True demo (demo_client 5) demo_port (mb_request 1 3 1 2 @ replicate 9 0) 15 = Some (int n, buff', s', demo_client 5) \<and>
    take n buff' = [1, 3, 4, 4, 3, 6, 5]"
  using slave_read_registers [OF demo_serves(1,2), of demo demo_tag "[1, 2, 3, 4, 5, 6, 7, 8]" "demo_client 5" env0 2 15 1 "replicate 9 0" True]
    demo_quiet demo_serves(3,4) by (auto simp: int32_ok_def mb_request_def put_word_def)

text \<open>C27: Holding registers that were written with one request are what a later request for the same
  registers delivers; the write is answered with its own first six bytes and changes no other tag and no other byte.\<close>

theorem slave_write_read_registers:
  assumes "serves port node nd" and "hold_size nd \<noteq> 0" and "quiet s (hold_idx nd) t b" and "length b = 2 * unat (hold_size nd)"
    and "int32_ok (hold_idx nd)" and "0 \<le> sfd ds" and "xwrite_ok E (sfd ds)" and "length d = 2 * unat count" and "unat count \<le> 125"
    and "unat index + unat count \<le> unat (hold_size nd)" and "2 * unat count + 3 \<le> sz"
    and "sz \<le> length (mb_request node 3 index count @ rest2)"
  shows "\<exists>s1 s2 n buff'. create_response E mem s ds port (mb_request node 16 index count @ x # d @ rest) sz1 =
      Some (6, mb_request node 16 index count @ x # d @ rest, s1, ds) \<and>
    create_response E mem s1 ds port (mb_request node 3 index count @ rest2) (int sz) = Some (int n, buff', s2, ds) \<and>
    take n buff' = [node, 3, of_nat (2 * unat count)] @ d \<and>
    (\<forall>j. j \<noteq> hold_idx nd \<longrightarrow> get_tag s2 j = get_tag s j)"
proof -
  have c: "unat count \<le> 128" using assms(9) by simp
  note ans = write_words_answer [OF assms(1,3-8) c assms(10), of mem x rest, folded create_response_holding(2) [OF assms(1,2), where sz = sz1]]
  obtain s1 t1 b1 where
    w: "create_response E mem s ds port (mb_request node 16 index count @ x # d @ rest) sz1 =
        Some (6, mb_request node 16 index count @ x # d @ rest, s1, ds)"
      "quiet s1 (hold_idx nd) t1 b1" "b1 = take (2 * unat index) b @ swab d @ drop (2 * unat index + 2 * unat count) b"
      "\<forall>j. j \<noteq> hold_idx nd \<longrightarrow> get_tag s1 j = get_tag s j"
    using ans by (elim exE conjE) (rule that)
  have sw: "length (swab d) = 2 * unat count" using assms(8) by (subst swab_length) simp_all
  have len: "length b1 = 2 * unat (hold_size nd)" using w(3) sw assms(4,10) by simp
  have "take (2 * unat count) (drop (2 * unat index) b1) = swab d" using w(3) sw assms(4,10) by simp
  moreover from read_words_answer [OF w(2) len assms(5-7,11,12,9), of mem] obtain n buff' s2 where
    "create_response E mem s1 ds port (mb_request node 3 index count @ rest2) (int sz) = Some (int n, buff', s2, ds)"
    "\<forall>j. get_tag s2 j = get_tag s1 j"
    "take n buff' = (if unat index + unat count \<le> unat (hold_size nd)
      then [node, 3, of_nat (2 * unat count)] @ swab (take (2 * unat count) (drop (2 * unat index) b1)) else [node, 0x83, 2])"
    unfolding create_response_holding(1) [OF assms(1,2)] by blast
  ultimately show ?thesis using w(1,4) assms(8,10) by (intro exI [of _ s1] exI [of _ s2] exI [of _ n] exI [of _ buff']) simp
qed

theorem slave_write_read_registers_witness:
  "\<exists>s1 s2 n buff'. create_response env0 True demo (demo_client 5) demo_port (mb_request 1 16 1 2 @ 4 # [10, 11, 12, 13] @ []) 256 =
      Some (6, mb_request 1 16 1 2 @ 4 # [10, 11, 12, 13] @ [], s1, demo_client 5) \<and>
    create_response env0 True s1 (demo_client 5) demo_port (mb_request 1 3 1 2 @ replicate 9 0) 15 = Some (int n, buff', s2, demo_client 5) \<and>
    take n buff' = [1, 3, 4, 10, 11, 12, 13]"
  using slave_write_read_registers [OF demo_serves(1,2), of demo demo_tag "[1, 2, 3, 4, 5, 6, 7, 8]" "demo_client 5" env0 "[10, 11, 12, 13]" 2 1 15
      "replicate 9 0" True 4 "[]" 256]
    demo_quiet demo_serves(3,4) by (fastforce simp: int32_ok_def mb_request_def put_word_def)

section \<open>Master and slave\<close>

lemma crc16_total:
  assumes "n \<le> length msg" and "n < 65536"
  shows "crc16 msg (int n) = Some (swap_bytes (crc_ref (take n msg)))"
  using assms by (intro crc16_ref) simp_all

text \<open>A frame with its checksum passes the check, whatever is behind it in the buffer.\<close>

lemma crc16check_prefix:
  assumes "length f < 65536"
  shows "crc16check (f @ put_word (swap_bytes (crc_ref f)) @ rest) (int (length f) + 2) = Some True"
proof -
  let ?c = "swap_bytes (crc_ref f)"
  have "crc16 (f @ put_word ?c @ rest) (int (length f)) = Some ?c"
    using crc16_total [of "length f" "f @ put_word ?c @ rest"] assms by simp
  moreover have "get_word (f @ put_word ?c @ rest) (int (length f)) = Some ?c"
    by (rule get_word_at) simp_all
  ultimately show ?thesis by (simp add: crc16check_def)
qed

text \<open>The checksum behind the first \<open>n\<close> bytes of a buffer.\<close>

lemma append_crc:
  assumes "n + 2 \<le> length b" and "n < 65536"
  shows "do { c \<leftarrow> crc16 b (int n); b1 \<leftarrow> mem_put b (int n) (put_word c); mem_get b1 0 (int n + 2) } =
    Some (take n b @ put_word (swap_bytes (crc_ref (take n b))))"
proof -
  have n: "nat (int n + 2) = n + 2" by simp
  show ?thesis using crc16_total [of n b] assms by (simp add: mem_put_def mem_get_def n)
qed

lemma put_words_at:
  assumes "4 \<le> length r"
  shows "put_words (x # y # r) 2 a b = Some (mb_request x y a b @ drop 4 r)"
proof -
  have "mem_put (x # y # r) 2 (put_word a) = Some (x # y # put_word a @ drop 2 r)"
    using assms by (simp add: mem_put_def numeral_2_eq_2)
  moreover have "mem_put (x # y # put_word a @ drop 2 r) 4 (put_word b) = Some (mb_request x y a b @ drop 4 r)"
    using assms by (simp add: mem_put_def mb_request_def put_word_def eval_nat_numeral)
  ultimately show ?thesis by (simp add: put_words_def)
qed

lemma read_request_frame:
  assumes "c_function cmd \<in> {1, 2, 3, 4}"
  shows "sendRTUrequest E cmd =
    (let f = mb_request (c_node cmd) (c_function cmd) (c_register cmd) (c_length cmd)
     in Some (Some (f @ put_word (swap_bytes (crc_ref f))), cmd\<lparr>c_requests := c_requests cmd + 1\<rparr>))"
proof -
  let ?f = "mb_request (c_node cmd) (c_function cmd) (c_register cmd) (c_length cmd)" 
  define m where "m = map (junk E) [2..<1024]"
  have lm: "length m = 1022" by (simp only: m_def length_map length_upt)
  let ?r = "drop 4 m"
  have "put_words (c_node cmd # c_function cmd # m) 2 (c_register cmd) (c_length cmd) = Some (?f @ ?r)"
    by (rule put_words_at) (simp add: lm)
  then have rm: "rtu_message E cmd = Some (Some (?f @ ?r, 6, cmd))"
    using assms unfolding rtu_message_def Let_def m_def [symmetric] by simp
  have t: "take 6 (?f @ ?r) = ?f" by (simp add: mb_request_words(3))
  have "do { c \<leftarrow> crc16 (?f @ ?r) (int 6); b1 \<leftarrow> mem_put (?f @ ?r) (int 6) (put_word c); mem_get b1 0 (int 6 + 2) } =
      Some (?f @ put_word (swap_bytes (crc_ref ?f)))"
    using append_crc [of 6 "?f @ ?r"] unfolding t by (simp add: mb_request_words(3) lm)
  then show ?thesis by (auto simp: sendRTUrequest_def rm Let_def)
qed

lemma rtu_serve_answer:
  assumes "length f + 2 \<le> MB_BUFF_SIZE" and "f \<noteq> []"
    and "create_response E mem s ds port (f @ put_word (swap_bytes (crc_ref f)) @ rest) (int MB_BUFF_SIZE) = Some (int n, b', s', ds')"
    and "0 < n" and "n + 2 \<le> length b'" and "n < 65536"
  shows "rtu_serve E mem s ds port (f @ put_word (swap_bytes (crc_ref f)) @ rest) (int (length f) + 2) =
    Some (0, Some (take n b' @ put_word (swap_bytes (crc_ref (take n b')))), s', ds')"
proof -
  have "crc16check (f @ put_word (swap_bytes (crc_ref f)) @ rest) (int (length f) + 2) = Some True"
    using assms(1) by (intro crc16check_prefix) (simp add: MB_BUFF_SIZE_def)
  with assms(3,4) append_crc [OF assms(5,6)] show ?thesis
    unfolding rtu_serve_def by (auto simp: Option.bind_eq_Some_conv)
qed

lemma set_command_read:
  assumes "mb_set_command True fresh initcmd node 3 reg len = (0, cmd)"
  shows "cmd = initcmd\<lparr>c_node := node, c_function := 3, c_register := reg, c_length := len, c_data := take (2 * unat len) fresh\<rparr>"
    "1 \<le> unat len" "unat len \<le> 125"
proof -
  have n: "nat (cmd_size 3 len) = 2 * unat len" by (simp add: cmd_size_def nat_mult_distrib)
  show "cmd = initcmd\<lparr>c_node := node, c_function := 3, c_register := reg, c_length := len, c_data := take (2 * unat len) fresh\<rparr>"
    using assms n by (auto simp: mb_set_command_def Let_def initcmd_def split: if_splits)
  show "1 \<le> unat len" "unat len \<le> 125"
    using assms by (auto simp: mb_set_command_def Let_def word_less_nat_alt split: if_splits)
qed

text \<open>C7: A master and a slave on a serial line, with the tag server behind the slave: a command that reads holding
  registers produces a frame that the slave accepts, the slave's answer passes the check of the master, and the data of the
  command are then the registers as the tag server has them, in the byte order of the machine. No tag changes.\<close>

theorem modbus_end_to_end:
  assumes "mb_set_command True fresh initcmd node 3 reg len = (0, cmd)" and "2 * unat len \<le> length fresh"
    and "serves port node nd" and "hold_size nd \<noteq> 0" and "quiet s (hold_idx nd) t b" and "length b = 2 * unat (hold_size nd)"
    and "int32_ok (hold_idx nd)" and "0 \<le> sfd ds" and "xwrite_ok E (sfd ds)" and "unat reg + unat len \<le> unat (hold_size nd)"
    and "length pad = 248"
  shows "\<exists>w cmd1 v s' cmd2. sendRTUrequest E cmd = Some (Some w, cmd1) \<and>
    rtu_serve E mem s ds port (w @ pad) (int (length w)) = Some (0, Some v, s', ds) \<and>
    getRTUresponse (v @ pad2) (int (length v)) = Some (int (length v)) \<and>
    handleresponse (v @ pad2) cmd1 = Some (0, cmd2) \<and> c_data cmd2 = take (2 * unat len) (drop (2 * unat reg) b) \<and>
    (\<forall>j. get_tag s' j = get_tag s j)"
proof -
  note cmd = set_command_read [OF assms(1)]
  let ?n = "2 * unat len" and ?f = "mb_request node 3 reg len" and ?w = "take (2 * unat len) (drop (2 * unat reg) b)"
  define crc where "crc = put_word (swap_bytes (crc_ref ?f))"
  define cmd1 where "cmd1 = cmd\<lparr>c_requests := c_requests cmd + 1\<rparr>"
  have snd: "sendRTUrequest E cmd = Some (Some (?f @ crc), cmd1)"
    using read_request_frame [of cmd E] unfolding cmd1_def crc_def by (simp add: cmd(1) Let_def)
  have lf: "length ?f = 6" "length crc = 2" by (simp_all add: mb_request_words(3) crc_def)
  have sz: "?n + 3 \<le> 256" "256 \<le> length (?f @ crc @ pad)" using cmd(3) lf assms(11) by simp_all
  obtain n b' s' where r: "read_words_response E mem s ds nd (?f @ crc @ pad) (int 256) MB_REG_HOLDING = Some (int n, b', s', ds)"
    "\<forall>j. get_tag s' j = get_tag s j" "length b' = length (?f @ crc @ pad)" "take n b' = [node, 3, of_nat ?n] @ swab ?w" "n = ?n + 3"
    using read_words_answer [OF assms(5-9) sz cmd(3), of mem] assms(10) by auto
  define v where "v = take n b' @ put_word (swap_bytes (crc_ref (take n b')))"
  have cr: "create_response E mem s ds port (?f @ crc @ pad) (int MB_BUFF_SIZE) = Some (int n, b', s', ds)"
    using r(1) by (simp add: create_response_holding(1) [OF assms(3,4)] MB_BUFF_SIZE_def)
  have srv: "rtu_serve E mem s ds port (?f @ crc @ pad) (int (length ?f) + 2) = Some (0, Some v, s', ds)"
    unfolding v_def crc_def
    using r(3,5) lf assms(11) cmd(3)
    by (intro rtu_serve_answer cr [unfolded crc_def]) (simp_all add: MB_BUFF_SIZE_def mb_request_def)
  have lw: "length ?w = ?n" using assms(6,10) by simp
  have lv: "length (take n b') = n" using r(3,5) lf assms(11) cmd(3) by simp
  have chk: "getRTUresponse (v @ pad2) (int (length v)) = Some (int (length v))"
    using crc16check_prefix [of "take n b'" pad2] lv r(5) cmd(3) by (simp add: getRTUresponse_def v_def)
  have vp: "v @ pad2 = [node, 3, of_nat ?n] @ swab ?w @ put_word (swap_bytes (crc_ref (take n b'))) @ pad2"
    unfolding v_def by (simp only: r(4) append_assoc)
  have b2: "unat (of_nat ?n :: byte) = ?n" using cmd(3) by (simp add: unat_of_nat del: of_nat_mult)
  have sw: "length (swab ?w) = ?n" using lw by (subst swab_length) simp_all
  have cw: "copy_words (v @ pad2) 3 (c_data cmd) 0 (unat len) = Some ?w"
    using copy_words_eq [of 3 "unat len" "v @ pad2" 0 "c_data cmd"] sw lw assms(2) cmd(1) unfolding vp
    by (simp del: of_nat_mult)
  have "handleresponse (v @ pad2) cmd1 = Some (0, cmd1\<lparr>c_responses := c_responses cmd1 + 1, c_data := ?w\<rparr>)"
    using cw b2 cmd(1) unfolding handleresponse_def vp cmd1_def by (simp add: arr_get_def del: of_nat_mult)
  moreover have "rtu_serve E mem s ds port ((?f @ crc) @ pad) (int (length (?f @ crc))) = Some (0, Some v, s', ds)"
    using srv lf by simp
  moreover have "c_data (cmd1\<lparr>c_responses := c_responses cmd1 + 1, c_data := ?w\<rparr>) = ?w" by simp
  ultimately show ?thesis using snd chk r(2) by blast
qed

theorem modbus_end_to_end_witness:
  "\<exists>w cmd1 v s' cmd2. sendRTUrequest env0 (snd (mb_set_command True [0, 0, 0, 0] initcmd 1 3 1 2)) = Some (Some w, cmd1) \<and>
    rtu_serve env0 True demo (demo_client 5) demo_port (w @ replicate 248 0) (int (length w)) = Some (0, Some v, s', demo_client 5) \<and>
    handleresponse (v @ []) cmd1 = Some (0, cmd2) \<and> c_data cmd2 = [3, 4, 5, 6]"
proof -
  have c: "mb_set_command True [0, 0, 0, 0] initcmd 1 3 1 2 = (0, snd (mb_set_command True [0, 0, 0, 0] initcmd 1 3 1 2))"
    by (simp add: mb_set_command_def Let_def)
  have b: "int32_ok (hold_idx demo_node)" "length [1, 2, 3, 4, 5, 6, 7, 8 :: byte] = 2 * unat (hold_size demo_node)"
    "quiet demo (hold_idx demo_node) demo_tag [1, 2, 3, 4, 5, 6, 7, 8]"
    using demo_quiet demo_serves(3,4) by (simp_all add: int32_ok_def)
  from modbus_end_to_end [OF c _ demo_serves(1,2) b(3,2,1), of "demo_client 5" env0 "replicate 248 0" True "[]"] demo_serves(4)
  show ?thesis by fastforce
qed

text \<open>C39: A command that writes one holding register over a serial line sends only the low byte of the value: whatever the high byte
  is, zero is sent for it.\<close>

theorem rtu_register_low_byte:
  assumes "c_function cmd = 6" and "c_enable cmd = MB_CONTINUOUS" and "c_data cmd = [lo, hi]"
  shows "\<exists>w cmd1. sendRTUrequest E cmd = Some (Some w, cmd1) \<and> take 6 w = [c_node cmd, 6] @ put_word (c_register cmd) @ [0, lo]"
proof -
  let ?f = "mb_request (c_node cmd) 6 (c_register cmd) (ucast lo)" 
  define m where "m = map (junk E) [2..<1024]"
  have lm: "length m = 1022" by (simp only: m_def length_map length_upt)
  let ?r = "drop 4 m"
  have "put_words (c_node cmd # 6 # m) 2 (c_register cmd) (ucast lo) = Some (?f @ ?r)"
    by (rule put_words_at) (simp add: lm)
  moreover have d: "arr_get (c_data cmd) 0 = Some lo" using assms(3) by (simp add: arr_get_def)
  ultimately have rm: "rtu_message E cmd = Some (Some (?f @ ?r, 6, cmd\<lparr>c_lastcrc := ucast lo\<rparr>))"
    using assms(1,2) unfolding rtu_message_def Let_def m_def [symmetric] by simp
  have t: "take 6 (?f @ ?r) = ?f" by (simp add: mb_request_words(3))
  have "do { c \<leftarrow> crc16 (?f @ ?r) (int 6); b1 \<leftarrow> mem_put (?f @ ?r) (int 6) (put_word c); mem_get b1 0 (int 6 + 2) } =
      Some (?f @ put_word (swap_bytes (crc_ref ?f)))"
    using append_crc [of 6 "?f @ ?r"] unfolding t by (simp add: mb_request_words(3) lm)
  then obtain cmd1 where "sendRTUrequest E cmd = Some (Some (?f @ put_word (swap_bytes (crc_ref ?f))), cmd1)"
    by (auto simp: sendRTUrequest_def rm Let_def)
  moreover have "put_word (ucast lo) = [0, lo]"
    using put_word_of [of 0 lo] by simp
  then have "take 6 (?f @ put_word (swap_bytes (crc_ref ?f))) = [c_node cmd, 6] @ put_word (c_register cmd) @ [0, lo]"
    by (simp add: mb_request_words(3)) (simp add: mb_request_def)
  ultimately show ?thesis by blast
qed

theorem rtu_register_low_byte_witness:
  "\<exists>w cmd1. sendRTUrequest env0 (initcmd\<lparr>c_node := 9, c_function := 6, c_register := 2, c_data := [0x34, 0x12]\<rparr>) = Some (Some w, cmd1) \<and>
    take 6 w = [9, 6, 0, 2, 0, 0x34]"
  using rtu_register_low_byte [of "initcmd\<lparr>c_node := 9, c_function := 6, c_register := 2, c_data := [0x34, 0x12]\<rparr>" "0x34" "0x12" env0]
  by (simp add: initcmd_def put_word_def)

end
