(* ===== verification/Client_Types.thy ===== *)
theory Client_Types
  imports Client_Data
begin

text \<open>
  The compound types in the client library (\<^verbatim>\<open>src/lib/libcdt.c\<close>, with \<^verbatim>\<open>dax_cdt_create\<close> and \<^verbatim>\<open>dax_cdt_get\<close> of
  \<^verbatim>\<open>libmsg.c\<close>): types are created on the server from a description, and fetched from it when a module needs
  one that is not in its cache. The allocations of the client succeed.
\<close>

section \<open>The cache of types\<close>

type_synonym type_slot = "(string \<times> cdt_member list) option"

text \<open>\<^verbatim>\<open>strtol(s, NULL, 10)\<close>\<close>

definition strtol10 :: "string \<Rightarrow> int" where
  "strtol10 s =
    clamp_long
     (case dropWhile isspace s of
        [] \<Rightarrow> 0
      | c # cs \<Rightarrow>
          if ccode c = 45 then - int (digits_val 10 0 cs)
          else if ccode c = 43 then int (digits_val 10 0 cs)
          else int (digits_val 10 0 (c # cs)))"

text \<open>The array of types grows by eight entries at a time.\<close>

function grow_types :: "nat \<Rightarrow> type_slot list \<Rightarrow> type_slot list" where
  "grow_types index ts =
    (if length ts \<le> index then grow_types index (ts @ replicate 8 None) else ts)"
  by pat_completeness auto
termination
  by (relation "measure (\<lambda>(index, ts). Suc index - length ts)") auto

declare grow_types.simps [simp del]

fun find_type :: "nat \<Rightarrow> type_slot list \<Rightarrow> string \<Rightarrow> nat option" where
  "find_type n [] name = None"
| "find_type n (None # ts) name = find_type (Suc n) ts name"
| "find_type n (Some (t, ms) # ts) name =
    (if strcasecmp name t = 0 then Some n else find_type (Suc n) ts name)"

text \<open>
  \<^verbatim>\<open>dax_string_to_type\<close>; \<open>get\<close> is the function that asks the server.
\<close>

definition string_to_type ::
  "(server \<Rightarrow> dax_state \<Rightarrow> u32 \<Rightarrow> string option \<Rightarrow> (int \<times> server \<times> dax_state) option) \<Rightarrow>
    server \<Rightarrow> dax_state \<Rightarrow> string \<Rightarrow> (u32 \<times> server \<times> dax_state) option" where
  "string_to_type get s ds name =
    (case find (\<lambda>(b, t). strcasecmp name b = 0) base_names of
       Some (b, t) \<Rightarrow> Some (t, s, ds)
     | None \<Rightarrow>
         (case find_type 0 (types ds) name of
            Some n \<Rightarrow> Some (CDT_TO_TYPE (of_nat n), s, ds)
          | None \<Rightarrow>
              do {
                (r, s1, ds1) \<leftarrow> get s ds 0 (Some name);
                Some (if r \<noteq> 0 then 0
                      else case find_type 0 (types ds1) name of Some n \<Rightarrow> CDT_TO_TYPE (of_nat n) | None \<Rightarrow> 0,
                      s1, ds1)
              }))"

text \<open>
  \<^verbatim>\<open>_add_member_to_cache\<close>: appends to the members of the slot. A slot without a name, which is left when the
  server sends one that is too long, has no result here.
\<close>

definition add_member_to_cache ::
  "(server \<Rightarrow> dax_state \<Rightarrow> u32 \<Rightarrow> string option \<Rightarrow> (int \<times> server \<times> dax_state) option) \<Rightarrow>
    server \<Rightarrow> dax_state \<Rightarrow> nat \<Rightarrow> string \<Rightarrow> (int \<times> server \<times> dax_state) option" where
  "add_member_to_cache get s ds index desc =
    (case strtok_all CHR '','' desc of
       name # type # str # _ \<Rightarrow>
         let count = u32_of (strtol10 str)
         in if int_of_u32 count \<le> 0 then Some (ERR_ARG, s, ds)
            else do {
              (t, s1, ds1) \<leftarrow> string_to_type get s ds type;
              slot \<leftarrow> arr_get (types ds1) (int index);
              (n, ms) \<leftarrow> slot;
              Some (0, s1, ds1\<lparr>types := (types ds1)[index :=
                Some (n, ms @ [\<lparr>m_name = name, m_type = t, m_count = count\<rparr>])]\<rparr>)
            }
     | _ \<Rightarrow> Some (ERR_ARG, s, ds))"

fun add_members_to_cache ::
  "(server \<Rightarrow> dax_state \<Rightarrow> u32 \<Rightarrow> string option \<Rightarrow> (int \<times> server \<times> dax_state) option) \<Rightarrow>
    server \<Rightarrow> dax_state \<Rightarrow> nat \<Rightarrow> string list \<Rightarrow> (int \<times> server \<times> dax_state) option" where
  "add_members_to_cache get s ds index [] = Some (0, s, ds)"
| "add_members_to_cache get s ds index (str # strs) =
    do {
      (r, s1, ds1) \<leftarrow> add_member_to_cache get s ds index str;
      if r \<noteq> 0 then Some (r, s1, ds1) else add_members_to_cache get s1 ds1 index strs
    }"

text \<open>\<^verbatim>\<open>add_cdt_to_cache\<close> with \<^verbatim>\<open>_insert_type\<close>: a name that is too long is not stored, members that are there stay.\<close>

definition insert_type :: "type_slot \<Rightarrow> string \<Rightarrow> type_slot" where
  "insert_type slot name =
    (if length name \<le> DAX_TAGNAME_SIZE
     then Some (name, case slot of Some (_, ms) \<Rightarrow> ms | None \<Rightarrow> []) else slot)"

definition add_cdt_to_cache ::
  "(server \<Rightarrow> dax_state \<Rightarrow> u32 \<Rightarrow> string option \<Rightarrow> (int \<times> server \<times> dax_state) option) \<Rightarrow>
    server \<Rightarrow> dax_state \<Rightarrow> u32 \<Rightarrow> string \<Rightarrow> (int \<times> server \<times> dax_state) option" where
  "add_cdt_to_cache get s ds type desc =
    (let index = unat (CDT_TO_INDEX type);
         ts = grow_types index (types ds)
     in case strtok_all CHR '':'' desc of
          [] \<Rightarrow> Some (ERR_ARG, s, ds\<lparr>types := ts\<rparr>)
        | name # strs \<Rightarrow>
            add_members_to_cache get s (ds\<lparr>types := ts[index := insert_type (ts ! index) name]\<rparr>) index strs)"

text \<open>
  \<^verbatim>\<open>dax_cdt_get\<close>: by name or by type. The types of the members may have to be fetched in turn; a type only
  has members of types that were created before it, so the number of types of the server bounds the depth.
\<close>

primrec cdt_get_fuel ::
  "nat \<Rightarrow> env \<Rightarrow> server \<Rightarrow> dax_state \<Rightarrow> u32 \<Rightarrow> string option \<Rightarrow> (int \<times> server \<times> dax_state) option" where
  "cdt_get_fuel 0 E s ds type name = None"
| "cdt_get_fuel (Suc k) E s ds type name =
    do {
      (r, d, s1) \<leftarrow> message_request E s ds MSG_CDT_GET
        (case name of Some n \<Rightarrow> 1 # str_bytes n | None \<Rightarrow> 2 # enc32 type);
      if r \<noteq> 0 then Some (r, s1, ds)
      else do {
        desc \<leftarrow> cstr (drop 4 d);
        add_cdt_to_cache (cdt_get_fuel k E) s1 ds (dec32 (take 4 d)) desc
      }
    }"

definition dax_cdt_get ::
  "env \<Rightarrow> server \<Rightarrow> dax_state \<Rightarrow> u32 \<Rightarrow> string option \<Rightarrow> (int \<times> server \<times> dax_state) option" where
  "dax_cdt_get E s ds type name = cdt_get_fuel (Suc (length (cdts s))) E s ds type name"

definition dax_string_to_type :: "env \<Rightarrow> server \<Rightarrow> dax_state \<Rightarrow> string \<Rightarrow> (u32 \<times> server \<times> dax_state) option" where
  "dax_string_to_type E s ds name = string_to_type (dax_cdt_get E) s ds name"

text \<open>\<^verbatim>\<open>dax_type_to_string\<close>: the name, or the null pointer.\<close>

definition dax_type_to_string ::
  "env \<Rightarrow> server \<Rightarrow> dax_state \<Rightarrow> u32 \<Rightarrow> (string option \<times> server \<times> dax_state) option" where
  "dax_type_to_string E s ds t =
    (if IS_CUSTOM t then
       (case arr_get (types ds) (uint (CDT_TO_INDEX t)) of
          Some (Some (n, ms)) \<Rightarrow> Some (Some n, s, ds)
        | _ \<Rightarrow>
            do {
              (r, s1, ds1) \<leftarrow> dax_cdt_get E s ds t None;
              if r \<noteq> 0 then Some (None, s1, ds1)
              else do {
                slot \<leftarrow> arr_get (types ds1) (uint (CDT_TO_INDEX t));
                Some (map_option fst slot, s1, ds1)
              }
            })
     else Some (map_option fst (find (\<lambda>(b, u). u = t) base_names), s, ds))"

text \<open>The size of a type that may have to be fetched first.\<close>

definition fetch_typesize :: "env \<Rightarrow> server \<Rightarrow> dax_state \<Rightarrow> u32 \<Rightarrow> (int \<times> server \<times> dax_state) option" where
  "fetch_typesize E s ds t =
    do {
      (name, s1, ds1) \<leftarrow> dax_type_to_string E s ds (drop_queue t);
      case name of
        None \<Rightarrow> Some (ERR_ARG, s1, ds1)
      | Some _ \<Rightarrow> map_option (\<lambda>z. (z, s1, ds1)) (dax_get_typesize ds1 t)
    }"

section \<open>Creating types\<close>

definition dax_cdt_new :: "string \<Rightarrow> int + string \<times> cdt_member list" where
  "dax_cdt_new name = (if DAX_TAGNAME_SIZE < length name then Inl ERR_2BIG else Inr (name, []))"

definition dax_cdt_member ::
  "env \<Rightarrow> server \<Rightarrow> dax_state \<Rightarrow> string \<times> cdt_member list \<Rightarrow> string \<Rightarrow> u32 \<Rightarrow> u32 \<Rightarrow>
    (int \<times> (string \<times> cdt_member list) \<times> server \<times> dax_state) option" where
  "dax_cdt_member E s ds cdt name type count =
    (if list_ex (\<lambda>m. strcmp name (m_name m) = 0) (snd cdt) then Some (ERR_DUPL, cdt, s, ds)
     else do {
       (tn, s1, ds1) \<leftarrow> dax_type_to_string E s ds type;
       Some (if tn = None then (ERR_ARG, cdt, s1, ds1)
             else if DAX_TAGNAME_SIZE < length name then (ERR_2BIG, cdt, s1, ds1)
             else (0, (fst cdt, snd cdt @ [\<lparr>m_name = name, m_type = type, m_count = count\<rparr>]), s1, ds1))
     })"

text \<open>The description that is sent to the server; the name of a type that there is not is the null pointer.\<close>

fun describe_members ::
  "env \<Rightarrow> server \<Rightarrow> dax_state \<Rightarrow> cdt_member list \<Rightarrow> (string \<times> server \<times> dax_state) option" where
  "describe_members E s ds [] = Some ([], s, ds)"
| "describe_members E s ds (m # ms) =
    do {
      (tn, s1, ds1) \<leftarrow> dax_type_to_string E s ds (m_type m);
      t \<leftarrow> tn;
      (rest, s2, ds2) \<leftarrow> describe_members E s1 ds1 ms;
      Some (CHR '':'' # m_name m @ CHR '','' # t @ CHR '','' # show_int (int_of_u32 (m_count m)) @ rest, s2, ds2)
    }"

definition dax_cdt_create ::
  "env \<Rightarrow> server \<Rightarrow> dax_state \<Rightarrow> string \<times> cdt_member list \<Rightarrow> (int \<times> u32 \<times> server \<times> dax_state) option" where
  "dax_cdt_create E s ds cdt =
    (if snd cdt = [] then Some (ERR_EMPTY, 0, s, ds)
     else do {
       (rest, s1, ds1) \<leftarrow> describe_members E s ds (snd cdt);
       let desc = fst cdt @ rest;
       if MSG_DATA_SIZE < length desc + 1 then Some (ERR_2BIG, 0, s1, ds1)
       else do {
         (r, d, s2) \<leftarrow> message_request E s1 ds1 MSG_CDT_CREATE (str_bytes desc);
         if r \<noteq> 0 then Some (r, 0, s2, ds1)
         else do {
           (r1, s3, ds2) \<leftarrow> add_cdt_to_cache (dax_cdt_get E) s2 ds1 (dec32 (take 4 d)) desc;
           Some (r1, dec32 (take 4 d), s3, ds2)
         }
       }
     })"

end
