(* ===== verification/Client_Handles.thy ===== *)
theory Client_Handles
  imports Client_Types
begin

text \<open>
  Looking up tags and parts of tags by name (\<^verbatim>\<open>dax_tag_byname\<close> and \<^verbatim>\<open>dax_tag_byindex\<close> of
  \<^verbatim>\<open>src/lib/libmsg.c\<close>, \<^verbatim>\<open>dax_tag_handle\<close> of \<^verbatim>\<open>src/lib/libcdt.c\<close>): a name like \<^verbatim>\<open>tag[2].member[1].3\<close> becomes a
  handle with the place of the data in the server.
\<close>

section \<open>Tags\<close>

definition dec_tag :: "byte list \<Rightarrow> string \<Rightarrow> dax_tag" where
  "dec_tag d name =
    \<lparr>dt_idx = dec_int (take 4 d), dt_type = dec32 (take 4 (drop 4 d)), dt_count = dec32 (take 4 (drop 8 d)),
     dt_attr = dec16 (take 2 (drop 12 d)), dt_name = name\<rparr>"

text \<open>\<open>new\<close> is the node that the cache gets for the tag when it has to be asked for.\<close>

definition dax_tag_byname ::
  "env \<Rightarrow> server \<Rightarrow> dax_state \<Rightarrow> nat option \<Rightarrow> string \<Rightarrow> ((int + dax_tag) \<times> server \<times> dax_state) option" where
  "dax_tag_byname E s ds new name =
    (if DAX_TAGNAME_SIZE < length name then Some (Inl ERR_2BIG, s, ds)
     else if name = [] then Some (Inl ERR_NOTFOUND, s, ds)
     else do {
       (f, c) \<leftarrow> check_cache_name (tagcache ds) name;
       let ds1 = ds\<lparr>tagcache := c\<rparr>;
       case f of
         Inr tag \<Rightarrow> Some (Inr tag, s, ds1)
       | Inl _ \<Rightarrow>
           do {
             (r, d, s1) \<leftarrow> message_request E s ds1 MSG_TAG_GET (1 # str_bytes name);
             if r \<noteq> 0 then Some (Inl r, s1, ds1)
             else do {
               n \<leftarrow> cstr (drop 14 (d[length d - 1 := 0]));
               Some (Inr (dec_tag d n), s1, ds1\<lparr>tagcache := snd (cache_tag_add c new (dec_tag d n))\<rparr>)
             }
           }
     })"

definition dax_tag_byindex ::
  "env \<Rightarrow> server \<Rightarrow> dax_state \<Rightarrow> nat option \<Rightarrow> int \<Rightarrow> ((int + dax_tag) \<times> server \<times> dax_state) option" where
  "dax_tag_byindex E s ds new idx =
    do {
      (f, c) \<leftarrow> check_cache_index (tagcache ds) idx;
      let ds1 = ds\<lparr>tagcache := c\<rparr>;
      case f of
        Inr tag \<Rightarrow> Some (Inr tag, s, ds1)
      | Inl _ \<Rightarrow>
          do {
            (r, d, s1) \<leftarrow> message_request E s ds1 MSG_TAG_GET (2 # enc_int idx);
            if r \<noteq> 0 then Some (Inl r, s1, ds1)
            else if DAX_TAGNAME_SIZE + 17 < length d then None
            else do {
              n \<leftarrow> cstr (drop 14 (take (DAX_TAGNAME_SIZE + 14) (d @ map (junk E) [length d..<DAX_TAGNAME_SIZE + 17])) @ [0]);
              Some (Inr (dec_tag d n), s1, ds1\<lparr>tagcache := snd (cache_tag_add c new (dec_tag d n))\<rparr>)
            }
          }
    }"

section \<open>The parts of a name\<close>

definition split_tagname :: "string \<Rightarrow> string \<times> string option" where
  "split_tagname name =
    (takeWhile (\<lambda>c. c \<noteq> CHR ''.'') name,
     case dropWhile (\<lambda>c. c \<noteq> CHR ''.'') name of [] \<Rightarrow> None | _ # rest \<Rightarrow> Some rest)"

text \<open>\<^verbatim>\<open>_get_index\<close>: the name in front of the bracket and the index. The closing bracket may be missing.\<close>

definition get_index :: "string \<Rightarrow> string \<times> int" where
  "get_index str =
    (case dropWhile (\<lambda>c. c \<noteq> CHR ''['') str of
       [] \<Rightarrow> (str, ERR_NOTFOUND)
     | _ # rest \<Rightarrow>
         let digits = takeWhile (\<lambda>c. c \<noteq> CHR '']'') rest
         in (takeWhile (\<lambda>c. c \<noteq> CHR ''['') str,
             if list_all isdigit digits then int_of_u32 (u32_of (clamp_long (int (digits_val 10 0 digits))))
             else ERR_ARG))"

text \<open>Arithmetic on ints that must not overflow.\<close>

definition c_int :: "int \<Rightarrow> int option" where
  "c_int x = (if int32_ok x then Some x else None)"

text \<open>The bytes that hold \<open>count\<close> bits from the bit \<open>pos\<close> of a byte on; the least int is no count.\<close>

definition bits_size :: "int \<Rightarrow> int \<Rightarrow> int" where
  "bits_size pos count = cdiv (pos + count - 1) 8 - pos div 8 + 1"

text \<open>\<^verbatim>\<open>_parse_bit_index\<close>: the bit is kept in eight bits before it is compared.\<close>

definition parse_bit_index ::
  "dax_state \<Rightarrow> u32 \<Rightarrow> tag_handle \<Rightarrow> string \<Rightarrow> int \<Rightarrow> int \<Rightarrow> (int \<times> tag_handle) option" where
  "parse_bit_index ds type h digit index count0 =
    (if type = DAX_BOOL \<or> type = DAX_TIME \<or> type = DAX_REAL \<or> type = DAX_LREAL \<or> IS_CUSTOM type then Some (ERR_BADTYPE, h)
     else
       let idx = (if index < 0 then 0 else index);
           h1 = h\<lparr>h_bit := of_int (strtol10 digit)\<rparr>
       in if dropWhile isdigit digit \<noteq> [] then Some (ERR_ARG, h1)
          else do {
            size \<leftarrow> dax_get_typesize ds type;
            if size * 8 < uint (h_bit h1) then Some (ERR_2BIG, h1)
            else do {
              let count = (if count0 = 0 then 1 else count0);
              top \<leftarrow> c_int (uint (h_bit h1) + count);
              if size * 8 < top then Some (ERR_2BIG, h1)
              else do {
                off \<leftarrow> c_int (size * idx);
                place \<leftarrow> c_int (off + uint (h_bit h1) div 8);
                let pos = h_bit h1 mod 8;
                Some (0, h1\<lparr>h_byte := h_byte h1 + u32_of place, h_bit := pos, h_type := DAX_BOOL,
                            h_size := u32_of (bits_size (uint pos) count), h_count := u32_of count\<rparr>)
              }
            }
          })"

text \<open>The walk over the members in front of the one that is looked for.\<close>

definition skip_member :: "dax_state \<Rightarrow> tag_handle \<Rightarrow> cdt_member \<Rightarrow> tag_handle option" where
  "skip_member ds h m =
    (if m_type m = DAX_BOOL then
       (let pos = h_bit h + ucast (m_count m)
        in Some (if 7 < pos then h\<lparr>h_byte := h_byte h + ucast (pos div 8), h_bit := pos mod 8, h_type := m_type m\<rparr>
                 else h\<lparr>h_bit := pos, h_type := m_type m\<rparr>))
     else do {
       size \<leftarrow> dax_get_typesize ds (m_type m);
       let byte = (if h_type h = DAX_BOOL \<and> 0 < h_bit h then h_byte h + 1 else h_byte h);
       Some (h\<lparr>h_byte := byte + u32_of size * m_count m, h_bit := 0, h_type := m_type m\<rparr>)
     })"

fun skip_members :: "dax_state \<Rightarrow> string \<Rightarrow> tag_handle \<Rightarrow> cdt_member list \<Rightarrow> (tag_handle \<times> cdt_member option) option" where
  "skip_members ds name h [] = Some (h, None)"
| "skip_members ds name h (m # ms) =
    (if strcmp name (m_name m) = 0 then Some (h, Some m)
     else do { h1 \<leftarrow> skip_member ds h m; skip_members ds name h1 ms })"

text \<open>The end of a name: the items of a member, with or without an index.\<close>

definition last_member :: "dax_state \<Rightarrow> cdt_member \<Rightarrow> tag_handle \<Rightarrow> int \<Rightarrow> int \<Rightarrow> (int \<times> tag_handle) option" where
  "last_member ds m h0 index count0 =
    (let h1 = (if h_type h0 = DAX_BOOL \<and> m_type m \<noteq> DAX_BOOL \<and> 0 < h_bit h0
               then h0\<lparr>h_byte := h_byte h0 + 1, h_bit := 0\<rparr> else h0);
         h = h1\<lparr>h_type := m_type m\<rparr>
     in if index \<noteq> ERR_NOTFOUND then
          do {
            let count = (if count0 = 0 then 1 else count0);
            top \<leftarrow> c_int (index + count);
            if int_of_u32 (m_count m) < top then Some (ERR_2BIG, h)
            else if m_type m = DAX_BOOL then
              (let pos = h_bit h + of_int (index mod 8)
               in Some (0, h\<lparr>h_byte := h_byte h + u32_of (index div 8), h_bit := pos,
                             h_size := u32_of (bits_size (uint pos) count), h_count := u32_of count\<rparr>))
            else do {
              size \<leftarrow> dax_get_typesize ds (m_type m);
              len \<leftarrow> c_int (size * count);
              off \<leftarrow> c_int (size * index);
              Some (0, h\<lparr>h_size := u32_of len, h_byte := h_byte h + u32_of off, h_bit := 0, h_count := u32_of count\<rparr>)
            }
          }
        else if int_of_u32 (m_count m) < count0 then Some (ERR_2BIG, h)
        else
          let count = (if count0 = 0 then int_of_u32 (m_count m) else count0)
          in if m_type m = DAX_BOOL then
               Some (0, h\<lparr>h_size := u32_of (bits_size (uint (h_bit h)) count), h_count := u32_of count\<rparr>)
             else do {
               size \<leftarrow> dax_get_typesize ds (m_type m);
               len \<leftarrow> c_int (size * count);
               Some (0, h\<lparr>h_bit := 0, h_size := u32_of len, h_count := u32_of count\<rparr>)
             })"

text \<open>The index of a compound member, after the rest of the name.\<close>

definition member_index :: "dax_state \<Rightarrow> cdt_member \<Rightarrow> int \<Rightarrow> int \<Rightarrow> tag_handle \<Rightarrow> (int \<times> tag_handle) option" where
  "member_index ds m index count h =
    (if index = ERR_NOTFOUND then Some (0, h)
     else do {
       top \<leftarrow> c_int (index + (if count = 0 then 1 else count));
       if int_of_u32 (m_count m) < top then Some (ERR_2BIG, h)
       else do {
         size \<leftarrow> dax_get_typesize ds (m_type m);
         off \<leftarrow> c_int (size * index);
         Some (0, h\<lparr>h_byte := h_byte h + u32_of off\<rparr>)
       }
     })"

definition starts_digit :: "string \<Rightarrow> bool" where
  "starts_digit str = (case str of [] \<Rightarrow> False | c # _ \<Rightarrow> isdigit c)"

text \<open>
  \<^verbatim>\<open>_parse_next_member\<close>: the type is not checked to be a compound one, any other type is an index into
  the array of types all the same.
\<close>

lemma split_tagname_shorter: "split_tagname str = (part, Some rest) \<Longrightarrow> length rest < length str"
proof -
  assume "split_tagname str = (part, Some rest)"
  then obtain c where "dropWhile (\<lambda>c. c \<noteq> CHR ''.'') str = c # rest"
    by (auto simp: split_tagname_def split: list.splits)
  with length_dropWhile_le [of "\<lambda>c. c \<noteq> CHR ''.''" str] show ?thesis by simp
qed

function parse_next_member ::
  "env \<Rightarrow> server \<Rightarrow> dax_state \<Rightarrow> u32 \<Rightarrow> tag_handle \<Rightarrow> string \<Rightarrow> int \<Rightarrow> (int \<times> tag_handle \<times> server \<times> dax_state) option" where
  "parse_next_member E s ds lasttype h str count =
    (case split_tagname str of
       (part, next) \<Rightarrow>
         (case get_index part of
            (name, index) \<Rightarrow>
              if index < 0 \<and> index \<noteq> ERR_NOTFOUND then Some (index, h, s, ds)
              else do {
                (tn, s1, ds1) \<leftarrow> dax_type_to_string E s ds lasttype;
                if tn = None then Some (ERR_NOTFOUND, h, s1, ds1)
                else do {
                  slot \<leftarrow> arr_get (types ds1) (uint (CDT_TO_INDEX lasttype));
                  (h1, this) \<leftarrow> skip_members ds1 name h (case slot of Some (n, ms) \<Rightarrow> ms | None \<Rightarrow> []);
                  case this of
                    None \<Rightarrow> Some (ERR_NOTFOUND, h1, s1, ds1)
                  | Some m \<Rightarrow>
                      (case next of
                         None \<Rightarrow> map_option (\<lambda>(r, h2). (r, h2, s1, ds1)) (last_member ds1 m h1 index count)
                       | Some nextname \<Rightarrow>
                           if starts_digit nextname then
                             (if 1 < int_of_u32 (m_count m) \<and> index < 0 then Some (ERR_ARG, h1, s1, ds1)
                              else map_option (\<lambda>(r, h2). (r, h2, s1, ds1))
                                (parse_bit_index ds1 (m_type m) h1 nextname index count))
                           else do {
                             (r, h2, s2, ds2) \<leftarrow> parse_next_member E s1 ds1 (m_type m) h1 nextname count;
                             if r \<noteq> 0 then Some (r, h2, s2, ds2)
                             else map_option (\<lambda>(r, h3). (r, h3, s2, ds2)) (member_index ds2 m index count h2)
                           })
                }
              }))"
  by pat_completeness auto
termination
  by (relation "measure (\<lambda>(E, s, ds, t, h, str, count). length str)") (auto intro: split_tagname_shorter [OF sym])

declare parse_next_member.simps [simp del]

section \<open>Handles\<close>

text \<open>A whole tag or a range of its items.\<close>

definition whole_tag ::
  "env \<Rightarrow> server \<Rightarrow> dax_state \<Rightarrow> dax_tag \<Rightarrow> tag_handle \<Rightarrow> int \<Rightarrow> int \<Rightarrow> (int \<times> tag_handle \<times> server \<times> dax_state) option" where
  "whole_tag E s ds tag h0 index count0 =
    (let h = h0\<lparr>h_type := dt_type tag\<rparr>
     in if index \<noteq> ERR_NOTFOUND then
          do {
            let count = (if count0 = 0 then 1 else count0);
            top \<leftarrow> c_int (index + count);
            if dt_count tag < u32_of top then Some (ERR_2BIG, h, s, ds)
            else if dt_type tag = DAX_BOOL then
              (let pos = index mod 8
               in Some (0, h\<lparr>h_byte := u32_of (index div 8), h_bit := of_int pos,
                             h_size := u32_of (bits_size pos count), h_count := u32_of count\<rparr>, s, ds))
            else do {
              (size, s1, ds1) \<leftarrow> fetch_typesize E s ds (dt_type tag);
              len \<leftarrow> c_int (size * count);
              off \<leftarrow> c_int (size * index);
              Some (0, h\<lparr>h_size := u32_of len, h_byte := u32_of off, h_bit := 0, h_count := u32_of count\<rparr>, s1, ds1)
            }
          }
        else if dt_count tag < u32_of count0 then Some (ERR_2BIG, h, s, ds)
        else
          let count = (if count0 = 0 then int_of_u32 (dt_count tag) else count0)
          in if dt_type tag = DAX_BOOL then
               Some (0, h\<lparr>h_byte := 0, h_bit := 0, h_size := u32_of (bits_size 0 count), h_count := u32_of count\<rparr>, s, ds)
             else do {
               (size, s1, ds1) \<leftarrow> fetch_typesize E s ds (dt_type tag);
               len \<leftarrow> c_int (size * count);
               Some (0, h\<lparr>h_size := u32_of len, h_byte := 0, h_bit := 0, h_count := u32_of count\<rparr>, s1, ds1)
             })"

definition handle_zero :: tag_handle where
  "handle_zero = \<lparr>h_index = 0, h_byte = 0, h_bit = 0, h_count = 0, h_size = 0, h_type = 0\<rparr>"

text \<open>\<^verbatim>\<open>_dax_tag_handle\<close>\<close>

definition parse_tag ::
  "env \<Rightarrow> server \<Rightarrow> dax_state \<Rightarrow> nat option \<Rightarrow> string \<Rightarrow> int \<Rightarrow> (int \<times> tag_handle \<times> server \<times> dax_state) option" where
  "parse_tag E s ds new str count =
    (case split_tagname str of
       (part, membername) \<Rightarrow>
         (case get_index part of
            (tagname, index) \<Rightarrow>
              if index < 0 \<and> index \<noteq> ERR_NOTFOUND then Some (index, handle_zero, s, ds)
              else do {
                (f, s1, ds1) \<leftarrow> dax_tag_byname E s ds new tagname;
                case f of
                  Inl e \<Rightarrow> Some (ERR_NOTFOUND, handle_zero, s1, ds1)
                | Inr tag \<Rightarrow>
                    let h = handle_zero\<lparr>h_index := dt_idx tag\<rparr>
                    in (case membername of
                          None \<Rightarrow> whole_tag E s1 ds1 tag h index count
                        | Some mem \<Rightarrow>
                            if starts_digit mem then
                              (if 1 < dt_count tag \<and> index < 0 then Some (ERR_ARG, h, s1, ds1)
                               else map_option (\<lambda>(r, h2). (r, h2, s1, ds1))
                                 (parse_bit_index ds1 (dt_type tag) h mem index count))
                            else if \<not> IS_CUSTOM (dt_type tag) then Some (ERR_ARG, h, s1, ds1)
                            else if 1 < dt_count tag \<and> index = ERR_NOTFOUND then Some (ERR_ARBITRARY, h, s1, ds1)
                            else do {
                              (r, h2, s2, ds2) \<leftarrow> parse_next_member E s1 ds1 (dt_type tag) h mem count;
                              if r \<noteq> 0 \<or> index = ERR_NOTFOUND then Some (r, h2, s2, ds2)
                              else do {
                                size \<leftarrow> dax_get_typesize ds2 (dt_type tag);
                                off \<leftarrow> c_int (size * index);
                                Some (0, h2\<lparr>h_byte := h_byte h2 + u32_of off\<rparr>, s2, ds2)
                              }
                            })
              }))"

definition dax_tag_handle ::
  "env \<Rightarrow> server \<Rightarrow> dax_state \<Rightarrow> nat option \<Rightarrow> string \<Rightarrow> int \<Rightarrow> (int \<times> tag_handle \<times> server \<times> dax_state) option" where
  "dax_tag_handle E s ds new str count =
    map_option (\<lambda>(r, h, s1, ds1). (r, if r \<noteq> 0 then handle_zero else h, s1, ds1)) (parse_tag E s ds new str count)"

end
