(* ===== verification/Type_Fetch.thy ===== *)
theory Type_Fetch
  imports Client_Types Client_Laws
begin

text \<open>
  The types that a module has cached and those of the server: fetching a type adds it and the types of its
  members to the cache as the server has them, creating a type gives it to the server and to the cache, and the
  sizes that both sides compute are the same.
\<close>

section \<open>The slots of the cache\<close>

definition slot :: "type_slot list \<Rightarrow> nat \<Rightarrow> type_slot" where
  "slot ts i = (if i < length ts then ts ! i else None)"

lemma grow_types_slot: "slot (grow_types index ts) = slot ts" "index < length (grow_types index ts)"
proof -
  have "slot (grow_types index ts) = slot ts \<and> index < length (grow_types index ts)"
  proof (induction index ts rule: grow_types.induct)
    case (1 index ts)
    have "slot (ts @ replicate 8 None) = slot ts"
      by (rule ext) (simp add: slot_def nth_append)
    with 1 have "length ts \<le> index \<Longrightarrow> ?case" by (simp add: grow_types.simps [of index ts])
    moreover have "\<not> length ts \<le> index \<Longrightarrow> ?case" by (simp add: grow_types.simps [of index ts])
    ultimately show ?case by blast
  qed
  then show "slot (grow_types index ts) = slot ts" "index < length (grow_types index ts)" by simp_all
qed

lemma slot_update: "i < length ts \<Longrightarrow> slot (ts[i := x]) = (slot ts)(i := x)"
  by (rule ext) (simp add: slot_def)

lemma slot_Some_length: "slot ts i \<noteq> None \<Longrightarrow> i < length ts"
  by (simp add: slot_def split: if_splits)

lemma arr_get_slot: "slot ts i = Some x \<Longrightarrow> arr_get ts (int i) = Some (Some x)"
  by (simp add: slot_def split: if_splits)

lemma slot_Cons: "slot (x # ts) i = (case i of 0 \<Rightarrow> x | Suc k \<Rightarrow> slot ts k)"
  by (simp add: slot_def split: nat.split)

lemma find_type_Some:
  "find_type k ts name = Some n \<Longrightarrow> k \<le> n \<and> (\<exists>t ms. slot ts (n - k) = Some (t, ms) \<and> lname t = lname name)"
proof (induction k ts name rule: find_type.induct)
  case (2 k ts name)
  then have "Suc k \<le> n" and s: "\<exists>t ms. slot ts (n - Suc k) = Some (t, ms) \<and> lname t = lname name" by simp_all
  then have "n - k = Suc (n - Suc k)" by arith
  with s \<open>Suc k \<le> n\<close> show ?case by (simp add: slot_Cons)
next
  case (3 k t ms ts name)
  show ?case
  proof (cases "lname name = lname t")
    case True
    with 3 show ?thesis by (simp add: slot_Cons)
  next
    case False
    with 3 have "Suc k \<le> n" and s: "\<exists>t ms. slot ts (n - Suc k) = Some (t, ms) \<and> lname t = lname name" by simp_all
    then have "n - k = Suc (n - Suc k)" by arith
    with s \<open>Suc k \<le> n\<close> show ?thesis by (simp add: slot_Cons)
  qed
qed simp

lemma all_nat_Suc: "(\<forall>i. P i) \<longleftrightarrow> P 0 \<and> (\<forall>i. P (Suc i))"
  using not0_implies_Suc by metis

lemma find_type_None:
  "find_type k ts name = None \<longleftrightarrow> (\<forall>i t ms. slot ts i = Some (t, ms) \<longrightarrow> lname t \<noteq> lname name)"
proof (induction k ts name rule: find_type.induct)
  case (1 n name)
  then show ?case by (simp add: slot_def)
next
  case (2 n ts name)
  then show ?case by (subst all_nat_Suc) (simp add: slot_Cons)
next
  case (3 n t ms ts name)
  then show ?case by (subst all_nat_Suc) (auto simp: slot_Cons)
qed

text \<open>The cache holds types of the server under their index; below \<open>k\<close> they are complete, with the types of their members.\<close>

definition names_agree :: "cdt list \<Rightarrow> type_slot list \<Rightarrow> bool" where
  "names_agree dts ts \<longleftrightarrow> (\<forall>i n ms. slot ts i = Some (n, ms) \<longrightarrow> i < length dts \<and> n = d_name (dts ! i))"

definition complete :: "cdt list \<Rightarrow> type_slot list \<Rightarrow> nat \<Rightarrow> bool" where
  "complete dts ts i \<longleftrightarrow>
    slot ts i = Some (d_name (dts ! i), d_members (dts ! i)) \<and>
    (\<forall>m\<in>set (d_members (dts ! i)). \<forall>j<i. m_type m = CDT_TO_TYPE (of_nat j) \<longrightarrow> slot ts j \<noteq> None)"

definition agrees :: "nat \<Rightarrow> cdt list \<Rightarrow> type_slot list \<Rightarrow> bool" where
  "agrees k dts ts \<longleftrightarrow> names_agree dts ts \<and> (\<forall>i<k. slot ts i \<noteq> None \<longrightarrow> complete dts ts i)"

lemma find_type_agree:
  assumes "wf_cdts dts" and "names_agree dts ts" and "j < length dts"
  shows "find_type 0 ts (d_name (dts ! j)) = (if slot ts j = None then None else Some j)"
proof -
  have d: "i = j" if "i < length dts" "lname (d_name (dts ! i)) = lname (d_name (dts ! j))" for i
    using nth_eq_iff_index_eq [OF wf_cdtsD(3) [OF assms(1)], of i j] that assms(3) by simp
  have only: "i = j" if "slot ts i = Some (t, ms)" "lname t = lname (d_name (dts ! j))" for i t ms
    using that assms(2) d unfolding names_agree_def by blast
  show ?thesis
  proof (cases "find_type 0 ts (d_name (dts ! j))")
    case None
    have "slot ts j = None"
    proof (rule ccontr)
      assume "slot ts j \<noteq> None"
      then obtain n ms where "slot ts j = Some (n, ms)" by auto
      moreover from this assms(2) have "n = d_name (dts ! j)" unfolding names_agree_def by blast
      ultimately show False using None unfolding find_type_None by blast
    qed
    with None show ?thesis by simp
  next
    case (Some n)
    from find_type_Some [OF this] obtain t ms where "slot ts n = Some (t, ms)" "lname t = lname (d_name (dts ! j))" by auto
    with only [OF this] Some show ?thesis by auto
  qed
qed

section \<open>What the server answers\<close>

lemma of_ccode_byte: "unat (of_nat (ccode c) :: byte) = ccode c"
  by (simp add: unat_of_nat ccode_def)

lemma of_ccode_nonzero: "ccode c \<noteq> 0 \<Longrightarrow> (of_nat (ccode c) :: byte) \<noteq> 0"
proof
  assume "ccode c \<noteq> 0" and "(of_nat (ccode c) :: byte) = 0"
  with of_ccode_byte [of c] show False by simp
qed

lemma cstr_bytes:
  assumes "\<forall>c\<in>set n. ccode c \<noteq> 0"
  shows "cstr (map (\<lambda>c. of_nat (ccode c)) n @ 0 # rest) = Some n"
proof -
  have "takeWhile (\<lambda>b. b \<noteq> 0) (map (\<lambda>c. of_nat (ccode c) :: byte) n @ 0 # rest) = map (\<lambda>c. of_nat (ccode c)) n"
    using assms by (induction n) (simp_all add: of_ccode_nonzero)
  then show ?thesis by (simp add: cstr_def o_def of_ccode_byte) (simp add: ccode_def)
qed

lemma cstr_str_bytes: "\<forall>c\<in>set n. ccode c \<noteq> 0 \<Longrightarrow> cstr (str_bytes n @ rest) = Some n"
  by (simp add: str_bytes_def cstr_bytes)

lemma cstr_str_bytes_take:
  assumes "\<forall>c\<in>set n. ccode c \<noteq> 0" and "length n \<le> k"
  shows "cstr (take k (str_bytes n @ rest) @ [0]) = Some n"
proof -
  have "\<exists>r. take k (str_bytes n @ rest) @ [0] = map (\<lambda>c. of_nat (ccode c)) n @ 0 # r"
    using assms(2) by (cases "k - length n") (auto simp: str_bytes_def)
  with cstr_bytes [OF assms(1)] show ?thesis by auto
qed

lemma name_char_code: "name_char c \<Longrightarrow> ccode c \<noteq> 0"
  by (auto simp: name_char_def isalpha_def isdigit_def ccode_def)

lemma valid_name_codes: "validate_name n = 0 \<Longrightarrow> \<forall>c\<in>set n. ccode c \<noteq> 0"
  using valid_name_props(2) [of n] name_char_code by (auto simp: list_all_iff)

lemma show_int_codes: "\<forall>c\<in>set (show_int x). ccode c \<noteq> 0"
proof -
  have "\<forall>c\<in>set (show_nat n). ccode c \<noteq> 0" for n
    using show_nat_digits [of n] by (auto simp: isdigit_def)
  then show ?thesis by (auto simp: show_int_def ccode_def)
qed

lemma type_name_codes:
  assumes "wf_cdts dts" and "cdt_ref_ok (length dts) t"
  shows "\<forall>c\<in>set (type_name dts t). ccode c \<noteq> 0"
proof (cases "t \<in> set base_types")
  case True
  then obtain b where b: "cdt_get_name dts t = Some b" "(b, t) \<in> set base_names" by (rule base_name_roundtrip)
  moreover have "\<forall>x\<in>set base_names. \<forall>c\<in>set (fst x). ccode c \<noteq> 0" by (simp add: base_names_def ccode_def)
  ultimately show ?thesis by (force simp: type_name_def)
next
  case False
  with assms(2) obtain j where "j < length dts" "t = CDT_TO_TYPE (of_nat j)" by (auto simp: cdt_ref_ok_def)
  with assms(1) wf_cdtsD(1) [OF assms(1), of j] show ?thesis
    using valid_name_codes by (auto simp: type_name_def cdt_get_name_cdt wf_cdt_def)
qed

lemma cdt_members_ok:
  assumes "wf_cdts dts" and "i < length dts"
  shows "validate_name (d_name (dts ! i)) = 0"
    and "\<forall>m\<in>set (d_members (dts ! i)). cdt_ref_ok (length dts) (m_type m) \<and> validate_name (m_name m) = 0"
  using wf_cdtsD(1) [OF assms] assms(2) by (auto simp: wf_cdt_def intro: cdt_ref_ok_mono)

lemma cdt_str_codes:
  assumes "wf_cdts dts" and "i < length dts"
  shows "\<forall>c\<in>set (cdt_str dts (dts ! i)). ccode c \<noteq> 0"
proof -
  note ok = cdt_members_ok [OF assms]
  have "\<forall>c\<in>set (member_str dts m). ccode c \<noteq> 0" if "m \<in> set (d_members (dts ! i))" for m
    using that ok(2) type_name_codes [OF assms(1)] valid_name_codes show_int_codes
    by (auto simp: member_str_def ccode_def)
  then show ?thesis using valid_name_codes [OF ok(1)] by (auto simp: cdt_str_def ccode_def)
qed

text \<open>The descriptions fit a message and the counts are positive for the client.\<close>

definition sendable :: "cdt list \<Rightarrow> bool" where
  "sendable dts \<longleftrightarrow>
    (\<forall>d\<in>set dts. length (cdt_str dts d) + 5 \<le> MSG_DATA_SIZE \<and> (\<forall>m\<in>set (d_members d). 0 < int_of_u32 (m_count m)))"

definition cdt_query :: "cdt list \<Rightarrow> nat \<Rightarrow> u32 \<Rightarrow> string option \<Rightarrow> bool" where
  "cdt_query dts i type name \<longleftrightarrow>
    name = Some (d_name (dts ! i)) \<or> name = None \<and> type = CDT_TO_TYPE (of_nat i)"

definition cdt_answer :: "cdt list \<Rightarrow> nat \<Rightarrow> byte list" where
  "cdt_answer dts i = enc32 (CDT_TO_TYPE (of_nat i)) @ str_bytes (cdt_str dts (dts ! i))"

lemma cdt_request:
  assumes "wf_cdts (cdts s)" and "sendable (cdts s)" and "i < length (cdts s)" and "alloc E A_serialize"
    and "0 \<le> sfd ds" and "xwrite_ok E (sfd ds)" and "cdt_query (cdts s) i type name"
  shows "message_request E s ds MSG_CDT_GET (case name of Some n \<Rightarrow> 1 # str_bytes n | None \<Rightarrow> 2 # enc32 type) =
    Some (0, cdt_answer (cdts s) i, answered s (sfd ds) (MSG_CDT_GET OR MSG_RESPONSE) (cdt_answer (cdts s) i))"
proof -
  let ?p = "case name of Some n \<Rightarrow> 1 # str_bytes n | None \<Rightarrow> 2 # enc32 type"
  let ?d = "cdts s ! i" and ?m = "request_msg E (sfd ds) MSG_CDT_GET ?p"
  have fit: "length (cdt_answer (cdts s) i) \<le> MSG_DATA_SIZE"
    using bspec [OF assms(2) [unfolded sendable_def] nth_mem [OF assms(3)]] by (simp add: cdt_answer_def)
  note v = cdt_members_ok(1) [OF assms(1,3)]
  have len: "length (d_name ?d) \<le> DAX_TAGNAME_SIZE" using valid_name_props(3) [OF v] .
  have t: "(if x_data ?m ! 0 = 2 then Some (msg_u32 ?m 1)
      else map_option (cdt_get_type (cdts s)) (cstr (take DAX_TAGNAME_SIZE (drop 1 (x_data ?m)) @ [0]))) =
      Some (CDT_TO_TYPE (of_nat i))"
    using assms(7) cstr_str_bytes_take [OF valid_name_codes [OF v] len] cdt_get_type_cdt [OF assms(1,3)]
    by (auto simp: cdt_query_def request_msg_def msg_u32_def)
  have "msg_cdt_get E s ?m = Some (0, answered s (sfd ds) (MSG_CDT_GET OR MSG_RESPONSE) (cdt_answer (cdts s) i))"
    using fit send_data_answered [OF assms(6) order_refl fit, of s MSG_CDT_GET]
    unfolding msg_cdt_get_def t
    by (simp add: serialize_cdt [OF assms(1,3,4)] cdt_answer_def request_msg_def Let_def)
  moreover have "length ?p \<le> MSG_DATA_SIZE"
    using assms(7) len by (auto simp: cdt_query_def MSG_DATA_SIZE_def DAX_TAGNAME_SIZE_def)
  ultimately show ?thesis
    using assms(5) fit by (intro request_response) (simp_all add: data_command_def cmd_arr_data [simplified])
qed

section \<open>Fetching a type\<close>

definition extended :: "nat \<Rightarrow> cdt list \<Rightarrow> type_slot list \<Rightarrow> type_slot list \<Rightarrow> bool" where
  "extended i dts ts ts' \<longleftrightarrow>
    agrees (Suc i) dts ts' \<and> slot ts' i \<noteq> None \<and> (\<forall>j. slot ts j \<noteq> None \<or> i < j \<longrightarrow> slot ts' j = slot ts j)"

definition fetches ::
  "int \<Rightarrow> cdt list \<Rightarrow> (server \<Rightarrow> dax_state \<Rightarrow> u32 \<Rightarrow> string option \<Rightarrow> (int \<times> server \<times> dax_state) option) \<Rightarrow> nat \<Rightarrow> bool" where
  "fetches fd dts get i \<longleftrightarrow>
    (\<forall>s ds. cdts s = dts \<and> sfd ds = fd \<and> agrees (Suc i) dts (types ds) \<and> slot (types ds) i = None \<longrightarrow>
      (\<exists>x ts. get s ds 0 (Some (d_name (dts ! i))) = Some (0, s\<lparr>sent := x\<rparr>, ds\<lparr>types := ts\<rparr>) \<and>
        extended i dts (types ds) ts))"

lemma agrees_mono: "agrees k dts ts \<Longrightarrow> j \<le> k \<Longrightarrow> agrees j dts ts"
  by (auto simp: agrees_def)

lemma complete_keep:
  "complete dts ts k \<Longrightarrow> \<forall>j\<le>k. slot ts j \<noteq> None \<longrightarrow> slot ts' j = slot ts j \<Longrightarrow> complete dts ts' k"
  by (auto simp: complete_def)

lemma CDT_TO_TYPE_inj: "i < MAX_CDTS \<Longrightarrow> j < MAX_CDTS \<Longrightarrow> CDT_TO_TYPE (of_nat i) = CDT_TO_TYPE (of_nat j) \<longleftrightarrow> i = j"
  using CDT_index_of_nat(1) [of i] CDT_index_of_nat(1) [of j] by metis

lemma extended_agrees:
  assumes "extended j dts ts ts'" and "agrees i dts ts" and "j < i"
  shows "agrees i dts ts'"
proof -
  have "complete dts ts' k" if k: "k < i" "slot ts' k \<noteq> None" for k
  proof (cases "k \<le> j")
    case True
    with assms(1) k show ?thesis by (simp add: extended_def agrees_def)
  next
    case False
    then have "slot ts' k = slot ts k" using assms(1) by (simp add: extended_def)
    with assms(2) k have "complete dts ts k" by (simp add: agrees_def)
    moreover have "\<forall>j\<le>k. slot ts j \<noteq> None \<longrightarrow> slot ts' j = slot ts j" using assms(1) unfolding extended_def by blast
    ultimately show ?thesis by (rule complete_keep)
  qed
  with assms(1) show ?thesis by (simp add: agrees_def extended_def)
qed

lemma string_to_type_spec:
  assumes "wf_cdts dts" and "i \<le> length dts" and "cdt_ref_ok i t" and "\<And>j. j < i \<Longrightarrow> fetches fd dts get j"
    and "cdts s = dts" and "sfd ds = fd" and "agrees i dts (types ds)"
  obtains x ts where "string_to_type get s ds (type_name dts t) = Some (t, s\<lparr>sent := x\<rparr>, ds\<lparr>types := ts\<rparr>)"
    "agrees i dts ts" "\<forall>j. slot (types ds) j \<noteq> None \<or> i \<le> j \<longrightarrow> slot ts j = slot (types ds) j"
    "\<forall>j<i. t = CDT_TO_TYPE (of_nat j) \<longrightarrow> slot ts j \<noteq> None"
proof (cases "t \<in> set base_types")
  case True
  then obtain b where b: "cdt_get_name dts t = Some b" "(b, t) \<in> set base_names" by (rule base_name_roundtrip)
  have "string_to_type get s ds (type_name dts t) = Some (t, s\<lparr>sent := sent s\<rparr>, ds\<lparr>types := types ds\<rparr>)"
    using base_names_find(1) [OF b(2)] b(1) by (simp add: string_to_type_def type_name_def del: strcasecmp_lname)
  moreover have "t \<noteq> CDT_TO_TYPE (of_nat j)" for j using base_types_not_custom [OF True] by auto
  ultimately show ?thesis using that [of "sent s" "types ds"] assms(7) by simp
next
  case False
  with assms(3) obtain j where j: "j < i" "t = CDT_TO_TYPE (of_nat j)" by (auto simp: cdt_ref_ok_def)
  then have jl: "j < length dts" using assms(2) by simp
  have max: "k < MAX_CDTS" if "k < i" for k using that assms(2) wf_cdtsD(2) [OF assms(1)] by simp
  have uniq: "t = CDT_TO_TYPE (of_nat k) \<longleftrightarrow> k = j" if "k < i" for k
    using CDT_TO_TYPE_inj [OF max [OF j(1)] max [OF that]] j(2) by auto
  have nm: "type_name dts t = d_name (dts ! j)" using cdt_get_name_cdt [OF assms(1) jl] j(2) by (simp add: type_name_def)
  have nb: "find (\<lambda>(b, t). strcasecmp (d_name (dts ! j)) b = 0) base_names = None"
    using wf_cdtsD(1) [OF assms(1) jl] by (simp only: base_name_find_None wf_cdt_def not_False_eq_True)
  have ft: "find_type 0 ts (d_name (dts ! j)) = (if slot ts j = None then None else Some j)" if "names_agree dts ts" for ts
    using find_type_agree [OF assms(1) that jl] .
  show ?thesis
  proof (cases "slot (types ds) j = None")
    case none: True
    have "agrees (Suc j) dts (types ds)" using assms(7) j(1) by (auto intro: agrees_mono)
    with none assms(4) [OF j(1)] assms(5,6) obtain x ts where
      g: "get s ds 0 (Some (d_name (dts ! j))) = Some (0, s\<lparr>sent := x\<rparr>, ds\<lparr>types := ts\<rparr>)" "extended j dts (types ds) ts"
      unfolding fetches_def by blast
    have na: "names_agree dts ts" "names_agree dts (types ds)" and sj: "slot ts j \<noteq> None"
      using g(2) assms(7) by (simp_all add: extended_def agrees_def)
    have "string_to_type get s ds (type_name dts t) = Some (t, s\<lparr>sent := x\<rparr>, ds\<lparr>types := ts\<rparr>)"
      unfolding string_to_type_def nm using nb ft [OF na(1)] ft [OF na(2)] none sj g(1) j(2) by (simp del: strcasecmp_lname)
    moreover have "agrees i dts ts" using extended_agrees [OF g(2) assms(7) j(1)] .
    moreover have "\<forall>k. slot (types ds) k \<noteq> None \<or> i \<le> k \<longrightarrow> slot ts k = slot (types ds) k"
      using g(2) j(1) by (auto simp: extended_def)
    ultimately show ?thesis using that [of x ts] sj uniq by blast
  next
    case False
    have na: "names_agree dts (types ds)" using assms(7) by (simp add: agrees_def)
    have "string_to_type get s ds (type_name dts t) = Some (t, s\<lparr>sent := sent s\<rparr>, ds\<lparr>types := types ds\<rparr>)"
      unfolding string_to_type_def nm using nb ft [OF na] False j(2) by (simp del: strcasecmp_lname)
    then show ?thesis using that [of "sent s" "types ds"] assms(7) False uniq by blast
  qed
qed

lemma strtol10_show_int: "0 \<le> x \<Longrightarrow> int32_ok x \<Longrightarrow> strtol10 (show_int x) = x"
proof -
  assume x: "0 \<le> x" "int32_ok x"
  obtain c cs where cs: "show_nat (nat x) = c # cs" by (cases "show_nat (nat x)") auto
  then have "isdigit c" using show_nat_digits [of "nat x"] by auto
  then have c: "\<not> isspace c" "ccode c \<noteq> 45" "ccode c \<noteq> 43" by (auto simp: isspace_def isdigit_def)
  have s: "show_int x = c # cs" using x(1) cs by (simp add: show_int_def)
  have "strtol10 (show_int x) = clamp_long (int (digits_val 10 0 (c # cs)))"
    using c unfolding s by (simp add: strtol10_def del: digits_val.simps)
  also have "\<dots> = clamp_long x" using x(1) digits_val_show_nat [of "nat x"] unfolding cs by simp
  finally show ?thesis using x(2) by (simp add: clamp_long_def int32_ok_def)
qed

lemma agrees_set_slot:
  assumes "agrees i dts ts" and "slot ts i = Some (n, ms)"
  shows "agrees i dts (ts[i := Some (n, ms')])" "slot (ts[i := Some (n, ms')]) = (slot ts)(i := Some (n, ms'))"
proof -
  show s: "slot (ts[i := Some (n, ms')]) = (slot ts)(i := Some (n, ms'))"
    using slot_Some_length [of ts i] assms(2) by (simp add: slot_update)
  show "agrees i dts (ts[i := Some (n, ms')])"
    using assms unfolding agrees_def names_agree_def complete_def s by (auto split: if_splits)
qed

lemma add_member_spec:
  assumes "wf_cdts dts" and "i < length dts" and "cdt_ref_ok i (m_type m)" and "validate_name (m_name m) = 0"
    and "0 < int_of_u32 (m_count m)" and "\<And>j. j < i \<Longrightarrow> fetches fd dts get j"
    and "cdts s = dts" and "sfd ds = fd" and "agrees i dts (types ds)" and "slot (types ds) i = Some (n, ms)"
  obtains x ts where "add_member_to_cache get s ds i (member_str dts m) = Some (0, s\<lparr>sent := x\<rparr>, ds\<lparr>types := ts\<rparr>)"
    "agrees i dts ts" "slot ts i = Some (n, ms @ [m])"
    "\<forall>j. j \<noteq> i \<longrightarrow> slot (types ds) j \<noteq> None \<or> i < j \<longrightarrow> slot ts j = slot (types ds) j"
    "\<forall>j<i. m_type m = CDT_TO_TYPE (of_nat j) \<longrightarrow> slot ts j \<noteq> None"
proof -
  have ref: "cdt_ref_ok (length dts) (m_type m)" using assms(2,3) by (auto intro: cdt_ref_ok_mono)
  note tn = type_name_props [OF ref order_refl assms(1)]
  let ?c = "show_int (int_of_u32 (m_count m))"
  have tok: "strtok_all CHR '','' (member_str dts m) = [m_name m, type_name dts (m_type m), ?c]"
    using strtok_all_concat [of "m_name m" "CHR '',''" "[type_name dts (m_type m), ?c]"]
      valid_name_props(1) [OF assms(4)] valid_name_sep(1) [OF assms(4)] tn(3,4) show_int_sep
    by (simp add: member_str_def)
  have cnt: "u32_of (strtol10 ?c) = m_count m" using assms(5) by (simp add: strtol10_show_int)
  from string_to_type_spec [OF assms(1) _ assms(3,6,7,8,9)] assms(2) obtain x ts where
    st: "string_to_type get s ds (type_name dts (m_type m)) = Some (m_type m, s\<lparr>sent := x\<rparr>, ds\<lparr>types := ts\<rparr>)"
    "agrees i dts ts" "\<forall>j. slot (types ds) j \<noteq> None \<or> i \<le> j \<longrightarrow> slot ts j = slot (types ds) j"
    "\<forall>j<i. m_type m = CDT_TO_TYPE (of_nat j) \<longrightarrow> slot ts j \<noteq> None" by (metis less_imp_le)
  have si: "slot ts i = Some (n, ms)" using st(3) assms(10) by auto
  have "add_member_to_cache get s ds i (member_str dts m) =
      Some (0, s\<lparr>sent := x\<rparr>, ds\<lparr>types := ts[i := Some (n, ms @ [m])]\<rparr>)"
    using tok cnt assms(5) st(1) arr_get_slot [OF si] by (cases m) (simp add: add_member_to_cache_def Let_def)
  from that [OF this agrees_set_slot(1) [OF st(2) si]] show ?thesis
    using st(3,4) unfolding agrees_set_slot(2) [OF st(2) si] by (simp add: less_imp_le)
qed

lemma add_members_spec:
  assumes "wf_cdts dts" and "i < length dts" and "d_members (dts ! i) = done @ todo"
    and "\<forall>m\<in>set todo. 0 < int_of_u32 (m_count m)" and "\<And>j. j < i \<Longrightarrow> fetches fd dts get j"
    and "cdts s = dts" and "sfd ds = fd" and "agrees i dts (types ds)" and "slot (types ds) i = Some (d_name (dts ! i), done)"
    and "\<forall>m\<in>set done. \<forall>j<i. m_type m = CDT_TO_TYPE (of_nat j) \<longrightarrow> slot (types ds) j \<noteq> None"
  shows "\<exists>x ts. add_members_to_cache get s ds i (map (member_str dts) todo) = Some (0, s\<lparr>sent := x\<rparr>, ds\<lparr>types := ts\<rparr>) \<and>
    agrees (Suc i) dts ts \<and> slot ts i \<noteq> None \<and>
    (\<forall>j. j \<noteq> i \<longrightarrow> slot (types ds) j \<noteq> None \<or> i < j \<longrightarrow> slot ts j = slot (types ds) j)"
  using assms(3-10)
proof (induction todo arbitrary: "done" s ds)
  case Nil
  then have "complete dts (types ds) i" by (simp add: complete_def)
  with Nil have "agrees (Suc i) dts (types ds)" by (simp add: agrees_def less_Suc_eq)
  with Nil show ?case by (intro exI [of _ "sent s"] exI [of _ "types ds"]) simp
next
  case (Cons m todo)
  have "m \<in> set (d_members (dts ! i))" using Cons.prems(1) by simp
  with wf_cdtsD(1) [OF assms(1,2)] have mi: "cdt_ref_ok i (m_type m)" "validate_name (m_name m) = 0"
    by (simp_all add: wf_cdt_def)
  have c: "0 < int_of_u32 (m_count m)" using Cons.prems(2) by simp
  from add_member_spec [OF assms(1,2) mi c Cons.prems(3-7)] obtain x ts where
    a: "add_member_to_cache get s ds i (member_str dts m) = Some (0, s\<lparr>sent := x\<rparr>, ds\<lparr>types := ts\<rparr>)"
    "agrees i dts ts" "slot ts i = Some (d_name (dts ! i), done @ [m])"
    "\<forall>j. j \<noteq> i \<longrightarrow> slot (types ds) j \<noteq> None \<or> i < j \<longrightarrow> slot ts j = slot (types ds) j"
    "\<forall>j<i. m_type m = CDT_TO_TYPE (of_nat j) \<longrightarrow> slot ts j \<noteq> None" by blast
  let ?s = "s\<lparr>sent := x\<rparr>" and ?ds = "ds\<lparr>types := ts\<rparr>"
  have "\<forall>m\<in>set (done @ [m]). \<forall>j<i. m_type m = CDT_TO_TYPE (of_nat j) \<longrightarrow> slot (types ?ds) j \<noteq> None"
  proof (intro ballI allI impI)
    fix m' j
    assume "m' \<in> set (done @ [m])" and j: "j < i" and t: "m_type m' = CDT_TO_TYPE (of_nat j)"
    then consider "m' = m" | "slot (types ds) j \<noteq> None" using Cons.prems(8) by auto
    then show "slot (types ?ds) j \<noteq> None" using a(4,5) j t by cases auto
  qed
  from Cons.IH [OF _ _ Cons.prems(3) _ _ _ _ this, of ?s] a Cons.prems obtain x' ts' where
    "add_members_to_cache get ?s ?ds i (map (member_str dts) todo) = Some (0, ?s\<lparr>sent := x'\<rparr>, ?ds\<lparr>types := ts'\<rparr>)"
    "agrees (Suc i) dts ts'" "slot ts' i \<noteq> None" "\<forall>j. j \<noteq> i \<longrightarrow> slot ts j \<noteq> None \<or> i < j \<longrightarrow> slot ts' j = slot ts j"
    by auto
  then show ?case using a(1,4) by (intro exI [of _ x'] exI [of _ ts']) auto
qed

lemma agrees_new_slot:
  assumes "agrees (Suc i) dts ts" and "i < length dts" and "slot ts' = (slot ts)(i := Some (d_name (dts ! i), ms))"
  shows "agrees i dts ts'"
proof -
  have "complete dts ts' k" if "k < i" "slot ts' k \<noteq> None" for k
  proof (rule complete_keep)
    show "complete dts ts k" using assms(1,3) that by (simp add: agrees_def)
    show "\<forall>j\<le>k. slot ts j \<noteq> None \<longrightarrow> slot ts' j = slot ts j" using assms(3) that(1) by simp
  qed
  with assms show ?thesis by (auto simp: agrees_def names_agree_def)
qed

lemma add_cdt_to_cache_new:
  assumes "wf_cdts dts" and "i < length dts" and "\<forall>m\<in>set (d_members (dts ! i)). 0 < int_of_u32 (m_count m)"
    and "\<And>j. j < i \<Longrightarrow> fetches fd dts get j" and "cdts s = dts" and "sfd ds = fd" and "agrees (Suc i) dts (types ds)"
    and "slot (types ds) i = None"
  shows "\<exists>x ts. add_cdt_to_cache get s ds (CDT_TO_TYPE (of_nat i)) (cdt_str dts (dts ! i)) =
    Some (0, s\<lparr>sent := x\<rparr>, ds\<lparr>types := ts\<rparr>) \<and> extended i dts (types ds) ts"
proof -
  let ?ts = "grow_types i (types ds)"
  let ?ds = "ds\<lparr>types := ?ts[i := Some (d_name (dts ! i), [])]\<rparr>"
  have idx: "unat (CDT_TO_INDEX (CDT_TO_TYPE (of_nat i))) = i"
    using assms(2) wf_cdtsD(2) [OF assms(1)] by (intro CDT_index_of_nat(1)) simp
  have sl: "slot (types ?ds) = (slot (types ds))(i := Some (d_name (dts ! i), []))"
    using grow_types_slot by (simp add: slot_update)
  have "?ts ! i = None" using grow_types_slot [of i "types ds"] assms(8) by (metis slot_def)
  then have ins: "insert_type (?ts ! i) (d_name (dts ! i)) = Some (d_name (dts ! i), [])"
    using valid_name_props(3) [OF cdt_members_ok(1) [OF assms(1,2)]] by (simp add: insert_type_def)
  have ag: "agrees i dts (types ?ds)" using agrees_new_slot [OF assms(7,2) sl] .
  from add_members_spec [OF assms(1,2) _ assms(3,4,5), of "[]" ?ds] ag sl assms(6) obtain x ts where
    m: "add_members_to_cache get s ?ds i (map (member_str dts) (d_members (dts ! i))) =
      Some (0, s\<lparr>sent := x\<rparr>, ?ds\<lparr>types := ts\<rparr>)" "agrees (Suc i) dts ts" "slot ts i \<noteq> None"
    "\<forall>j. j \<noteq> i \<longrightarrow> slot (types ?ds) j \<noteq> None \<or> i < j \<longrightarrow> slot ts j = slot (types ?ds) j" by auto
  have "add_cdt_to_cache get s ds (CDT_TO_TYPE (of_nat i)) (cdt_str dts (dts ! i)) =
      Some (0, s\<lparr>sent := x\<rparr>, ds\<lparr>types := ts\<rparr>)"
    using m(1) strtok_cdt_str [OF assms(1) cdt_members_ok [OF assms(1,2)]] ins by (simp add: add_cdt_to_cache_def idx)
  moreover have "slot ts j = slot (types ds) j" if "slot (types ds) j \<noteq> None \<or> i < j" for j
    using that m(4) assms(8) unfolding sl by (cases "j = i") auto
  ultimately show ?thesis using m(2,3) by (auto simp: extended_def)
qed

text \<open>Whatever the cache has already, fetching a type adds it and the types of its members as the server has them.\<close>

lemma cdt_fetch:
  assumes "wf_cdts dts" and "sendable dts" and "alloc E A_serialize" and "0 \<le> fd" and "xwrite_ok E fd"
    and "i < length dts" and "i < k" and "cdt_query dts i type name" and "cdts s = dts" and "sfd ds = fd"
    and "agrees (Suc i) dts (types ds)" and "slot (types ds) i = None"
  shows "\<exists>x ts. cdt_get_fuel k E s ds type name = Some (0, s\<lparr>sent := x\<rparr>, ds\<lparr>types := ts\<rparr>) \<and> extended i dts (types ds) ts"
  using assms(6-12)
proof (induction i arbitrary: k type name s ds rule: less_induct)
  case (less i)
  from less.prems(2) obtain k' where k: "k = Suc k'" "i \<le> k'" by (cases k) auto
  have ft: "fetches fd dts (cdt_get_fuel k' E) j" if "j < i" for j
    unfolding fetches_def
  proof (intro allI impI, elim conjE)
    fix s :: server and ds :: dax_state
    assume "cdts s = dts" "sfd ds = fd" "agrees (Suc j) dts (types ds)" "slot (types ds) j = None"
    then show "\<exists>x ts. cdt_get_fuel k' E s ds 0 (Some (d_name (dts ! j))) = Some (0, s\<lparr>sent := x\<rparr>, ds\<lparr>types := ts\<rparr>) \<and>
        extended j dts (types ds) ts"
      using that less.prems(1) k(2) by (intro less.IH) (simp_all add: cdt_query_def)
  qed
  have pos: "\<forall>m\<in>set (d_members (dts ! i)). 0 < int_of_u32 (m_count m)"
    using bspec [OF assms(2) [unfolded sendable_def] nth_mem [OF less.prems(1)]] by blast
  let ?s = "answered s fd (MSG_CDT_GET OR MSG_RESPONSE) (cdt_answer dts i)"
  have "cdts ?s = dts" using less.prems(4) by (simp add: answered_def)
  from add_cdt_to_cache_new [OF assms(1) less.prems(1) pos ft this less.prems(5-7)] obtain x ts where
    a: "add_cdt_to_cache (cdt_get_fuel k' E) ?s ds (CDT_TO_TYPE (of_nat i)) (cdt_str dts (dts ! i)) =
      Some (0, s\<lparr>sent := x\<rparr>, ds\<lparr>types := ts\<rparr>)" "extended i dts (types ds) ts" by (auto simp: answered_def)
  have "cstr (drop 4 (cdt_answer dts i)) = Some (cdt_str dts (dts ! i))"
    using cstr_str_bytes [OF cdt_str_codes [OF assms(1) less.prems(1)], of "[]"] by (simp add: cdt_answer_def)
  moreover have "dec32 (take 4 (cdt_answer dts i)) = CDT_TO_TYPE (of_nat i)" by (simp add: cdt_answer_def)
  ultimately have "cdt_get_fuel k E s ds type name = Some (0, s\<lparr>sent := x\<rparr>, ds\<lparr>types := ts\<rparr>)"
    using cdt_request [of s i E ds type name] assms(1-5) less.prems(1,3-5) a(1) unfolding k(1) by simp
  with a(2) show ?case by blast
qed

section \<open>The size of a type on both sides\<close>

lemma custom_to_type:
  assumes "cdt_ref_ok n t" and "IS_CUSTOM t"
  obtains j where "j < n" "t = CDT_TO_TYPE (of_nat j)"
  using assms base_types_not_custom by (auto simp: cdt_ref_ok_def)

lemma cached_type_slot:
  assumes "wf_cdts dts" and "j < length dts" and "complete dts (types ds) j"
  shows "cached_type ds (CDT_TO_TYPE (of_nat j)) = Some (d_members (dts ! j))"
proof -
  have "unat (CDT_TO_INDEX (CDT_TO_TYPE (of_nat j))) = j"
    using assms(2) wf_cdtsD(2) [OF assms(1)] by (intro CDT_index_of_nat(1)) simp
  then have "uint (CDT_TO_INDEX (CDT_TO_TYPE (of_nat j))) = int j" by (metis of_nat_unat)
  then show ?thesis
    using arr_get_slot [of "types ds" j] assms(3) by (simp add: cached_type_def complete_def)
qed

lemma client_pos_members_pos:
  assumes "\<And>m. m \<in> set ms \<Longrightarrow> IS_CUSTOM (m_type m) \<Longrightarrow> f (m_type m) = g (m_type m)"
    and "members_pos g pos ms = Some q"
  shows "client_pos f pos ms = Some q"
  using assms
proof (induction g pos ms rule: members_pos.induct)
  case (2 g pos m ms)
  then show ?case by (auto split: option.splits if_splits)
qed simp

text \<open>The sizes that the client computes are those of the server, as long as no type is empty.\<close>

lemma typesize_fuel_agrees:
  assumes "wf_cdts dts" and "cdts_fit dts" and "agrees (length dts) dts (types ds)"
    and "j < length dts" and "slot (types ds) j \<noteq> None" and "0 < ideal_size dts (CDT_TO_TYPE (of_nat j))" and "j < k"
  shows "typesize_fuel k ds (CDT_TO_TYPE (of_nat j)) = Some (int (ideal_size dts (CDT_TO_TYPE (of_nat j))))"
  using assms(4-7)
proof (induction j arbitrary: k rule: less_induct)
  case (less j)
  then obtain k' where k: "k = Suc k'" "j \<le> k'" by (cases k) auto
  let ?t = "CDT_TO_TYPE (of_nat j)" and ?ms = "d_members (dts ! j)"
  have c: "complete dts (types ds) j" using assms(3) less.prems by (simp add: agrees_def)
  have fit: "ideal_bits dts j < 2 ^ 32"
    and pos: "\<And>m. m \<in> set ?ms \<Longrightarrow> IS_CUSTOM (m_type m) \<Longrightarrow> 0 < ideal_size dts (m_type m)"
    using assms(2) less.prems(1) by (simp_all add: cdts_fit_def)
  have sub: "typesize_fuel k' ds (m_type m) = Some (int (ideal_size dts (m_type m)))"
    if m: "m \<in> set ?ms" "IS_CUSTOM (m_type m)" for m
  proof -
    have "cdt_ref_ok j (m_type m)" using wf_cdtsD(1) [OF assms(1) less.prems(1)] m(1) by (simp add: wf_cdt_def)
    then obtain i where i: "i < j" "m_type m = CDT_TO_TYPE (of_nat i)" using m(2) by (rule custom_to_type)
    with c m(1) have "slot (types ds) i \<noteq> None" by (simp add: complete_def)
    then show ?thesis using less.IH [of i k'] less.prems(1) pos [OF m] i k(2) by simp
  qed
  have "members_pos (\<lambda>t. Some (int (ideal_size dts t))) (of_nat 0) ?ms = Some (of_nat (ideal_bits dts j))"
    using members_pos_ideal [of ?ms "\<lambda>t. Some (int (ideal_size dts t))" "ideal_size dts" 0] pos fit
    by (simp add: ideal_bits_def)
  with client_pos_members_pos [of ?ms "typesize_fuel k' ds" "\<lambda>t. Some (int (ideal_size dts t))"] sub
  have cp: "client_pos (typesize_fuel k' ds) 0 ?ms = Some (of_nat (ideal_bits dts j))" by simp
  have "j < MAX_CDTS" using less.prems(1) wf_cdtsD(2) [OF assms(1)] by simp
  then have q: "drop_queue ?t = ?t" by (rule CDT_index_of_nat)
  have sz: "ideal_size dts ?t = (ideal_bits dts j + 7) div 8" using ideal_size_cdt [OF assms(1) less.prems(1)] .
  have "unat (of_nat (ideal_bits dts j) :: u32) = ideal_bits dts j" using fit by (simp add: unat_of_nat)
  moreover have "ideal_bits dts j \<noteq> 0" using less.prems(3) sz by (intro notI) simp
  ultimately have nz: "(of_nat (ideal_bits dts j) :: u32) \<noteq> 0" by (intro notI) simp
  show ?case
    using cached_type_slot [OF assms(1) less.prems(1) c] cp bytes_of_bits [OF fit] nz
    unfolding k(1) typesize_fuel.simps q Let_def sz by simp
qed

lemma dax_get_typesize_agrees:
  assumes "wf_cdts dts" and "cdts_fit dts" and "agrees (length dts) dts (types ds)"
    and "j < length dts" and "slot (types ds) j \<noteq> None" and "0 < ideal_size dts (CDT_TO_TYPE (of_nat j))"
  shows "dax_get_typesize ds (CDT_TO_TYPE (of_nat j)) = Some (int (ideal_size dts (CDT_TO_TYPE (of_nat j))))"
  unfolding dax_get_typesize_def using assms slot_Some_length [OF assms(5)] by (intro typesize_fuel_agrees) simp_all

text \<open>A connected client with a cache that agrees with the server.\<close>

definition client_ok :: "env \<Rightarrow> server \<Rightarrow> dax_state \<Rightarrow> bool" where
  "client_ok E s ds \<longleftrightarrow>
    0 \<le> sfd ds \<and> xwrite_ok E (sfd ds) \<and> agrees (length (cdts s)) (cdts s) (types ds)"

definition grown :: "type_slot list \<Rightarrow> type_slot list \<Rightarrow> bool" where
  "grown ts ts' \<longleftrightarrow> (\<forall>i. slot ts i \<noteq> None \<longrightarrow> slot ts' i = slot ts i)"

lemma grown_trans: "grown a b \<Longrightarrow> grown b c \<Longrightarrow> grown a c"
  by (simp add: grown_def)

lemma grown_refl [simp]: "grown a a"
  by (simp add: grown_def)

lemma type_to_string_cdt:
  assumes "wf_cdts (cdts s)" and "sendable (cdts s)" and "alloc E A_serialize" and "client_ok E s ds" and "j < length (cdts s)"
  obtains x ts where "dax_type_to_string E s ds (CDT_TO_TYPE (of_nat j)) =
      Some (Some (d_name (cdts s ! j)), s\<lparr>sent := x\<rparr>, ds\<lparr>types := ts\<rparr>)"
    "client_ok E s (ds\<lparr>types := ts\<rparr>)" "slot ts j \<noteq> None" "grown (types ds) ts"
proof -
  let ?t = "CDT_TO_TYPE (of_nat j)" and ?dts = "cdts s"
  have "unat (CDT_TO_INDEX ?t) = j" using assms(5) wf_cdtsD(2) [OF assms(1)] by (intro CDT_index_of_nat(1)) simp
  then have idx: "uint (CDT_TO_INDEX ?t) = int j" by (metis of_nat_unat)
  have c: "0 \<le> sfd ds" "xwrite_ok E (sfd ds)" "agrees (length ?dts) ?dts (types ds)"
    using assms(4) by (simp_all add: client_ok_def)
  have nm: "fst y = d_name (?dts ! j)" if "names_agree ?dts ts" "slot ts j = Some y" for ts y
    using that unfolding names_agree_def by (cases y) auto
  show ?thesis
  proof (cases "slot (types ds) j")
    case (Some y)
    have "fst y = d_name (?dts ! j)" using nm [OF _ Some] c(3) by (simp add: agrees_def)
    then have "dax_type_to_string E s ds ?t =
        Some (Some (d_name (?dts ! j)), s\<lparr>sent := sent s\<rparr>, ds\<lparr>types := types ds\<rparr>)"
      using arr_get_slot [OF Some] idx by (cases y) (simp add: dax_type_to_string_def)
    then show ?thesis using that [of "sent s" "types ds"] assms(4) Some by simp
  next
    case None
    have "agrees (Suc j) ?dts (types ds)" using c(3) assms(5) by (auto intro: agrees_mono)
    from cdt_fetch [OF assms(1,2,3) c(1,2) assms(5) _ _ refl refl this None, of "Suc (length ?dts)" ?t None] assms(5)
    obtain x ts where g: "dax_cdt_get E s ds ?t None = Some (0, s\<lparr>sent := x\<rparr>, ds\<lparr>types := ts\<rparr>)" "extended j ?dts (types ds) ts"
      unfolding dax_cdt_get_def by (auto simp: cdt_query_def)
    from g(2) obtain y where y: "slot ts j = Some y" by (auto simp: extended_def)
    have "fst y = d_name (?dts ! j)" using nm [OF _ y] g(2) by (simp add: extended_def agrees_def)
    moreover have "arr_get (types ds) (int j) \<noteq> Some (Some z)" for z
      using None by (auto simp: arr_get_def slot_def split: if_splits)
    ultimately have "dax_type_to_string E s ds ?t = Some (Some (d_name (?dts ! j)), s\<lparr>sent := x\<rparr>, ds\<lparr>types := ts\<rparr>)"
      using g(1) arr_get_slot [OF y] idx by (auto simp: dax_type_to_string_def split: option.split)
    moreover have "client_ok E s (ds\<lparr>types := ts\<rparr>)"
      using c extended_agrees [OF g(2) c(3) assms(5)] by (simp add: client_ok_def)
    ultimately show ?thesis using that g(2) y by (simp add: extended_def grown_def)
  qed
qed

section \<open>Creating a type\<close>

lemma type_to_string_base:
  assumes "t \<in> set base_types"
  shows "dax_type_to_string E s ds t = Some (Some (type_name dts t), s, ds)"
proof -
  obtain b where b: "cdt_get_name dts t = Some b" "(b, t) \<in> set base_names"
    using base_name_roundtrip [OF assms] by metis
  then show ?thesis
    using base_names_find(2) [OF b(2)] base_types_not_custom [OF assms] by (simp add: dax_type_to_string_def type_name_def)
qed

lemma client_ok_sent [simp]: "client_ok E (s\<lparr>sent := x\<rparr>) ds \<longleftrightarrow> client_ok E s ds"
  by (simp add: client_ok_def)

lemma type_to_string_ref:
  assumes "wf_cdts (cdts s)" and "sendable (cdts s)" and "alloc E A_serialize" and "client_ok E s ds"
    and "cdt_ref_ok (length (cdts s)) t"
  obtains x ts where "dax_type_to_string E s ds t = Some (Some (type_name (cdts s) t), s\<lparr>sent := x\<rparr>, ds\<lparr>types := ts\<rparr>)"
    "client_ok E s (ds\<lparr>types := ts\<rparr>)" "grown (types ds) ts"
proof (cases "t \<in> set base_types")
  case True
  then show ?thesis
    using that [of "sent s" "types ds"] type_to_string_base [OF True, of E s ds "cdts s"] assms(4) by simp
next
  case False
  with assms(5) obtain j where j: "j < length (cdts s)" "t = CDT_TO_TYPE (of_nat j)" by (auto simp: cdt_ref_ok_def)
  from type_to_string_cdt [OF assms(1-4) j(1)] obtain x ts where
    "dax_type_to_string E s ds t = Some (Some (d_name (cdts s ! j)), s\<lparr>sent := x\<rparr>, ds\<lparr>types := ts\<rparr>)"
    "client_ok E s (ds\<lparr>types := ts\<rparr>)" "grown (types ds) ts" unfolding j(2) by metis
  then show ?thesis using that cdt_get_name_cdt [OF assms(1) j(1)] j(2) by (simp add: type_name_def)
qed

lemma describe_members_str:
  assumes "wf_cdts (cdts s)" and "sendable (cdts s)" and "alloc E A_serialize" and "client_ok E s ds"
    and "\<forall>m\<in>set ms. cdt_ref_ok (length (cdts s)) (m_type m)"
  shows "\<exists>x ts. describe_members E s ds ms =
      Some (concat (map (\<lambda>m. CHR '':'' # member_str (cdts s) m) ms), s\<lparr>sent := x\<rparr>, ds\<lparr>types := ts\<rparr>) \<and>
    client_ok E s (ds\<lparr>types := ts\<rparr>)"
  using assms
proof (induction ms arbitrary: s ds)
  case Nil
  then show ?case by (intro exI [of _ "sent s"] exI [of _ "types ds"]) simp
next
  case (Cons m ms)
  from Cons.prems(5) have "cdt_ref_ok (length (cdts s)) (m_type m)" by simp
  from type_to_string_ref [OF Cons.prems(1-4) this] obtain x ts where
    a: "dax_type_to_string E s ds (m_type m) =
      Some (Some (type_name (cdts s) (m_type m)), s\<lparr>sent := x\<rparr>, ds\<lparr>types := ts\<rparr>)"
    "client_ok E s (ds\<lparr>types := ts\<rparr>)" by metis
  from Cons.IH [of "s\<lparr>sent := x\<rparr>" "ds\<lparr>types := ts\<rparr>"] Cons.prems a(2) obtain x' ts' where
    "describe_members E (s\<lparr>sent := x\<rparr>) (ds\<lparr>types := ts\<rparr>) ms =
      Some (concat (map (\<lambda>m. CHR '':'' # member_str (cdts s) m) ms), s\<lparr>sent := x'\<rparr>, ds\<lparr>types := ts'\<rparr>)"
    "client_ok E s (ds\<lparr>types := ts'\<rparr>)" by auto
  with a(1) show ?case by (intro exI [of _ x'] exI [of _ ts']) (simp add: member_str_def)
qed

text \<open>The table with one more type.\<close>

definition new_cdt :: "string \<Rightarrow> cdt_member list \<Rightarrow> cdt" where
  "new_cdt name ms = \<lparr>d_name = name, d_flags = 0, d_refcount = 0, d_members = ms\<rparr>"

definition creatable :: "cdt list \<Rightarrow> string \<Rightarrow> cdt_member list \<Rightarrow> bool" where
  "creatable dts name ms \<longleftrightarrow>
    wf_cdts dts \<and> length dts < MAX_CDTS \<and> validate_name name = 0 \<and> cdt_get_type dts name = 0 \<and> ms \<noteq> [] \<and>
    (\<forall>m\<in>set ms. cdt_ref_ok (length dts) (m_type m) \<and> validate_name (m_name m) = 0) \<and>
    distinct (map (lname \<circ> m_name) ms)"

lemma creatable_wf:
  assumes "creatable dts name ms"
  shows "wf_cdts (dts @ [new_cdt name ms])"
  using assms by (intro wf_cdts_snoc) (auto simp: creatable_def new_cdt_def wf_cdt_def cdt_get_type_eq_0)

lemma type_name_snoc:
  assumes "wf_cdts dts" and "wf_cdts (dts @ [d])" and "cdt_ref_ok (length dts) t"
  shows "type_name (dts @ [d]) t = type_name dts t"
proof (cases "t \<in> set base_types")
  case True
  then show ?thesis using base_types_not_custom [OF True] by (simp add: type_name_def cdt_get_name_def)
next
  case False
  with assms(3) obtain j where j: "j < length dts" "t = CDT_TO_TYPE (of_nat j)" by (auto simp: cdt_ref_ok_def)
  then show ?thesis
    using cdt_get_name_cdt [OF assms(1) j(1)] cdt_get_name_cdt [OF assms(2), of j] by (simp add: type_name_def nth_append)
qed

lemma creatable_str:
  assumes "creatable dts name ms"
  shows "map (member_str (dts @ [new_cdt name ms])) ms = map (member_str dts) ms"
    and "cdt_str (dts @ [new_cdt name ms]) (new_cdt name ms) = cdt_str dts (new_cdt name ms)"
proof -
  have wf: "wf_cdts dts" and ref: "\<forall>m\<in>set ms. cdt_ref_ok (length dts) (m_type m)"
    using assms by (simp_all add: creatable_def)
  have "member_str (dts @ [new_cdt name ms]) m = member_str dts m" if "m \<in> set ms" for m
    using type_name_snoc [OF wf creatable_wf [OF assms]] ref that by (simp add: member_str_def)
  then show "map (member_str (dts @ [new_cdt name ms])) ms = map (member_str dts) ms"
    and "cdt_str (dts @ [new_cdt name ms]) (new_cdt name ms) = cdt_str dts (new_cdt name ms)"
    by (simp_all add: cdt_str_def new_cdt_def cong: map_cong)
qed

lemma cdt_create_fresh:
  assumes "creatable (cdts s) name ms" and "alloc_all E"
  obtains sz where "cdt_create E s (cdt_str (cdts s) (new_cdt name ms)) =
    Some (CDT_TO_TYPE (of_nat (length (cdts s))), Some 0, s\<lparr>cdts := cdts s @ [new_cdt name ms], datatype_size := sz\<rparr>)"
proof -
  have c: "wf_cdts (cdts s)" "validate_name name = 0" "cdt_get_type (cdts s) name = 0"
    "\<forall>m\<in>set ms. cdt_ref_ok (length (cdts s)) (m_type m) \<and> validate_name (m_name m) = 0"
    "distinct (map (lname \<circ> m_name) ms)" using assms(1) by (simp_all add: creatable_def)
  have "strtok_all CHR '':'' (cdt_str (cdts s) (new_cdt name ms)) = name # map (member_str (cdts s)) ms"
    using strtok_cdt_str [OF c(1), of "new_cdt name ms"] c(2,4) by (simp add: new_cdt_def)
  moreover have "cdt_append_all E (cdts s) [] (map (member_str (cdts s)) ms) = Inr ms"
    using cdt_append_all_members [OF c(1), of E ms "[]"] c(4,5) assms(2) by simp
  ultimately have "cdt_create E s (cdt_str (cdts s) (new_cdt name ms)) = Some (cdt_install E s name ms)"
    using c(2,3) assms(2) by (simp add: cdt_create_def)
  then show ?thesis
    using that assms(2) by (simp add: cdt_install_def new_cdt_def)
qed

lemma cstr_str_bytes_end:
  assumes "\<forall>c\<in>set n. ccode c \<noteq> 0" and "length n \<le> k"
  shows "cstr ((str_bytes n @ rest)[k := 0]) = Some n"
proof -
  have "\<exists>r. (str_bytes n @ rest)[k := 0] = map (\<lambda>c. of_nat (ccode c)) n @ 0 # r"
    using assms(2) by (cases "k - length n") (auto simp: str_bytes_def list_update_append)
  with cstr_bytes [OF assms(1)] show ?thesis by auto
qed

lemma create_request:
  assumes "creatable (cdts s) name ms" and "alloc_all E" and "0 \<le> sfd ds" and "xwrite_ok E (sfd ds)"
    and "length (cdt_str (cdts s) (new_cdt name ms)) + 1 \<le> MSG_DATA_SIZE"
  obtains sz where "message_request E s ds MSG_CDT_CREATE (str_bytes (cdt_str (cdts s) (new_cdt name ms))) =
    Some (0, enc32 (CDT_TO_TYPE (of_nat (length (cdts s)))),
      answered (s\<lparr>cdts := cdts s @ [new_cdt name ms], datatype_size := sz\<rparr>) (sfd ds) (MSG_CDT_CREATE OR MSG_RESPONSE)
        (enc32 (CDT_TO_TYPE (of_nat (length (cdts s))))))"
proof -
  let ?str = "cdt_str (cdts s) (new_cdt name ms)" and ?t = "CDT_TO_TYPE (of_nat (length (cdts s)))"
  let ?m = "request_msg E (sfd ds) MSG_CDT_CREATE (str_bytes ?str)"
  from cdt_create_fresh [OF assms(1,2)] obtain sz where
    c: "cdt_create E s ?str = Some (?t, Some 0, s\<lparr>cdts := cdts s @ [new_cdt name ms], datatype_size := sz\<rparr>)" .
  have "\<forall>c\<in>set ?str. ccode c \<noteq> 0"
    using cdt_str_codes [OF creatable_wf [OF assms(1)], of "length (cdts s)"] creatable_str(2) [OF assms(1)] by simp
  then have str: "cstr ((x_data ?m)[MSG_DATA_SIZE - 1 := 0]) = Some ?str"
    using assms(5) unfolding request_msg_def by (simp del: map_append) (intro cstr_str_bytes_end; simp)
  have d: "length (enc32 ?t) \<le> MSG_DATA_SIZE" and fd: "x_fd ?m = sfd ds" by (simp_all add: MSG_DATA_SIZE_def request_msg_def)
  have "msg_cdt_create E s ?m = Some (0, answered (s\<lparr>cdts := cdts s @ [new_cdt name ms], datatype_size := sz\<rparr>) (sfd ds)
      (MSG_CDT_CREATE OR MSG_RESPONSE) (enc32 ?t))"
    using send_data_answered [OF assms(4) order_refl d] c
    unfolding msg_cdt_create_def str by (simp add: fd)
  then show ?thesis
    using that [of sz] assms(3,5) d by (intro that request_response) (simp_all add: data_command_def cmd_arr_data [simplified])
qed

lemma cdt_str_snoc:
  assumes "wf_cdts dts" and "wf_cdts (dts @ [d])" and "i < length dts"
  shows "cdt_str (dts @ [d]) (dts ! i) = cdt_str dts (dts ! i)"
proof -
  have "member_str (dts @ [d]) m = member_str dts m" if "m \<in> set (d_members (dts ! i))" for m
    using type_name_snoc [OF assms(1,2)] cdt_members_ok(2) [OF assms(1,3)] that by (simp add: member_str_def)
  then show ?thesis by (simp add: cdt_str_def cong: map_cong)
qed

lemma sendable_snoc:
  assumes "wf_cdts dts" and "wf_cdts (dts @ [d])" and "sendable (dts @ [d])"
  shows "sendable dts"
  unfolding sendable_def
proof
  fix e
  assume "e \<in> set dts"
  then obtain i where i: "i < length dts" "e = dts ! i" by (metis in_set_conv_nth)
  then have "e \<in> set (dts @ [d])" by simp
  with assms(3) i cdt_str_snoc [OF assms(1,2) i(1)]
  show "length (cdt_str dts e) + 5 \<le> MSG_DATA_SIZE \<and> (\<forall>m\<in>set (d_members e). 0 < int_of_u32 (m_count m))"
    unfolding sendable_def by metis
qed

lemma agrees_snoc:
  assumes "agrees (length dts) dts ts"
  shows "agrees (length dts) (dts @ [d]) ts" and "slot ts (length dts) = None"
proof -
  have n: "names_agree dts ts" using assms by (simp add: agrees_def)
  show "slot ts (length dts) = None"
    using n unfolding names_agree_def by (cases "slot ts (length dts)") fastforce+
  have "names_agree (dts @ [d]) ts" using n unfolding names_agree_def by (fastforce simp: nth_append)
  with assms show "agrees (length dts) (dts @ [d]) ts" by (simp add: agrees_def complete_def nth_append)
qed

lemma dax_cdt_get_fetches:
  assumes "wf_cdts dts" and "sendable dts" and "alloc E A_serialize" and "0 \<le> fd" and "xwrite_ok E fd" and "j < length dts"
  shows "fetches fd dts (dax_cdt_get E) j"
  unfolding fetches_def
proof (intro allI impI, elim conjE)
  fix s :: server and ds :: dax_state
  assume "cdts s = dts" "sfd ds = fd" "agrees (Suc j) dts (types ds)" "slot (types ds) j = None"
  with cdt_fetch [OF assms, of "Suc (length dts)" 0 "Some (d_name (dts ! j))" s ds] assms(6)
  show "\<exists>x ts. dax_cdt_get E s ds 0 (Some (d_name (dts ! j))) = Some (0, s\<lparr>sent := x\<rparr>, ds\<lparr>types := ts\<rparr>) \<and>
      extended j dts (types ds) ts"
    by (simp add: dax_cdt_get_def cdt_query_def)
qed


lemma dax_cdt_create_steps:
  assumes "describe_members E s ds ms = Some (rest, s1, ds1)" and "ms \<noteq> []" and "name @ rest = desc"
    and "length desc + 1 \<le> MSG_DATA_SIZE" and "message_request E s1 ds1 MSG_CDT_CREATE (str_bytes desc) = Some (0, d, s2)"
    and "add_cdt_to_cache (dax_cdt_get E) s2 ds1 (dec32 (take 4 d)) desc = Some (0, s3, ds2)"
  shows "dax_cdt_create E s ds (name, ms) = Some (0, dec32 (take 4 d), s3, ds2)"
  using assms(1,2,4-6) unfolding assms(3) [symmetric] by (simp add: dax_cdt_create_def)

text \<open>A new type: the server has it, and so does the module that created it.\<close>

lemma dax_cdt_create_ok:
  assumes "creatable (cdts s) name ms" and "alloc_all E" and "client_ok E s ds" and "sendable (cdts s @ [new_cdt name ms])"
  obtains s1 ts where "dax_cdt_create E s ds (name, ms) = Some (0, CDT_TO_TYPE (of_nat (length (cdts s))), s1, ds\<lparr>types := ts\<rparr>)"
    "cdts s1 = cdts s @ [new_cdt name ms]" "client_ok E s1 (ds\<lparr>types := ts\<rparr>)" "slot ts (length (cdts s)) \<noteq> None"
proof -
  let ?new = "new_cdt name ms" and ?i = "length (cdts s)"
  let ?dts = "cdts s @ [?new]"
  have wf: "wf_cdts (cdts s)" and ref: "\<forall>m\<in>set ms. cdt_ref_ok ?i (m_type m)" and ne: "ms \<noteq> []"
    using assms(1) by (simp_all add: creatable_def)
  note wf' = creatable_wf [OF assms(1)] and al = alloc_allD [OF assms(2)]
  from describe_members_str [OF wf sendable_snoc [OF wf wf' assms(4)] al assms(3) ref] obtain x ts where
    d: "describe_members E s ds ms =
      Some (concat (map (\<lambda>m. CHR '':'' # member_str (cdts s) m) ms), s\<lparr>sent := x\<rparr>, ds\<lparr>types := ts\<rparr>)"
    "client_ok E s (ds\<lparr>types := ts\<rparr>)" by blast
  let ?ds = "ds\<lparr>types := ts\<rparr>"
  have ok: "0 \<le> sfd ?ds" "xwrite_ok E (sfd ?ds)" "agrees ?i (cdts s) ts" using d(2) by (simp_all add: client_ok_def)
  have str: "name @ concat (map (\<lambda>m. CHR '':'' # member_str (cdts s) m) ms) = cdt_str (cdts s) ?new"
    by (simp add: cdt_str_def new_cdt_def)
  have snd: "length (cdt_str (cdts s) ?new) + 1 \<le> MSG_DATA_SIZE" "\<forall>m\<in>set ms. 0 < int_of_u32 (m_count m)"
    using assms(4) creatable_str(2) [OF assms(1)] by (auto simp: sendable_def) (simp add: new_cdt_def)
  from create_request [of "s\<lparr>sent := x\<rparr>" name ms E ?ds] assms(1,2) ok(1,2) snd(1) obtain sz where
    r: "message_request E (s\<lparr>sent := x\<rparr>) ?ds MSG_CDT_CREATE (str_bytes (cdt_str (cdts s) ?new)) =
      Some (0, enc32 (CDT_TO_TYPE (of_nat ?i)), answered (s\<lparr>sent := x, cdts := ?dts, datatype_size := sz\<rparr>) (sfd ds)
        (MSG_CDT_CREATE OR MSG_RESPONSE) (enc32 (CDT_TO_TYPE (of_nat ?i))))" (is "_ = Some (_, _, ?s)") by auto
  have s1: "cdts ?s = ?dts" by (simp add: answered_def)
  have ft: "fetches (sfd ?ds) ?dts (dax_cdt_get E) j" if "j < ?i" for j
    using that ok(1,2) by (intro dax_cdt_get_fetches [OF wf' assms(4) al]) simp_all
  have ag: "agrees (Suc ?i) ?dts (types ?ds)" "slot (types ?ds) ?i = None"
    using agrees_snoc(1) [OF ok(3), of ?new] agrees_snoc(2) [OF ok(3)] by (simp_all add: agrees_def less_Suc_eq)
  from add_cdt_to_cache_new [OF wf' _ _ ft s1 refl ag] snd(2) obtain x' ts' where
    a: "add_cdt_to_cache (dax_cdt_get E) ?s ?ds (CDT_TO_TYPE (of_nat ?i)) (cdt_str (cdts s) ?new) =
      Some (0, ?s\<lparr>sent := x'\<rparr>, ds\<lparr>types := ts'\<rparr>)" "extended ?i ?dts ts ts'"
    using creatable_str(2) [OF assms(1)] by (auto simp: new_cdt_def nth_append)
  have "dax_cdt_create E s ds (name, ms) = Some (0, CDT_TO_TYPE (of_nat ?i), ?s\<lparr>sent := x'\<rparr>, ds\<lparr>types := ts'\<rparr>)"
    using dax_cdt_create_steps [OF d(1) ne str snd(1) r] a(1) by simp
  moreover have "cdts (?s\<lparr>sent := x'\<rparr>) = ?dts" by (simp add: answered_def)
  ultimately show ?thesis
    using that a(2) ok(1,2) by (simp add: client_ok_def extended_def)
qed

end
