(* ===== verification/Handle_Laws.thy ===== *)
theory Handle_Laws
  imports Client_Handles Type_Fetch
begin

text \<open>
  The handles that \<^verbatim>\<open>dax_tag_handle\<close> computes against the layout of compound types on the server: the walk over the
  members, the parts of a name, the range of items at its end.
\<close>

section \<open>The place of a member\<close>

text \<open>The end of the members in front of a member, and the member.\<close>

fun find_member :: "(u32 \<Rightarrow> nat) \<Rightarrow> nat \<Rightarrow> cdt_member list \<Rightarrow> string \<Rightarrow> (nat \<times> cdt_member) option" where
  "find_member f p [] name = None"
| "find_member f p (m # ms) name =
    (if m_name m = name then Some (p, m) else find_member f (member_start p m + member_bits f m) ms name)"

text \<open>A handle that is at a bit: the rest in the last byte is only kept behind BOOLs.\<close>

definition at :: "tag_handle \<Rightarrow> nat \<Rightarrow> bool" where
  "at h n \<longleftrightarrow> n = 8 * unat (h_byte h) + unat (h_bit h) \<and> unat (h_bit h) < 8 \<and> (h_bit h \<noteq> 0 \<longrightarrow> h_type h = DAX_BOOL)"

lemma find_member_in:
  "find_member f p ms name = Some (q, m) \<Longrightarrow>
    m \<in> set ms \<and> m_name m = name \<and> p \<le> q \<and> member_start q m + member_bits f m \<le> ideal_end f p ms"
proof (induction f p ms name rule: find_member.induct)
  case (2 f p m' ms name)
  have "p \<le> member_start p m'" by (simp add: member_start_def round8_props)
  with 2 show ?case by (auto simp: ideal_end_ge split: if_splits)
qed simp

lemma unat_add_lt: "unat a + n < 2 ^ 32 \<Longrightarrow> unat (a + of_nat n :: u32) = unat a + n"
proof -
  assume a: "unat a + n < 2 ^ 32"
  then have n: "unat (of_nat n :: u32) = n" by (simp add: unat_of_nat)
  with a show ?thesis by (simp add: unat_word_ariths)
qed

lemma unat_bit_add:
  fixes w :: byte and c :: u32
  assumes "unat w + unat c < 256"
  shows "unat (w + ucast c) = unat w + unat c"
proof -
  have "unat (ucast c :: byte) = unat c mod 256" by (simp add: unsigned_ucast_eq unsigned_take_bit_eq take_bit_eq_mod)
  with assms show ?thesis by (simp add: unat_word_ariths)
qed

lemma ucast_byte: "(ucast w :: u32) = of_nat (unat (w :: byte))"
  using unat_bound [of w]
  by (simp add: word_unat_eq_iff unsigned_ucast_eq unsigned_take_bit_eq take_bit_eq_mod unat_of_nat)

lemma at_bool:
  fixes c :: u32
  assumes "at h n" and "unat c \<le> 248" and "n + unat c < 2 ^ 32"
  defines "w \<equiv> h_bit h + ucast c"
  shows "at (if 7 < w then h\<lparr>h_byte := h_byte h + ucast (w div 8), h_bit := w mod 8, h_type := DAX_BOOL\<rparr>
    else h\<lparr>h_bit := w, h_type := DAX_BOOL\<rparr>) (n + unat c)"
proof -
  have h: "n = 8 * unat (h_byte h) + unat (h_bit h)" "unat (h_bit h) < 8" using assms(1) by (simp_all add: at_def)
  have w: "unat w = unat (h_bit h) + unat c" unfolding w_def using h(2) assms(2) by (intro unat_bit_add) simp
  have d: "unat (w div 8) = unat w div 8" "unat (w mod 8) = unat w mod 8" by (simp_all add: unat_div unat_mod)
  have u: "ucast (w div 8) = (of_nat (unat w div 8) :: u32)" using d(1) ucast_byte [of "w div 8"] by simp
  have lt: "(7 < w) = (7 < unat w)" by (simp add: word_less_nat_alt)
  have "unat w div 8 \<le> unat w" by simp
  then have b: "unat (h_byte h + of_nat (unat w div 8)) = unat (h_byte h) + unat w div 8"
    using assms(3) h(1) w by (intro unat_add_lt) linarith
  show ?thesis
    using h w b d by (auto simp: at_def lt u simp flip: w)
qed

lemma at_align:
  assumes "at h (b + p)" and "b mod 8 = 0" and "b + round8 p < 2 ^ 32"
  shows "8 * unat (if h_type h = DAX_BOOL \<and> 0 < h_bit h then h_byte h + 1 else h_byte h) = b + round8 p"
proof -
  have h: "b + p = 8 * unat (h_byte h) + unat (h_bit h)" "unat (h_bit h) < 8" "h_bit h \<noteq> 0 \<longrightarrow> h_type h = DAX_BOOL"
    using assms(1) by (simp_all add: at_def)
  obtain k where k: "b = 8 * k" using assms(2) by (metis mod_0_imp_dvd dvdE)
  show ?thesis
  proof (cases "h_bit h = 0")
    case True
    with h(1) k have "p = 8 * (unat (h_byte h) - k)" by (simp add: right_diff_distrib')
    then have "p mod 8 = 0" by simp
    with True h(1) show ?thesis by (simp add: round8_aligned)
  next
    case False
    then have pos: "0 < unat (h_bit h)" using unat_gt_0 by blast
    have p: "p = 8 * (unat (h_byte h) - k) + unat (h_bit h)" and ge: "k \<le> unat (h_byte h)" using h(1,2) k by linarith+
    have "p mod 8 = unat (h_bit h)" "p div 8 = unat (h_byte h) - k" using p h(2) by simp_all
    then have r: "round8 p = 8 * (unat (h_byte h) - k) + 8" using round8_unaligned [of p] pos by simp
    have "unat (h_byte h + of_nat 1) = unat (h_byte h) + 1" using assms(3) r k ge by (intro unat_add_lt) linarith
    with False h(3) r k ge show ?thesis by (simp add: word_gt_0)
  qed
qed

lemma skip_member_at:
  assumes "at h (b + p)" and "b mod 8 = 0" and "m_type m = DAX_BOOL \<Longrightarrow> unat (m_count m) \<le> 248"
    and "m_type m \<noteq> DAX_BOOL \<Longrightarrow> dax_get_typesize ds (m_type m) = Some (int z)"
    and "m_type m \<noteq> DAX_BOOL \<Longrightarrow> member_bits f m = unat (m_count m) * (8 * z)"
    and "b + (member_start p m + member_bits f m) < 2 ^ 32"
  obtains h1 where "skip_member ds h m = Some h1" "at h1 (b + (member_start p m + member_bits f m))" "h_index h1 = h_index h"
proof (cases "m_type m = DAX_BOOL")
  case True
  then have e: "member_start p m + member_bits f m = p + unat (m_count m)" by (simp add: member_start_def member_bits_def)
  have "b + p + unat (m_count m) < 2 ^ 32" using assms(6) e by simp
  note a = at_bool [OF assms(1) assms(3) [OF True] this, folded True]
  show ?thesis
  proof (rule that)
    show "skip_member ds h m = Some (if 7 < h_bit h + ucast (m_count m)
        then h\<lparr>h_byte := h_byte h + ucast ((h_bit h + ucast (m_count m)) div 8),
               h_bit := (h_bit h + ucast (m_count m)) mod 8, h_type := m_type m\<rparr>
        else h\<lparr>h_bit := h_bit h + ucast (m_count m), h_type := m_type m\<rparr>)"
      using True by (simp add: skip_member_def Let_def)
    show "at (if 7 < h_bit h + ucast (m_count m)
        then h\<lparr>h_byte := h_byte h + ucast ((h_bit h + ucast (m_count m)) div 8),
               h_bit := (h_bit h + ucast (m_count m)) mod 8, h_type := m_type m\<rparr>
        else h\<lparr>h_bit := h_bit h + ucast (m_count m), h_type := m_type m\<rparr>) (b + (member_start p m + member_bits f m))"
      using a unfolding e by (simp only: add.assoc)
  qed simp
next
  case False
  define byte where "byte = (if h_type h = DAX_BOOL \<and> 0 < h_bit h then h_byte h + 1 else h_byte h)"
  have e: "member_start p m + member_bits f m = round8 p + unat (m_count m) * (8 * z)"
    using False assms(5) by (simp add: member_start_def)
  have a: "8 * unat byte = b + round8 p" unfolding byte_def using assms(6) e by (intro at_align [OF assms(1,2)]) linarith
  have "unat (m_count m) * (8 * z) = 8 * (z * unat (m_count m))" by simp
  with assms(6) a e have lt: "8 * unat byte + 8 * (z * unat (m_count m)) < 2 ^ 32" by linarith
  have "unat (byte + of_nat (z * unat (m_count m))) = unat byte + z * unat (m_count m)"
    using lt by (intro unat_add_lt) linarith
  moreover have "u32_of (int z) * m_count m = of_nat (z * unat (m_count m))" by simp
  ultimately have u: "unat (byte + u32_of (int z) * m_count m) = unat byte + z * unat (m_count m)" by (simp only:)
  show ?thesis
  proof (rule that)
    show "skip_member ds h m = Some (h\<lparr>h_byte := byte + u32_of (int z) * m_count m, h_bit := 0, h_type := m_type m\<rparr>)"
      using False assms(4) by (simp add: skip_member_def byte_def Let_def)
    show "at (h\<lparr>h_byte := byte + u32_of (int z) * m_count m, h_bit := 0, h_type := m_type m\<rparr>)
        (b + (member_start p m + member_bits f m))"
      using u a e by (simp add: at_def del: u32_of_nat)
  qed simp
qed

text \<open>What the walk needs to know about the members: few enough BOOLs in a row, and the sizes of the others.\<close>

definition walkable :: "dax_state \<Rightarrow> (u32 \<Rightarrow> nat) \<Rightarrow> cdt_member list \<Rightarrow> bool" where
  "walkable ds f ms \<longleftrightarrow>
    (\<forall>m\<in>set ms. if m_type m = DAX_BOOL then unat (m_count m) \<le> 248
      else dax_get_typesize ds (m_type m) = Some (int (f (m_type m))) \<and> member_bits f m = unat (m_count m) * (8 * f (m_type m)))"

lemma skip_members_at:
  assumes "find_member f p ms name = Some (q, m)" and "at h (b + p)" and "b mod 8 = 0" and "walkable ds f ms"
    and "b + ideal_end f p ms < 2 ^ 32"
  shows "\<exists>h1. skip_members ds name h ms = Some (h1, Some m) \<and> at h1 (b + q) \<and> h_index h1 = h_index h"
  using assms
proof (induction f p ms name arbitrary: h rule: find_member.induct)
  case (2 f p m' ms name)
  show ?case
  proof (cases "m_name m' = name")
    case True
    with 2 show ?thesis by auto
  next
    case False
    let ?p = "member_start p m' + member_bits f m'"
    have w: "m_type m' = DAX_BOOL \<Longrightarrow> unat (m_count m') \<le> 248"
      "m_type m' \<noteq> DAX_BOOL \<Longrightarrow> dax_get_typesize ds (m_type m') = Some (int (f (m_type m')))"
      "m_type m' \<noteq> DAX_BOOL \<Longrightarrow> member_bits f m' = unat (m_count m') * (8 * f (m_type m'))" and ws: "walkable ds f ms"
      using 2(5) by (simp_all add: walkable_def)
    have "b + ?p \<le> b + ideal_end f ?p ms" by (simp add: ideal_end_ge)
    then have "b + ?p < 2 ^ 32" using 2(6) by simp
    from skip_member_at [OF 2(3,4) w this] obtain h1 where
      h1: "skip_member ds h m' = Some h1" "at h1 (b + ?p)" "h_index h1 = h_index h" by metis
    have "find_member f ?p ms name = Some (q, m)" using 2(2) False by simp
    from 2(1) [OF False this h1(2) 2(4) ws] 2(6) h1 False show ?thesis by auto
  qed
qed simp

section \<open>The parts of a name\<close>

type_synonym tag_path = "(string \<times> nat option) list"

definition part_str :: "string \<times> nat option \<Rightarrow> string" where
  "part_str p = fst p @ (case snd p of None \<Rightarrow> [] | Some k \<Rightarrow> CHR ''['' # show_nat k @ [CHR '']''])"

fun path_str :: "tag_path \<Rightarrow> string" where
  "path_str [] = []"
| "path_str [p] = part_str p"
| "path_str (p # q # ps) = part_str p @ CHR ''.'' # path_str (q # ps)"

lemma name_char_marks: "\<not> name_char CHR ''.''" "\<not> name_char CHR ''[''" "\<not> isdigit CHR '']''" "\<not> isdigit CHR ''.''"
  by (simp_all add: name_char_def isalpha_def isdigit_def ccode_def)

lemma valid_name_marks:
  assumes "validate_name n = 0"
  shows "CHR ''.'' \<notin> set n" "CHR ''['' \<notin> set n" "\<not> starts_digit (n @ rest)"
proof -
  show "CHR ''.'' \<notin> set n" "CHR ''['' \<notin> set n"
    using valid_name_props(2) [OF assms] name_char_marks(1,2) by (auto simp: list_all_iff)
  show "\<not> starts_digit (n @ rest)"
    using assms by (auto simp: validate_name_def starts_digit_def isalpha_def isdigit_def ccode_def split: list.splits if_splits)
qed

lemma part_str_dot: "validate_name (fst p) = 0 \<Longrightarrow> CHR ''.'' \<notin> set (part_str p)"
  using valid_name_marks(1) [of "fst p"] show_nat_digits name_char_marks(4)
  by (auto simp: part_str_def split: option.split)

lemma takeWhile_neq: "c \<notin> set xs \<Longrightarrow> takeWhile (\<lambda>x. x \<noteq> c) (xs @ c # ys) = xs" "c \<notin> set xs \<Longrightarrow> dropWhile (\<lambda>x. x \<noteq> c) (xs @ c # ys) = c # ys"
  "c \<notin> set xs \<Longrightarrow> takeWhile (\<lambda>x. x \<noteq> c) xs = xs" "c \<notin> set xs \<Longrightarrow> dropWhile (\<lambda>x. x \<noteq> c) xs = []"
  by (induction xs) auto

lemma split_part:
  assumes "validate_name (fst p) = 0"
  shows "split_tagname (part_str p) = (part_str p, None)"
    and "split_tagname (part_str p @ CHR ''.'' # rest) = (part_str p, Some rest)"
  using part_str_dot [OF assms] by (simp_all add: split_tagname_def takeWhile_neq)

definition index_of :: "nat option \<Rightarrow> int" where
  "index_of i = (case i of None \<Rightarrow> ERR_NOTFOUND | Some k \<Rightarrow> int k)"

lemma get_index_part:
  assumes "validate_name (fst p) = 0" and "\<And>k. snd p = Some k \<Longrightarrow> k < 2 ^ 31"
  shows "get_index (part_str p) = (fst p, index_of (snd p))"
proof (cases "snd p")
  case None
  then show ?thesis
    using takeWhile_neq(4) [OF valid_name_marks(2) [OF assms(1)]] by (simp add: get_index_def part_str_def index_of_def del: dropWhile_eq_Nil_conv)
next
  case (Some k)
  have dig: "CHR '']'' \<notin> set (show_nat k)" "list_all isdigit (show_nat k)"
    using show_nat_digits [of k] name_char_marks(3) by (auto simp: list_all_iff)
  have k: "int_of_u32 (u32_of (clamp_long (int k))) = int k"
    using assms(2) [OF Some] by (simp add: clamp_long_def int_of_u32_nat)
  show ?thesis
    using takeWhile_neq(1,2) [OF valid_name_marks(2) [OF assms(1)], of "show_nat k @ [CHR '']'']"]
      takeWhile_neq(1) [OF dig(1), of "[]"] dig(2) k
    by (simp add: get_index_def part_str_def index_of_def Some digits_val_show_nat)
qed

section \<open>The items at the end of a name\<close>

text \<open>The bits of one item, and a handle for \<open>c\<close> items of a type from a bit on.\<close>

definition item_bits :: "cdt list \<Rightarrow> u32 \<Rightarrow> nat" where
  "item_bits dts t = (if t = DAX_BOOL then 1 else 8 * ideal_size dts t)"

definition points :: "cdt list \<Rightarrow> tag_handle \<Rightarrow> nat \<Rightarrow> u32 \<Rightarrow> nat \<Rightarrow> bool" where
  "points dts h n t c \<longleftrightarrow>
    8 * unat (h_byte h) + unat (h_bit h) = n \<and> unat (h_bit h) < 8 \<and> h_type h = t \<and> unat (h_count h) = c \<and>
    unat (h_size h) = (if t = DAX_BOOL then (n mod 8 + c - 1) div 8 + 1 else ideal_size dts t * c)"

definition item_count :: "nat \<Rightarrow> cdt_member \<Rightarrow> nat option \<Rightarrow> nat" where
  "item_count c m i = (if c \<noteq> 0 then c else case i of None \<Rightarrow> unat (m_count m) | Some _ \<Rightarrow> 1)"

lemma unat_u32_of: "n < 2 ^ 32 \<Longrightarrow> unat (u32_of (int n)) = n"
  by (simp add: unat_of_nat)

lemma c_int_nat: "n < 2 ^ 31 \<Longrightarrow> c_int (int n) = Some (int n)"
  by (simp add: c_int_def int32_ok_def)

lemma cdiv_nat: "cdiv (int x) 8 = int (x div 8)"
  by (simp add: cdiv_def zdiv_int)

lemma bits_size_nat:
  assumes "b < 8" and "0 < c"
  shows "bits_size (int b) (int c) = int ((b + c - 1) div 8 + 1)"
proof -
  have "int b + int c - 1 = int (b + c - 1)" and z: "int b div 8 = 0" using assms by simp_all
  then have "cdiv (int b + int c - 1) 8 = int ((b + c - 1) div 8)" by (simp only: cdiv_nat)
  then show ?thesis unfolding bits_size_def z by simp
qed

lemma bits_size_word:
  assumes "b < 8" and "0 < c" and "c < 2 ^ 31"
  shows "unat (u32_of (bits_size (int b) (int c))) = (b + c - 1) div 8 + 1"
proof -
  define x where "x = (b + c - 1) div 8"
  have "x \<le> b + c - 1" unfolding x_def by (rule div_le_dividend)
  then have "x + 1 < 2 ^ 32" using assms by simp
  then show ?thesis unfolding bits_size_nat [OF assms(1,2)] x_def [symmetric] by (rule unat_u32_of)
qed

lemma pos_count:
  assumes "0 < int_of_u32 w"
  shows "unat w < 2 ^ 31" "int_of_u32 w = int (unat w)" "0 < unat w"
proof -
  have "uint (u32_of (int_of_u32 w)) = int_of_u32 w" using assms by (intro uint_u32_of) simp_all
  then show e: "int_of_u32 w = int (unat w)" by simp
  have "int_of_u32 w < 2 ^ 31" using int_of_u32_ok [of w] by (simp add: int32_ok_def)
  then show "unat w < 2 ^ 31" "0 < unat w" using assms unfolding e by (simp_all del: of_nat_unat)
qed

definition in_range :: "nat \<Rightarrow> cdt_member \<Rightarrow> nat option \<Rightarrow> bool" where
  "in_range c m i \<longleftrightarrow> (case i of None \<Rightarrow> c \<le> unat (m_count m) | Some k \<Rightarrow> k + max 1 c \<le> unat (m_count m))"

definition offset_of :: "nat option \<Rightarrow> nat" where
  "offset_of i = (case i of None \<Rightarrow> 0 | Some k \<Rightarrow> k)"

lemma in_range_items:
  assumes "in_range c m i" and "0 < int_of_u32 (m_count m)"
  shows "0 < item_count c m i" "offset_of i + item_count c m i \<le> unat (m_count m)" "offset_of i < 2 ^ 31"
    "item_count c m i < 2 ^ 31" "unat (u32_of (int (item_count c m i))) = item_count c m i"
proof -
  note q = pos_count [OF assms(2)]
  show a: "0 < item_count c m i" "offset_of i + item_count c m i \<le> unat (m_count m)"
    using assms(1) q(3) by (auto simp: in_range_def offset_of_def item_count_def split: option.splits)
  then show "offset_of i < 2 ^ 31" and b: "item_count c m i < 2 ^ 31" using q(1) by linarith+
  show "unat (u32_of (int (item_count c m i))) = item_count c m i" using b by (intro unat_u32_of) simp
qed

text \<open>The tests of the range, and the number of items that is stored.\<close>

lemma range_tests:
  assumes "in_range c m i" and "0 < int_of_u32 (m_count m)"
  shows "i = None \<Longrightarrow> \<not> int_of_u32 (m_count m) < int c \<and>
      (if int c = 0 then int_of_u32 (m_count m) else int c) = int (item_count c m i)"
    and "i = Some k \<Longrightarrow> c_int (int k + int (item_count c m i)) = Some (int k + int (item_count c m i)) \<and>
      \<not> int_of_u32 (m_count m) < int k + int (item_count c m i) \<and> (if int c = 0 then 1 else int c) = int (item_count c m i)"
proof -
  note q = pos_count [OF assms(2)] and r = in_range_items [OF assms]
  show "\<not> int_of_u32 (m_count m) < int c \<and>
      (if int c = 0 then int_of_u32 (m_count m) else int c) = int (item_count c m i)" if "i = None"
    using that assms(1) unfolding q(2) by (simp add: in_range_def item_count_def del: of_nat_unat)
  show "c_int (int k + int (item_count c m i)) = Some (int k + int (item_count c m i)) \<and>
      \<not> int_of_u32 (m_count m) < int k + int (item_count c m i) \<and> (if int c = 0 then 1 else int c) = int (item_count c m i)"
    if "i = Some k"
  proof -
    have e: "(if int c = 0 then 1 else int c) = int (item_count c m i)" using that by (simp add: item_count_def)
    have k: "k + item_count c m i \<le> unat (m_count m)" using r(2) that by (simp add: offset_of_def)
    then have "k + item_count c m i < 2 ^ 31" using q(1) by linarith
    from c_int_nat [OF this] k show ?thesis unfolding e q(2) by (simp del: of_nat_unat)
  qed
qed

lemma last_bool_at:
  assumes "at h n" and "m_type m = DAX_BOOL" and "0 < int_of_u32 (m_count m)" and "in_range c m i"
    and "n mod 8 + offset_of i mod 8 < 8" and "n + unat (m_count m) \<le> 2 ^ 32"
  shows "\<exists>h2. last_member ds m h (index_of i) (int c) = Some (0, h2) \<and>
    points dts h2 (n + offset_of i) DAX_BOOL (item_count c m i) \<and> h_index h2 = h_index h"
proof -
  have h: "n = 8 * unat (h_byte h) + unat (h_bit h)" "unat (h_bit h) < 8" using assms(1) by (simp_all add: at_def)
  then have nm: "n mod 8 = unat (h_bit h)" by simp
  note r = in_range_items [OF assms(4,3)] and t = range_tests [OF assms(4,3)]
  let ?c = "item_count c m i" and ?b = "unat (h_bit h) + offset_of i mod 8"
  have b8: "?b < 8" using assms(5) nm by simp
  have us: "unat (u32_of (bits_size (int ?b) (int ?c))) = (?b + ?c - 1) div 8 + 1" using b8 r(1,4) by (rule bits_size_word)
  have md: "(n + offset_of i) mod 8 = ?b" using mod_add_eq [of n 8 "offset_of i"] b8 unfolding nm by simp
  show ?thesis
  proof (cases i)
    case None
    then have "last_member ds m h (index_of i) (int c) =
        Some (0, h\<lparr>h_type := DAX_BOOL, h_size := u32_of (bits_size (int ?b) (int ?c)), h_count := u32_of (int ?c)\<rparr>)"
      using assms(2) t(1) by (simp add: last_member_def index_of_def offset_of_def)
    then show ?thesis using us r(5) h md None by (simp add: points_def offset_of_def del: u32_of_nat)
  next
    case (Some k)
    let ?w = "h_bit h + of_int (int k mod 8)"
    have "int k mod 8 = int (k mod 8)" "int k div 8 = int (k div 8)" by (metis of_nat_mod of_nat_numeral, metis of_nat_div of_nat_numeral)
    then have e: "of_int (int k mod 8) = (of_nat (k mod 8) :: byte)" "u32_of (int k div 8) = of_nat (k div 8)"
      by (simp_all only: of_int_of_nat_eq u32_of_nat)
    have j: "unat (of_nat (k mod 8) :: byte) = k mod 8" by (simp add: unat_of_nat)
    have w: "unat ?w = ?b" unfolding e(1) using b8 j Some by (simp add: unat_word_ariths offset_of_def)
    then have uw: "uint ?w = int ?b" by (metis uint_nat)
    have "k div 8 \<le> k" by simp
    moreover have "n + k < 2 ^ 32" using r(1,2) assms(6) Some by (simp add: offset_of_def)
    ultimately have bb: "unat (h_byte h + u32_of (int k div 8)) = unat (h_byte h) + k div 8"
      unfolding e(2) by (intro unat_add_lt) (simp add: h(1))
    have "last_member ds m h (index_of i) (int c) =
        Some (0, h\<lparr>h_type := DAX_BOOL, h_byte := h_byte h + u32_of (int k div 8), h_bit := ?w,
          h_size := u32_of (bits_size (uint ?w) (int ?c)), h_count := u32_of (int ?c)\<rparr>)"
      using Some assms(2) t(2) [OF Some] by (simp add: last_member_def index_of_def Let_def del: u32_of_nat)
    moreover have "8 * (unat (h_byte h) + k div 8) + ?b = n + k" using h(1) Some by (simp add: offset_of_def)
    ultimately show ?thesis using us r(5) md b8 Some w bb unfolding uw by (simp add: points_def offset_of_def del: u32_of_nat)
  qed
qed

lemma u32_of_zero: "u32_of 0 = 0"
  by (simp add: u32_of_def)

lemma eighths:
  assumes "8 * a + 8 * x + 8 * y \<le> (2 ^ 32 :: nat)"
  shows "a + x < 2 ^ 32" "x < 2 ^ 31" "y < 2 ^ 31"
  using assms by simp_all

lemma last_number_at:
  assumes "at h (b + q)" and "b mod 8 = 0" and "m_type m \<noteq> DAX_BOOL" and "dax_get_typesize ds (m_type m) = Some (int z)"
    and "z = ideal_size dts (m_type m)" and "0 < z" and "0 < int_of_u32 (m_count m)" and "in_range c m i"
    and "b + round8 q + unat (m_count m) * (8 * z) \<le> 2 ^ 32"
  shows "\<exists>h2. last_member ds m h (index_of i) (int c) = Some (0, h2) \<and>
    points dts h2 (b + round8 q + offset_of i * (8 * z)) (m_type m) (item_count c m i) \<and> h_index h2 = h_index h"
proof -
  define byte where "byte = (if h_type h = DAX_BOOL \<and> 0 < h_bit h then h_byte h + 1 else h_byte h)"
  let ?c = "item_count c m i" and ?k = "offset_of i"
  note r = in_range_items [OF assms(8,7)] and t = range_tests [OF assms(8,7)]
  have "(?k + ?c) * (8 * z) \<le> unat (m_count m) * (8 * z)" using r(2) by (rule mult_right_mono) simp
  then have kc: "?k * (8 * z) + ?c * (8 * z) \<le> unat (m_count m) * (8 * z)" by (simp add: distrib_right)
  have cz: "0 < ?c * (8 * z)" using r(1) assms(6) by simp
  have a: "8 * unat byte = b + round8 q"
    unfolding byte_def using assms(9) kc cz by (intro at_align [OF assms(1,2)]) linarith
  have e: "?k * (8 * z) = 8 * (z * ?k)" "?c * (8 * z) = 8 * (z * ?c)" by simp_all
  have "8 * unat byte + 8 * (z * ?k) + 8 * (z * ?c) \<le> 2 ^ 32" using assms(9) kc a unfolding e by linarith
  then have lt: "unat byte + z * ?k < 2 ^ 32" "z * ?k < 2 ^ 31" "z * ?c < 2 ^ 31" by (rule eighths)+
  have u: "unat (byte + u32_of (int (z * ?k))) = unat byte + z * ?k" unfolding u32_of_nat by (rule unat_add_lt [OF lt(1)])
  have s: "unat (u32_of (int (z * ?c))) = z * ?c" using lt(3) by (intro unat_u32_of) simp
  have ci: "c_int (int z * int ?k) = Some (int (z * ?k))" "c_int (int z * int ?c) = Some (int (z * ?c))"
    using c_int_nat [OF lt(2)] c_int_nat [OF lt(3)] by simp_all
  have "\<exists>h2. last_member ds m h (index_of i) (int c) = Some (0, h2) \<and>
      h_byte h2 = byte + u32_of (int (z * ?k)) \<and> h_bit h2 = 0 \<and> h_type h2 = m_type m \<and> h_count h2 = u32_of (int ?c) \<and>
      h_size h2 = u32_of (int (z * ?c)) \<and> h_index h2 = h_index h"
  proof (cases i)
    case None
    then show ?thesis
      using assms(3,4) t(1) ci(2) by (simp add: last_member_def index_of_def offset_of_def byte_def u32_of_zero Let_def del: u32_of_nat of_nat_mult)
  next
    case (Some k)
    then have "offset_of i = k" by (simp add: offset_of_def)
    with Some show ?thesis
      using assms(3,4) t(2) [OF Some] ci by (simp add: last_member_def index_of_def byte_def Let_def del: u32_of_nat of_nat_mult)
  qed
  then obtain h2 where h2: "last_member ds m h (index_of i) (int c) = Some (0, h2)"
    "h_byte h2 = byte + u32_of (int (z * ?k))" "h_bit h2 = 0" "h_type h2 = m_type m" "h_count h2 = u32_of (int ?c)"
    "h_size h2 = u32_of (int (z * ?c))" "h_index h2 = h_index h" by blast
  have "8 * unat (h_byte h2) + unat (h_bit h2) = b + round8 q + ?k * (8 * z)" using a u unfolding h2(2,3) e by simp
  then have "points dts h2 (b + round8 q + ?k * (8 * z)) (m_type m) ?c"
    using s r(5) assms(3,5) unfolding points_def h2(4,5,6) by (simp only: h2(3) if_False) simp
  with h2(1,7) show ?thesis by blast
qed

section \<open>The place that a name stands for\<close>

definition type_members :: "cdt list \<Rightarrow> u32 \<Rightarrow> cdt_member list" where
  "type_members dts t = d_members (dts ! unat (CDT_TO_INDEX t))"

text \<open>
  The first bit of the items that a path of members leads to, from the start of a value of the type, and the last
  member with its index.
\<close>

fun path_start :: "cdt list \<Rightarrow> u32 \<Rightarrow> tag_path \<Rightarrow> (nat \<times> cdt_member \<times> nat option) option" where
  "path_start dts t [] = None"
| "path_start dts t ((name, i) # rest) =
    do {
      (p, m) \<leftarrow> find_member (ideal_size dts) 0 (type_members dts t) name;
      let here = member_start p m + offset_of i * item_bits dts (m_type m);
      if rest = [] then Some (here, m, i)
      else do { (q, leaf) \<leftarrow> path_start dts (m_type m) rest; Some (here + q, leaf) }
    }"

text \<open>
  Paths on which the code keeps to the layout: indices in range, a compound member on the way starts where
  the members in front of it end, a range of bits starts in the byte in which its member starts, and BOOL members are short.
\<close>

fun path_ok :: "cdt list \<Rightarrow> nat \<Rightarrow> u32 \<Rightarrow> tag_path \<Rightarrow> bool" where
  "path_ok dts c t [] = False"
| "path_ok dts c t ((name, i) # rest) =
    (validate_name name = 0 \<and>
     (\<forall>m\<in>set (type_members dts t). m_type m = DAX_BOOL \<longrightarrow> unat (m_count m) \<le> 248) \<and>
     (case find_member (ideal_size dts) 0 (type_members dts t) name of
        None \<Rightarrow> False
      | Some (p, m) \<Rightarrow>
          if rest = [] then in_range c m i \<and> (m_type m = DAX_BOOL \<longrightarrow> p mod 8 + offset_of i mod 8 < 8)
          else IS_CUSTOM (m_type m) \<and> p mod 8 = 0 \<and> (i \<noteq> None \<longrightarrow> in_range c m i) \<and> path_ok dts c (m_type m) rest))"

section \<open>Members and their sizes\<close>

definition types_ok :: "cdt list \<Rightarrow> bool" where
  "types_ok dts \<longleftrightarrow> wf_cdts dts \<and> cdts_fit dts \<and> sendable dts"

lemma base_size:
  assumes "t \<in> set base_types" and "t \<noteq> DAX_BOOL"
  shows "8 * (TYPESIZE t div 8) = TYPESIZE t" "0 < TYPESIZE t div 8"
  using assms by (auto simp: base_types_def TYPESIZE_def)

lemma ideal_size_base: "t \<in> set base_types \<Longrightarrow> ideal_size dts t = TYPESIZE t div 8"
  using base_types_not_custom by (simp add: ideal_size_def)

lemma typesize_base:
  assumes "t \<in> set base_types" and "t \<noteq> DAX_BOOL"
  shows "dax_get_typesize ds t = Some (int (ideal_size dts t))"
  using assms base_types_not_custom [OF assms(1)] base_size(2) [OF assms]
  by (simp add: dax_get_typesize_def base_types_and_queue ideal_size_base)

lemma type_members_cdt:
  assumes "wf_cdts dts" and "j < length dts"
  shows "type_members dts (CDT_TO_TYPE (of_nat j)) = d_members (dts ! j)"
  using assms wf_cdtsD(2) [OF assms(1)] by (simp add: type_members_def CDT_index_of_nat(1))

lemma member_kind:
  assumes "types_ok dts" and "j < length dts" and "m \<in> set (d_members (dts ! j))"
  shows "0 < int_of_u32 (m_count m)"
    and "member_bits (ideal_size dts) m = unat (m_count m) * item_bits dts (m_type m)" and "0 < item_bits dts (m_type m)"
    and "IS_CUSTOM (m_type m) \<Longrightarrow> \<exists>i<j. m_type m = CDT_TO_TYPE (of_nat i)"
    and "m_type m \<noteq> DAX_BOOL \<Longrightarrow> 0 < ideal_size dts (m_type m)"
proof -
  have wf: "wf_cdts dts" and fit: "cdts_fit dts" and sd: "sendable dts" using assms(1) by (simp_all add: types_ok_def)
  show "0 < int_of_u32 (m_count m)"
    using bspec [OF sd [unfolded sendable_def] nth_mem [OF assms(2)]] assms(3) by blast
  have ref: "cdt_ref_ok j (m_type m)" using wf_cdtsD(1) [OF wf assms(2)] assms(3) by (simp add: wf_cdt_def)
  show "\<exists>i<j. m_type m = CDT_TO_TYPE (of_nat i)" if "IS_CUSTOM (m_type m)" using ref that by (elim custom_to_type) blast+
  show pos: "0 < ideal_size dts (m_type m)" if "m_type m \<noteq> DAX_BOOL"
  proof (cases "IS_CUSTOM (m_type m)")
    case True
    with fit assms(2,3) show ?thesis by (simp add: cdts_fit_def)
  next
    case False
    then have "m_type m \<in> set base_types" using ref by (auto simp: cdt_ref_ok_def)
    with base_size(2) that show ?thesis by (simp add: ideal_size_base)
  qed
  then show "0 < item_bits dts (m_type m)" by (simp add: item_bits_def)
  have "TYPESIZE (m_type m) = 8 * ideal_size dts (m_type m)" if "\<not> IS_CUSTOM (m_type m)" "m_type m \<noteq> DAX_BOOL"
  proof -
    have "m_type m \<in> set base_types" using ref that(1) by (auto simp: cdt_ref_ok_def)
    with base_size(1) that(2) show ?thesis by (simp add: ideal_size_base)
  qed
  then show "member_bits (ideal_size dts) m = unat (m_count m) * item_bits dts (m_type m)"
    by (simp add: member_bits_def item_bits_def)
qed

lemma type_end:
  assumes "types_ok dts" and "j < length dts"
  shows "ideal_end (ideal_size dts) 0 (d_members (dts ! j)) < 2 ^ 32"
    and "ideal_end (ideal_size dts) 0 (d_members (dts ! j)) \<le> 8 * ideal_size dts (CDT_TO_TYPE (of_nat j))"
    and "8 * ideal_size dts (CDT_TO_TYPE (of_nat j)) \<le> 2 ^ 32"
proof -
  have wf: "wf_cdts dts" and fit: "ideal_bits dts j < 2 ^ 32" using assms by (simp_all add: types_ok_def cdts_fit_def)
  then show "ideal_end (ideal_size dts) 0 (d_members (dts ! j)) < 2 ^ 32" by (simp add: ideal_bits_def)
  define x where "x = ideal_bits dts j"
  have e: "8 * ideal_size dts (CDT_TO_TYPE (of_nat j)) = round8 x"
    using ideal_size_cdt [OF wf assms(2)] by (simp add: round8_def x_def)
  show "ideal_end (ideal_size dts) 0 (d_members (dts ! j)) \<le> 8 * ideal_size dts (CDT_TO_TYPE (of_nat j))"
    unfolding e x_def ideal_bits_def by (rule round8_props)
  have "(x + 7) div 8 \<le> (2 ^ 32 - 1 + 7) div 8" using fit unfolding x_def by (intro div_le_mono) simp
  then show "8 * ideal_size dts (CDT_TO_TYPE (of_nat j)) \<le> 2 ^ 32" unfolding e round8_def by simp
qed

lemma member_typesize:
  assumes "types_ok dts" and "j < length dts" and "m \<in> set (d_members (dts ! j))" and "m_type m \<noteq> DAX_BOOL"
    and "agrees (length dts) dts (types ds)" and "slot (types ds) j \<noteq> None"
  shows "dax_get_typesize ds (m_type m) = Some (int (ideal_size dts (m_type m)))"
proof (cases "IS_CUSTOM (m_type m)")
  case True
  have wf: "wf_cdts dts" and fit: "cdts_fit dts" using assms(1) by (simp_all add: types_ok_def)
  from member_kind(4) [OF assms(1-3) True] obtain i where i: "i < j" "m_type m = CDT_TO_TYPE (of_nat i)" by blast
  have "complete dts (types ds) j" using assms(2,5,6) by (simp add: agrees_def)
  then have "slot (types ds) i \<noteq> None" using assms(3) i by (simp add: complete_def)
  with dax_get_typesize_agrees [OF wf fit assms(5), of i] member_kind(5) [OF assms(1-4)] i assms(2) show ?thesis by simp
next
  case False
  then have "m_type m \<in> set base_types"
    using wf_cdtsD(1) [of dts j] assms(1-3) by (auto simp: types_ok_def wf_cdt_def cdt_ref_ok_def)
  then show ?thesis using assms(4) by (rule typesize_base)
qed

lemma type_walkable:
  assumes "types_ok dts" and "j < length dts" and "agrees (length dts) dts (types ds)" and "slot (types ds) j \<noteq> None"
    and "\<forall>m\<in>set (d_members (dts ! j)). m_type m = DAX_BOOL \<longrightarrow> unat (m_count m) \<le> 248"
  shows "walkable ds (ideal_size dts) (d_members (dts ! j))"
  using assms(5) member_typesize [OF assms(1,2) _ _ assms(3,4)] member_kind(2) [OF assms(1,2)]
  by (simp add: walkable_def item_bits_def)

section \<open>Following a name\<close>

text \<open>One step of a path: the member, and the bits it takes within its type.\<close>

lemma path_step:
  assumes "types_ok dts" and "j < length dts" and "path_ok dts c (CDT_TO_TYPE (of_nat j)) ((name, i) # rest)"
  obtains p m where "find_member (ideal_size dts) 0 (d_members (dts ! j)) name = Some (p, m)" "m \<in> set (d_members (dts ! j))"
    "validate_name name = 0" "\<forall>m\<in>set (d_members (dts ! j)). m_type m = DAX_BOOL \<longrightarrow> unat (m_count m) \<le> 248"
    "member_start p m + unat (m_count m) * item_bits dts (m_type m) \<le> ideal_end (ideal_size dts) 0 (d_members (dts ! j))"
    "offset_of i + (if rest = [] then item_count c m i else 1) \<le> unat (m_count m)"
    "rest = [] \<longrightarrow> in_range c m i" "rest \<noteq> [] \<longrightarrow> i \<noteq> None \<longrightarrow> in_range c m i" "\<forall>k. i = Some k \<longrightarrow> k < 2 ^ 31"
proof -
  have wf: "wf_cdts dts" using assms(1) by (simp add: types_ok_def)
  note tm = type_members_cdt [OF wf assms(2)]
  from assms(3) obtain p m where f: "find_member (ideal_size dts) 0 (d_members (dts ! j)) name = Some (p, m)"
    by (auto simp: tm split: option.splits)
  note fi = find_member_in [OF f]
  then have m: "m \<in> set (d_members (dts ! j))" by simp
  note mk = member_kind [OF assms(1,2) m] and pc = pos_count [OF member_kind(1) [OF assms(1,2) m]]
  have ok: "rest = [] \<Longrightarrow> in_range c m i" "rest \<noteq> [] \<Longrightarrow> i \<noteq> None \<longrightarrow> in_range c m i"
    using assms(3) f by (auto simp: tm)
  have rg: "offset_of i + (if rest = [] then item_count c m i else 1) \<le> unat (m_count m)"
  proof (cases "rest = []")
    case True
    with in_range_items(2) [OF ok(1) mk(1)] show ?thesis by simp
  next
    case False
    with ok(2) pc(3) show ?thesis by (cases i) (auto simp: in_range_def offset_of_def)
  qed
  have small: "k < 2 ^ 31" if "i = Some k" for k
    using rg pc(1) that by (simp add: offset_of_def split: if_splits)
  show ?thesis
    using that [OF f m _ _ _ rg] ok small assms(3) fi unfolding mk(2) by (simp add: tm)
qed

lemma path_bound:
  assumes "types_ok dts" and "j < length dts" and "path_ok dts c (CDT_TO_TYPE (of_nat j)) path"
    and "path_start dts (CDT_TO_TYPE (of_nat j)) path = Some (q, leaf, i)"
  shows "q + item_count c leaf i * item_bits dts (m_type leaf) \<le> 8 * ideal_size dts (CDT_TO_TYPE (of_nat j)) \<and>
    0 < item_count c leaf i * item_bits dts (m_type leaf)"
  using assms(2-4)
proof (induction path arbitrary: j q)
  case (Cons a rest)
  obtain name k where a: "a = (name, k)" by (cases a)
  have wf: "wf_cdts dts" using assms(1) by (simp add: types_ok_def)
  note tm = type_members_cdt [OF wf Cons.prems(1)] and te = type_end(2) [OF assms(1) Cons.prems(1)]
  from path_step [OF assms(1) Cons.prems(1) Cons.prems(2) [unfolded a]] obtain p m where
    f: "find_member (ideal_size dts) 0 (d_members (dts ! j)) name = Some (p, m)" "m \<in> set (d_members (dts ! j))"
    "member_start p m + unat (m_count m) * item_bits dts (m_type m) \<le> ideal_end (ideal_size dts) 0 (d_members (dts ! j))"
    "offset_of k + (if rest = [] then item_count c m k else 1) \<le> unat (m_count m)"
    "rest = [] \<longrightarrow> in_range c m k" by metis
  note mk = member_kind [OF assms(1) Cons.prems(1) f(2)]
  let ?ib = "item_bits dts (m_type m)"
  have mono: "(offset_of k + x) * ?ib \<le> unat (m_count m) * ?ib" if "offset_of k + x \<le> unat (m_count m)" for x
    using that by (rule mult_right_mono) simp
  show ?case
  proof (cases "rest = []")
    case True
    then have q: "q = member_start p m + offset_of k * ?ib" "leaf = m" "i = k"
      using Cons.prems(3) f(1) by (auto simp: a tm Let_def)
    have "0 < item_count c m k" using in_range_items(1) [OF f(5) [rule_format, OF True] mk(1)] .
    with mono [of "item_count c m k"] f(3,4) True te mk(3) show ?thesis
      unfolding q by (simp add: distrib_right)
  next
    case False
    then obtain q' where q: "path_start dts (m_type m) rest = Some (q', leaf, i)" "q = member_start p m + offset_of k * ?ib + q'"
      using Cons.prems(3) f(1) by (auto simp: a tm Let_def split: option.splits)
    have cu: "IS_CUSTOM (m_type m)" and ok: "path_ok dts c (m_type m) rest" using Cons.prems(2) f(1) False by (simp_all add: a tm)
    from mk(4) [OF cu] obtain i' where i': "i' < j" "m_type m = CDT_TO_TYPE (of_nat i')" by blast
    have "m_type m \<noteq> DAX_BOOL" using cu by (auto simp: IS_CUSTOM_def)
    then have ib: "?ib = 8 * ideal_size dts (m_type m)" by (simp add: item_bits_def)
    have "q' + item_count c leaf i * item_bits dts (m_type leaf) \<le> ?ib \<and> 0 < item_count c leaf i * item_bits dts (m_type leaf)"
      unfolding ib using Cons.IH [of i' q'] ok q(1) i' Cons.prems(1) by simp
    with mono [of 1] f(3,4) False te show ?thesis unfolding q(2) by (simp add: distrib_right)
  qed
qed simp

lemma points_shift:
  assumes "points dts h n t c" and "n + 8 * z < 2 ^ 35"
  shows "points dts (h\<lparr>h_byte := h_byte h + u32_of (int z)\<rparr>) (n + 8 * z) t c"
proof -
  have "unat (h_byte h) + z < 2 ^ 32" using assms by (simp add: points_def)
  then have "unat (h_byte h + u32_of (int z)) = unat (h_byte h) + z" unfolding u32_of_nat by (rule unat_add_lt)
  with assms(1) show ?thesis by (simp add: points_def del: u32_of_nat)
qed

lemma path_str_Cons: "rest \<noteq> [] \<Longrightarrow> path_str (a # rest) = part_str a @ CHR ''.'' # path_str rest"
  by (cases rest) simp_all

lemma path_str_digit:
  assumes "path_ok dts c t path"
  shows "\<not> starts_digit (path_str path)"
proof (cases path)
  case (Cons a rest)
  obtain name k where a: "a = (name, k)" by (cases a)
  then have v: "validate_name name = 0" using assms Cons by simp
  have "\<exists>r. path_str path = name @ r" unfolding Cons a by (cases rest) (simp_all add: part_str_def)
  with valid_name_marks(3) [OF v] show ?thesis by auto
qed (use assms in simp)

lemma member_index_at:
  assumes "points dts h n t l" and "i \<noteq> None \<longrightarrow> in_range c m i" and "0 < int_of_u32 (m_count m)"
    and "dax_get_typesize ds (m_type m) = Some (int z)" and "n + offset_of i * (8 * z) < 2 ^ 32"
  shows "\<exists>h2. member_index ds m (index_of i) (int c) h = Some (0, h2) \<and> points dts h2 (n + offset_of i * (8 * z)) t l \<and>
    h_index h2 = h_index h"
proof (cases i)
  case None
  with assms(1) show ?thesis by (simp add: member_index_def index_of_def offset_of_def)
next
  case (Some k)
  then have "in_range c m i" using assms(2) by simp
  note t = range_tests(2) [OF this assms(3) Some]
  have e: "k * (8 * z) = 8 * (z * k)" by simp
  have lt: "n + 8 * (z * k) < 2 ^ 32" using assms(5) unfolding Some offset_of_def by (simp add: mult.commute)
  then have "c_int (int z * int k) = Some (int (z * k))" using c_int_nat [of "z * k"] by simp
  then have "member_index ds m (index_of i) (int c) h = Some (0, h\<lparr>h_byte := h_byte h + u32_of (int (z * k))\<rparr>)"
    using t assms(4) Some by (simp add: member_index_def index_of_def del: u32_of_nat of_nat_mult)
  moreover have "points dts (h\<lparr>h_byte := h_byte h + u32_of (int (z * k))\<rparr>) (n + 8 * (z * k)) t l"
    using assms(1) lt by (intro points_shift) simp_all
  ultimately show ?thesis using Some by (simp add: offset_of_def e del: u32_of_nat of_nat_mult)
qed

lemma last_member_at:
  assumes "types_ok dts" and "j < length dts" and "m \<in> set (d_members (dts ! j))" and "agrees (length dts) dts (types ds)"
    and "slot (types ds) j \<noteq> None" and "at h (b + p)" and "b mod 8 = 0" and "in_range c m i"
    and "m_type m = DAX_BOOL \<Longrightarrow> p mod 8 + offset_of i mod 8 < 8"
    and "b + (member_start p m + unat (m_count m) * item_bits dts (m_type m)) \<le> 2 ^ 32"
  shows "\<exists>h2. last_member ds m h (index_of i) (int c) = Some (0, h2) \<and>
    points dts h2 (b + (member_start p m + offset_of i * item_bits dts (m_type m))) (m_type m) (item_count c m i) \<and>
    h_index h2 = h_index h"
proof (cases "m_type m = DAX_BOOL")
  case True
  have "(b + p) mod 8 = p mod 8" using mod_add_eq [of b 8 p] assms(7) by simp
  then have "\<exists>h2. last_member ds m h (index_of i) (int c) = Some (0, h2) \<and>
      points dts h2 (b + p + offset_of i) DAX_BOOL (item_count c m i) \<and> h_index h2 = h_index h"
    using assms(9) [OF True] assms(10) True member_kind(1) [OF assms(1-3)]
    by (intro last_bool_at [OF assms(6) True _ assms(8)]) (simp_all add: member_start_def item_bits_def)
  then show ?thesis using True by (simp add: member_start_def item_bits_def add.assoc)
next
  case False
  then have e: "item_bits dts (m_type m) = 8 * ideal_size dts (m_type m)" "member_start p m = round8 p"
    by (simp_all add: item_bits_def member_start_def)
  have "\<exists>h2. last_member ds m h (index_of i) (int c) = Some (0, h2) \<and>
      points dts h2 (b + round8 p + offset_of i * (8 * ideal_size dts (m_type m))) (m_type m) (item_count c m i) \<and> h_index h2 = h_index h"
    using assms(10) unfolding e
    by (intro last_number_at [OF assms(6,7) False member_typesize [OF assms(1-3) False assms(4,5)] refl
        member_kind(5) [OF assms(1-3) False] member_kind(1) [OF assms(1-3)] assms(8)]) simp
  then show ?thesis unfolding e by (simp add: add.assoc)
qed

lemma parse_next_member_ok:
  assumes "types_ok (cdts s)" and "alloc E A_serialize" and "client_ok E s ds" and "j < length (cdts s)"
    and "path_ok (cdts s) c (CDT_TO_TYPE (of_nat j)) path"
    and "path_start (cdts s) (CDT_TO_TYPE (of_nat j)) path = Some (q, leaf, i)"
    and "at h b" and "b mod 8 = 0" and "b + ideal_bits (cdts s) j < 2 ^ 32"
  shows "\<exists>x ts h2. parse_next_member E s ds (CDT_TO_TYPE (of_nat j)) h (path_str path) (int c) =
      Some (0, h2, s\<lparr>sent := x\<rparr>, ds\<lparr>types := ts\<rparr>) \<and>
    client_ok E s (ds\<lparr>types := ts\<rparr>) \<and> grown (types ds) ts \<and> slot ts j \<noteq> None \<and> h_index h2 = h_index h \<and>
    points (cdts s) h2 (b + q) (m_type leaf) (item_count c leaf i)"
  using assms(1,3-9)
proof (induction path arbitrary: s ds j q h b)
  case (Cons a rest)
  obtain name k where a: "a = (name, k)" by (cases a)
  let ?dts = "cdts s" and ?t = "CDT_TO_TYPE (of_nat j)"
  have wf: "wf_cdts ?dts" and sd: "sendable ?dts" using Cons.prems(1) by (simp_all add: types_ok_def)
  note tm = type_members_cdt [OF wf Cons.prems(3)]
  obtain x ts where st: "dax_type_to_string E s ds ?t = Some (Some (d_name (?dts ! j)), s\<lparr>sent := x\<rparr>, ds\<lparr>types := ts\<rparr>)"
    "client_ok E s (ds\<lparr>types := ts\<rparr>)" "slot ts j \<noteq> None" "grown (types ds) ts"
    using type_to_string_cdt [OF wf sd assms(2) Cons.prems(2,3)] .
  let ?s = "s\<lparr>sent := x\<rparr>" and ?ds = "ds\<lparr>types := ts\<rparr>"
  have ag: "agrees (length ?dts) ?dts (types ?ds)" using st(2) by (simp add: client_ok_def)
  then have "complete ?dts ts j" using st(3) Cons.prems(3) by (simp add: agrees_def)
  then have sl: "slot ts j = Some (d_name (?dts ! j), d_members (?dts ! j))" by (simp add: complete_def)
  have "unat (CDT_TO_INDEX ?t) = j" using Cons.prems(3) wf_cdtsD(2) [OF wf] by (intro CDT_index_of_nat(1)) simp
  then have arr: "arr_get ts (uint (CDT_TO_INDEX ?t)) = Some (slot ts j)" using arr_get_slot [OF sl] sl by (metis of_nat_unat)
  obtain p m where
    f: "find_member (ideal_size ?dts) 0 (d_members (?dts ! j)) name = Some (p, m)" "m \<in> set (d_members (?dts ! j))"
    "validate_name name = 0" "\<forall>m\<in>set (d_members (?dts ! j)). m_type m = DAX_BOOL \<longrightarrow> unat (m_count m) \<le> 248"
    "member_start p m + unat (m_count m) * item_bits ?dts (m_type m) \<le> ideal_end (ideal_size ?dts) 0 (d_members (?dts ! j))"
    "offset_of k + (if rest = [] then item_count c m k else 1) \<le> unat (m_count m)"
    "rest = [] \<longrightarrow> in_range c m k" "rest \<noteq> [] \<longrightarrow> k \<noteq> None \<longrightarrow> in_range c m k" "\<forall>k'. k = Some k' \<longrightarrow> k' < 2 ^ 31"
    using path_step [OF Cons.prems(1,3) Cons.prems(4) [unfolded a]] .
  note mk = member_kind [OF Cons.prems(1,3) f(2)]
  have nn: "fst a = name" "snd a = k" by (simp_all add: a)
  have gi: "get_index (part_str a) = (name, index_of k)"
    using get_index_part [of a] f(3,9) by (simp add: nn)
  have ni: "\<not> (index_of k < 0 \<and> index_of k \<noteq> ERR_NOTFOUND)" by (simp add: index_of_def split: option.split)
  have be: "b + ideal_end (ideal_size ?dts) 0 (d_members (?dts ! j)) < 2 ^ 32" using Cons.prems(8) by (simp add: ideal_bits_def)
  from skip_members_at [OF f(1) _ Cons.prems(7) type_walkable [OF Cons.prems(1,3) ag _ f(4)] be, of h] Cons.prems(6) st(3)
  obtain h1 where h1: "skip_members ?ds name h (d_members (?dts ! j)) = Some (h1, Some m)" "at h1 (b + p)" "h_index h1 = h_index h"
    by auto
  have le: "b + (member_start p m + unat (m_count m) * item_bits ?dts (m_type m)) \<le> 2 ^ 32"
    using f(5) be by linarith
  show ?case
  proof (cases "rest = []")
    case True
    then have q: "q = member_start p m + offset_of k * item_bits ?dts (m_type m)" "leaf = m" "i = k"
      using Cons.prems(5) f(1) by (auto simp: a tm Let_def)
    have "m_type m = DAX_BOOL \<Longrightarrow> p mod 8 + offset_of k mod 8 < 8" using Cons.prems(4) f(1) True by (simp add: a tm)
    from last_member_at [OF Cons.prems(1,3) f(2) ag _ h1(2) Cons.prems(7) f(7) [rule_format, OF True] this le] st(3) obtain h2 where
      h2: "last_member ?ds m h1 (index_of k) (int c) = Some (0, h2)"
      "points ?dts h2 (b + q) (m_type m) (item_count c m k)" "h_index h2 = h_index h1" unfolding q by auto
    have "parse_next_member E s ds ?t h (path_str (a # rest)) (int c) = Some (0, h2, ?s, ?ds)"
      using True split_part(1) [of a] f(3) gi ni st(1) arr sl h1(1) h2(1)
      by (subst parse_next_member.simps) (simp add: nn)
    then show ?thesis using st(2-4) h2(2,3) h1(3) q(2,3) by (intro exI [of _ x] exI [of _ ts] exI [of _ h2]) simp
  next
    case False
    then obtain q' where q: "path_start ?dts (m_type m) rest = Some (q', leaf, i)"
      "q = member_start p m + offset_of k * item_bits ?dts (m_type m) + q'"
      using Cons.prems(5) f(1) by (auto simp: a tm Let_def split: option.splits)
    have cu: "IS_CUSTOM (m_type m)" and p8: "p mod 8 = 0" and ok: "path_ok ?dts c (m_type m) rest"
      using Cons.prems(4) f(1) False by (simp_all add: a tm)
    from mk(4) [OF cu] obtain i' where i': "i' < j" "m_type m = CDT_TO_TYPE (of_nat i')" by blast
    then have il: "i' < length ?dts" using Cons.prems(3) by simp
    have nb: "m_type m \<noteq> DAX_BOOL" using cu by (auto simp: IS_CUSTOM_def)
    define z where "z = ideal_size ?dts (m_type m)"
    have e: "item_bits ?dts (m_type m) = 8 * z" "member_start p m = p"
      using nb p8 by (simp_all add: item_bits_def member_start_def round8_aligned z_def)
    have "(offset_of k + 1) * (8 * z) \<le> unat (m_count m) * (8 * z)" using f(6) False by (intro mult_right_mono) simp_all
    then have kz: "offset_of k * (8 * z) + 8 * z \<le> unat (m_count m) * (8 * z)" by simp
    have ib: "ideal_bits ?dts i' \<le> 8 * z" using type_end(2) [OF Cons.prems(1) il] by (simp add: ideal_bits_def z_def i'(2))
    have bi: "b + p + ideal_bits ?dts i' < 2 ^ 32" "(b + p) mod 8 = 0"
      using ib kz f(5) be Cons.prems(7) p8 unfolding e by (linarith, simp add: mod_add_eq [symmetric])
    have rec: "\<exists>x' ts' h2. parse_next_member E ?s ?ds (m_type m) h1 (path_str rest) (int c) =
        Some (0, h2, s\<lparr>sent := x'\<rparr>, ds\<lparr>types := ts'\<rparr>) \<and> client_ok E s (ds\<lparr>types := ts'\<rparr>) \<and> grown ts ts' \<and>
        h_index h2 = h_index h1 \<and> points ?dts h2 (b + p + q') (m_type leaf) (item_count c leaf i)"
      using Cons.IH [of ?s ?ds i' q' h1 "b + p"] Cons.prems(1) st(2) il ok q(1) h1(2) bi i'(2) by auto
    then obtain x' ts' h2 where
      r: "parse_next_member E ?s ?ds (m_type m) h1 (path_str rest) (int c) = Some (0, h2, s\<lparr>sent := x'\<rparr>, ds\<lparr>types := ts'\<rparr>)"
      "client_ok E s (ds\<lparr>types := ts'\<rparr>)" "grown ts ts'" "h_index h2 = h_index h1"
      "points ?dts h2 (b + p + q') (m_type leaf) (item_count c leaf i)" by blast
    have sj: "slot ts' j \<noteq> None" using r(3) st(3) by (simp add: grown_def)
    have q8: "q' \<le> 8 * z" using path_bound [of ?dts i' c rest q' leaf i] Cons.prems(1) il ok q(1) by (simp add: i'(2) z_def)
    have tz: "dax_get_typesize (ds\<lparr>types := ts'\<rparr>) (m_type m) = Some (int z)"
      unfolding z_def using r(2) sj by (intro member_typesize [OF Cons.prems(1,3) f(2) nb]) (simp_all add: client_ok_def)
    obtain h3 where h3: "member_index (ds\<lparr>types := ts'\<rparr>) m (index_of k) (int c) h2 = Some (0, h3)"
      "points ?dts h3 (b + q) (m_type leaf) (item_count c leaf i)" "h_index h3 = h_index h2"
    proof -
      have "b + p + q' + offset_of k * (8 * z) < 2 ^ 32" using q8 kz f(5) be unfolding e by linarith
      from member_index_at [OF r(5) _ mk(1) tz this] f(8) False that show ?thesis
        unfolding q(2) e by (auto simp: ac_simps)
    qed
    have "parse_next_member E s ds ?t h (path_str (a # rest)) (int c) = Some (0, h3, s\<lparr>sent := x'\<rparr>, ds\<lparr>types := ts'\<rparr>)"
      using split_part(2) [of a "path_str rest"] path_str_Cons [OF False, of a] path_str_digit [OF ok] f(3) gi ni st(1) arr sl h1(1) r(1) h3(1)
      by (subst parse_next_member.simps) (simp add: nn)
    then show ?thesis using r(2,4) h3(2,3) h1(3) grown_trans [OF st(4) r(3)] sj
      by (intro exI [of _ x'] exI [of _ ts'] exI [of _ h3]) simp
  qed
qed simp

section \<open>Looking up the tag\<close>

definition named_tag :: "server \<Rightarrow> string \<Rightarrow> dax_tag \<Rightarrow> bool" where
  "named_tag s name d \<longleftrightarrow>
    validate_name name = 0 \<and> tag_get_name s name = Some (Inr d) \<and> dt_name d = name \<and> int32_ok (dt_idx d)"

definition tag_answer :: "dax_tag \<Rightarrow> byte list" where
  "tag_answer d = enc_int (dt_idx d) @ enc32 (dt_type d) @ enc32 (dt_count d) @ enc16 (dt_attr d) @ str_bytes (dt_name d)"

lemma tag_answer_dec:
  assumes "named_tag s name d"
  shows "cstr (drop 14 ((tag_answer d)[length (tag_answer d) - 1 := 0])) = Some name" "dec_tag (tag_answer d) name = d"
proof -
  have n: "dt_name d = name" "\<forall>c\<in>set name. ccode c \<noteq> 0" "int32_ok (dt_idx d)"
    using assms valid_name_codes by (auto simp: named_tag_def)
  have "tag_answer d = (enc_int (dt_idx d) @ enc32 (dt_type d) @ enc32 (dt_count d) @ enc16 (dt_attr d)) @ str_bytes name"
    using n(1) by (simp add: tag_answer_def)
  then have "drop 14 ((tag_answer d)[length (tag_answer d) - 1 := 0]) = str_bytes name"
    by (simp add: list_update_append str_bytes_def)
  then show "cstr (drop 14 ((tag_answer d)[length (tag_answer d) - 1 := 0])) = Some name"
    using cstr_str_bytes [OF n(2), of "[]"] by simp
  show "dec_tag (tag_answer d) name = d" using n by (simp add: dec_tag_def tag_answer_def)
qed

lemma tag_request:
  assumes "named_tag s name d" and "0 \<le> sfd ds" and "xwrite_ok E (sfd ds)"
  shows "message_request E s ds MSG_TAG_GET (1 # str_bytes name) =
    Some (0, tag_answer d, answered s (sfd ds) (MSG_TAG_GET OR MSG_RESPONSE) (tag_answer d))"
proof -
  let ?m = "request_msg E (sfd ds) MSG_TAG_GET (1 # str_bytes name)"
  have n: "tag_get_name s name = Some (Inr d)" "dt_name d = name" "\<forall>c\<in>set name. ccode c \<noteq> 0" "length name \<le> DAX_TAGNAME_SIZE"
    using assms(1) valid_name_codes valid_name_props(3) by (auto simp: named_tag_def)
  have len: "length (tag_answer d) \<le> MSG_DATA_SIZE" "length (1 # str_bytes name) \<le> MSG_DATA_SIZE"
    using n(2,4) by (simp_all add: tag_answer_def DAX_TAGNAME_SIZE_def MSG_DATA_SIZE_def)
  have x: "x_data ?m ! 0 = 1" "x_fd ?m = sfd ds" by (simp_all add: request_msg_def)
  have "cstr (drop 1 ((x_data ?m)[DAX_TAGNAME_SIZE + 1 := 0])) = Some name"
    using cstr_str_bytes_end [OF n(3,4)] by (simp add: request_msg_def)
  then have "msg_tag_get E s ?m = Some (0, answered s (sfd ds) (MSG_TAG_GET OR MSG_RESPONSE) (tag_answer d))"
    using n(1) send_data_answered [OF assms(3) order_refl len(1), of s MSG_TAG_GET] unfolding msg_tag_get_def x tag_answer_def
    by (simp add: Let_def)
  then show ?thesis
    using assms(2) len by (intro request_response) (simp_all add: data_command_def cmd_arr_data [simplified])
qed

text \<open>A cached description that is up to date, or none.\<close>

definition cache_current :: "dax_state \<Rightarrow> string \<Rightarrow> dax_tag \<Rightarrow> bool" where
  "cache_current ds name d \<longleftrightarrow> (\<exists>cs. cache_rep (tagcache ds) cs \<and> (\<forall>t\<in>set cs. dt_name t = name \<longrightarrow> t = d))"

lemma tag_byname_ok:
  assumes "named_tag s name d" and "0 \<le> sfd ds" and "xwrite_ok E (sfd ds)" and "cache_current ds name d"
  obtains x tc where "dax_tag_byname E s ds new name = Some (Inr d, s\<lparr>sent := x\<rparr>, ds\<lparr>tagcache := tc\<rparr>)"
proof -
  have n: "length name \<le> DAX_TAGNAME_SIZE" "name \<noteq> []" using assms(1) valid_name_props by (auto simp: named_tag_def)
  from assms(4) obtain cs where cs: "cache_rep (tagcache ds) cs" "\<forall>t\<in>set cs. dt_name t = name \<longrightarrow> t = d"
    by (auto simp: cache_current_def)
  from check_cache_rep [OF cs(1), of "\<lambda>t. dt_name t = name"] obtain c' where
    c: "check_cache_name (tagcache ds) name =
      Some (case find (\<lambda>t. dt_name t = name) cs of None \<Rightarrow> Inl ERR_NOTFOUND | Some t \<Rightarrow> Inr t, c')"
    unfolding check_cache_name_def by blast
  show ?thesis
  proof (cases "find (\<lambda>t. dt_name t = name) cs")
    case None
    let ?ds = "ds\<lparr>tagcache := c'\<rparr>"
    have "message_request E s ?ds MSG_TAG_GET (1 # str_bytes name) =
        Some (0, tag_answer d, answered s (sfd ds) (MSG_TAG_GET OR MSG_RESPONSE) (tag_answer d))"
      using tag_request [OF assms(1), of ?ds E] assms(2,3) by simp
    then have "dax_tag_byname E s ds new name = Some (Inr d, answered s (sfd ds) (MSG_TAG_GET OR MSG_RESPONSE) (tag_answer d),
        ds\<lparr>tagcache := snd (cache_tag_add c' new d)\<rparr>)"
      using c None n tag_answer_dec [OF assms(1)] by (simp add: dax_tag_byname_def)
    then show ?thesis using that by (simp add: answered_def)
  next
    case (Some t)
    then have "t \<in> set cs" "dt_name t = name" by (auto simp: find_Some_iff)
    with cs(2) have "t = d" by blast
    with c Some n have "dax_tag_byname E s ds new name = Some (Inr d, s\<lparr>sent := sent s\<rparr>, ds\<lparr>tagcache := c'\<rparr>)"
      by (simp add: dax_tag_byname_def)
    then show ?thesis by (rule that)
  qed
qed

lemma client_ok_tagcache [simp]: "client_ok E s (ds\<lparr>tagcache := c\<rparr>) \<longleftrightarrow> client_ok E s ds"
  by (simp add: client_ok_def)

lemma handle_zero_at: "at (handle_zero\<lparr>h_index := i\<rparr>) 0"
  by (simp add: at_def handle_zero_def)

lemma tag_handle_steps:
  assumes "split_tagname str = (part, Some mem)" and "get_index part = (name, i)" and "\<not> (i < 0 \<and> i \<noteq> ERR_NOTFOUND)"
    and "dax_tag_byname E s ds new name = Some (Inr d, s1, ds1)" and "\<not> starts_digit mem" and "IS_CUSTOM (dt_type d)"
    and "\<not> (1 < dt_count d \<and> i = ERR_NOTFOUND)"
    and "parse_next_member E s1 ds1 (dt_type d) (handle_zero\<lparr>h_index := dt_idx d\<rparr>) mem c = Some (0, h2, s2, ds2)"
    and "dax_get_typesize ds2 (dt_type d) = Some z"
  shows "dax_tag_handle E s ds new str c =
    (if i = ERR_NOTFOUND then Some (0, h2, s2, ds2)
     else map_option (\<lambda>off. (0, h2\<lparr>h_byte := h_byte h2 + u32_of off\<rparr>, s2, ds2)) (c_int (z * i)))"
proof -
  have "parse_tag E s ds new str c =
      (if i = ERR_NOTFOUND then Some (0, h2, s2, ds2)
       else map_option (\<lambda>off. (0, h2\<lparr>h_byte := h_byte h2 + u32_of off\<rparr>, s2, ds2)) (c_int (z * i)))"
    unfolding parse_tag_def assms(1,2,4) prod.case if_not_P [OF assms(3)] bind.bind_lunit sum.case option.case Let_def
      if_not_P [OF assms(5)] if_not_P [OF assms(7)] assms(8)
    using assms(6,9) by (cases "c_int (z * i)") simp_all
  then show ?thesis by (cases "c_int (z * i)") (simp_all add: dax_tag_handle_def)
qed

text \<open>
  The handle of a member of a tag of a compound type; \<open>k\<close> is the index of the tag, which the code does not check.
\<close>

lemma tag_handle_member:
  assumes "types_ok (cdts s)" and "alloc E A_serialize" and "client_ok E s ds" and "named_tag s name d" and "cache_current ds name d"
    and "j < length (cdts s)" and "dt_type d = CDT_TO_TYPE (of_nat j)" and "1 < dt_count d \<longrightarrow> k \<noteq> None"
    and "offset_of k * ideal_size (cdts s) (CDT_TO_TYPE (of_nat j)) < 2 ^ 31"
    and "path_ok (cdts s) c (CDT_TO_TYPE (of_nat j)) path"
    and "path_start (cdts s) (CDT_TO_TYPE (of_nat j)) path = Some (q, leaf, i)"
  shows "\<exists>h x ds1. dax_tag_handle E s ds new (path_str ((name, k) # path)) (int c) = Some (0, h, s\<lparr>sent := x\<rparr>, ds1) \<and>
    h_index h = dt_idx d \<and>
    points (cdts s) h (q + 8 * (ideal_size (cdts s) (CDT_TO_TYPE (of_nat j)) * offset_of k)) (m_type leaf) (item_count c leaf i)"
proof -
  let ?dts = "cdts s" and ?t = "CDT_TO_TYPE (of_nat j)" and ?h = "handle_zero\<lparr>h_index := dt_idx d\<rparr>"
  define z where "z = ideal_size ?dts ?t"
  have cl: "0 \<le> sfd ds" "xwrite_ok E (sfd ds)" using assms(3) by (simp_all add: client_ok_def)
  have v: "validate_name name = 0" using assms(4) by (simp add: named_tag_def)
  obtain x tc where bn: "dax_tag_byname E s ds new name = Some (Inr d, s\<lparr>sent := x\<rparr>, ds\<lparr>tagcache := tc\<rparr>)"
    using tag_byname_ok [OF assms(4) cl assms(5)] .
  let ?s = "s\<lparr>sent := x\<rparr>" and ?ds = "ds\<lparr>tagcache := tc\<rparr>"
  note pb = path_bound [OF assms(1,6,10,11), folded z_def]
  then have zpos: "0 < z" by linarith
  have z32: "8 * z \<le> 2 ^ 32" unfolding z_def by (rule type_end(3) [OF assms(1,6)])
  have lt: "0 + ideal_bits (cdts ?s) j < 2 ^ 32" using type_end(1) [OF assms(1,6)] by (simp add: ideal_bits_def)
  have pn: "\<exists>x ts h2. parse_next_member E ?s ?ds ?t ?h (path_str path) (int c) = Some (0, h2, ?s\<lparr>sent := x\<rparr>, ?ds\<lparr>types := ts\<rparr>) \<and>
      client_ok E ?s (?ds\<lparr>types := ts\<rparr>) \<and> grown (types ?ds) ts \<and> slot ts j \<noteq> None \<and> h_index h2 = h_index ?h \<and>
      points (cdts ?s) h2 (0 + q) (m_type leaf) (item_count c leaf i)"
    using assms(1,3,6,10,11) by (intro parse_next_member_ok [OF _ assms(2) _ _ _ _ handle_zero_at _ lt]; simp)
  have upd: "?s\<lparr>sent := y\<rparr> = s\<lparr>sent := y\<rparr>" "cdts ?s = ?dts" "h_index ?h = dt_idx d" "0 + q = q" for y by simp_all
  from pn [unfolded upd client_ok_sent] obtain x' ts h2 where r: "parse_next_member E ?s ?ds ?t ?h (path_str path) (int c) =
      Some (0, h2, s\<lparr>sent := x'\<rparr>, ?ds\<lparr>types := ts\<rparr>)" "client_ok E s (?ds\<lparr>types := ts\<rparr>)" "slot ts j \<noteq> None"
    "h_index h2 = dt_idx d" "points ?dts h2 q (m_type leaf) (item_count c leaf i)" by blast
  have tz: "dax_get_typesize (?ds\<lparr>types := ts\<rparr>) ?t = Some (int z)"
    unfolding z_def using r(2,3) zpos assms(1,6) by (intro dax_get_typesize_agrees) (simp_all add: types_ok_def client_ok_def z_def)
  have ne: "path \<noteq> []" using assms(10) by auto
  have "k' < 2 ^ 31" if "k = Some k'" for k'
  proof -
    have "k' * 1 \<le> k' * z" using zpos by (intro mult_le_mono2) simp
    moreover have "k' * z < 2 ^ 31" using assms(9) that unfolding z_def [symmetric] by (simp add: offset_of_def)
    ultimately show ?thesis by linarith
  qed
  then have gi: "get_index (part_str (name, k)) = (name, index_of k)" using get_index_part [of "(name, k)"] v by simp
  have ni: "\<not> (index_of k < 0 \<and> index_of k \<noteq> ERR_NOTFOUND)" by (simp add: index_of_def split: option.split)
  have cu: "IS_CUSTOM ?t" by simp
  have amb: "\<not> (1 < dt_count d \<and> index_of k = ERR_NOTFOUND)"
    using assms(8) by (auto simp: index_of_def split: option.split)
  have sp: "split_tagname (path_str ((name, k) # path)) = (part_str (name, k), Some (path_str path))"
    unfolding path_str_Cons [OF ne] using v by (intro split_part(2)) simp
  note p = tag_handle_steps [OF sp gi ni bn path_str_digit [OF assms(10)] cu [folded assms(7)] amb r(1) [folded assms(7)] tz [folded assms(7)]]
  show ?thesis
  proof (cases k)
    case None
    with p r(4,5) show ?thesis by (auto simp: index_of_def offset_of_def)
  next
    case (Some k')
    have zk: "z * k' < 2 ^ 31" using assms(9) unfolding Some z_def by (simp add: offset_of_def mult.commute)
    then have "c_int (int z * int k') = Some (int (z * k'))" using c_int_nat [of "z * k'"] by simp
    then have "dax_tag_handle E s ds new (path_str ((name, k) # path)) (int c) =
        Some (0, h2\<lparr>h_byte := h_byte h2 + u32_of (int (z * k'))\<rparr>, s\<lparr>sent := x'\<rparr>, ?ds\<lparr>types := ts\<rparr>)"
      using p unfolding Some by (simp add: index_of_def del: u32_of_nat of_nat_mult)
    moreover have "q \<le> 8 * z" using pb by linarith
    then have "q + 8 * (z * k') < 2 ^ 35" using zk z32 by simp
    note points_shift [OF r(5) this]
    ultimately show ?thesis using r(4) unfolding Some z_def [symmetric]
      by (auto simp: offset_of_def simp del: u32_of_nat of_nat_mult)
  qed
qed

text \<open>A range of items that ends within \<open>n\<close> bytes.\<close>

lemma points_inside:
  assumes "points dts h n t c" and "n + c * item_bits dts t \<le> 8 * m" and "0 < c * item_bits dts t"
  shows "unat (h_byte h) + unat (h_size h) \<le> m"
proof (cases "t = DAX_BOOL")
  case True
  define b r where "b = unat (h_byte h)" and "r = unat (h_bit h)"
  have h: "n = 8 * b + r" "r < 8" "unat (h_size h) = (n mod 8 + c - 1) div 8 + 1"
    using assms(1) True by (auto simp: points_def b_def r_def)
  then have "n mod 8 = r" by simp
  with h assms(2,3) True show ?thesis by (simp add: item_bits_def flip: b_def)
next
  case False
  define x where "x = ideal_size dts t * c"
  have "c * item_bits dts t = 8 * x" using False by (simp add: item_bits_def x_def)
  then show ?thesis using assms(1,2) False by (simp add: points_def flip: x_def)
qed
end
