(* ===== verification/Naming_Properties.thy ===== *)
theory Naming_Properties
  imports Handle_Laws Client_Properties
begin

text \<open>
  Properties of the names that modules use: the types that they create and fetch, and the parts of tags that they name.
\<close>

section \<open>Types\<close>

lemma base_type_bits: "t \<in> set base_types \<Longrightarrow> 0 < TYPESIZE t"
  by (auto simp: base_types_def TYPESIZE_def)

lemma creatable_size:
  assumes "creatable dts name ms" and "\<forall>m\<in>set ms. 0 < int_of_u32 (m_count m)" and "cdts_fit (dts @ [new_cdt name ms])"
  shows "0 < ideal_size (dts @ [new_cdt name ms]) (CDT_TO_TYPE (of_nat (length dts)))"
proof -
  let ?dts = "dts @ [new_cdt name ms]"
  obtain m ms' where ms: "ms = m # ms'" using assms(1) by (cases ms) (auto simp: creatable_def)
  have nth: "d_members (?dts ! length dts) = ms" by (simp add: new_cdt_def)
  have "unat (m_count m) \<noteq> 0" using assms(2) ms by (intro notI) (auto simp: unat_eq_zero int_of_u32_def)
  moreover have "0 < TYPESIZE (m_type m)" if "\<not> IS_CUSTOM (m_type m)"
    using assms(1) ms that by (auto simp: creatable_def cdt_ref_ok_def base_type_bits)
  moreover have "0 < ideal_size ?dts (m_type m)" if "IS_CUSTOM (m_type m)"
    using assms(3) ms nth that unfolding cdts_fit_def by (metis length_append_singleton lessI list.set_intros(1))
  ultimately have "0 < member_bits (ideal_size ?dts) m" by (simp add: member_bits_def)
  then have "0 < member_start 0 m + member_bits (ideal_size ?dts) m" by simp
  also have "\<dots> \<le> ideal_end (ideal_size ?dts) 0 (m # ms')" unfolding ideal_end.simps by (rule ideal_end_ge)
  also have "\<dots> = ideal_bits ?dts (length dts)" unfolding ideal_bits_def nth unfolding ms ..
  finally show ?thesis
    using ideal_size_cdt [OF creatable_wf [OF assms(1)], of "length dts"] by simp
qed

lemma client_ok_snoc:
  assumes "client_ok E s ds" and "cdts s1 = cdts s @ [d]"
  shows "client_ok E s1 ds"
  using assms agrees_snoc(1) [of "cdts s" "types ds" d] agrees_snoc(2) [of "cdts s" "types ds"]
  by (simp add: client_ok_def agrees_def less_Suc_eq)

text \<open>C6: A compound type that one module creates is what every other module gets from the server: the creation
  succeeds, the server appends the type to its table, another module that has never seen the type (nor, possibly, the types of its members)
  fetches it under the name that it was given, both modules have the members in the order and with the types and counts
  that were declared, and the size that each of them computes is the one that the server uses for its tags.\<close>

theorem client_type_roundtrip:
  assumes "creatable (cdts s) name ms" and "alloc_all E" and "client_ok E s a" and "client_ok E s b"
    and "sendable (cdts s @ [new_cdt name ms])" and "cdts_fit (cdts s @ [new_cdt name ms])"
  shows "\<exists>t s1 a1 s2 b1. dax_cdt_create E s a (name, ms) = Some (0, t, s1, a1) \<and>
    dax_type_to_string E s1 b t = Some (Some name, s2, b1) \<and> cdts s2 = cdts s @ [new_cdt name ms] \<and>
    cached_type a1 t = Some ms \<and> cached_type b1 t = Some ms \<and>
    dax_get_typesize a1 t = type_size (cdts s2) t \<and> dax_get_typesize b1 t = type_size (cdts s2) t"
proof -
  let ?i = "length (cdts s)" and ?dts = "cdts s @ [new_cdt name ms]"
  let ?t = "CDT_TO_TYPE (of_nat ?i)"
  note wf = creatable_wf [OF assms(1)]
  have i: "?i < length ?dts" and nth: "d_members (?dts ! ?i) = ms" "d_name (?dts ! ?i) = name" by (simp_all add: new_cdt_def)
  have "\<forall>m\<in>set ms. 0 < int_of_u32 (m_count m)" using assms(5) by (auto simp: sendable_def new_cdt_def)
  note pos = creatable_size [OF assms(1) this assms(6)]
  obtain s1 ts where a: "dax_cdt_create E s a (name, ms) = Some (0, ?t, s1, a\<lparr>types := ts\<rparr>)"
    "cdts s1 = ?dts" "client_ok E s1 (a\<lparr>types := ts\<rparr>)" "slot ts ?i \<noteq> None"
    using dax_cdt_create_ok [OF assms(1,2,3,5)] .
  have pre: "wf_cdts (cdts s1)" "sendable (cdts s1)" "?i < length (cdts s1)" using wf assms(5) i a(2) by simp_all
  have nm: "d_name (cdts s1 ! ?i) = name" using a(2) nth(2) by simp
  obtain x ts' where
    b: "dax_type_to_string E s1 b ?t = Some (Some name, s1\<lparr>sent := x\<rparr>, b\<lparr>types := ts'\<rparr>)"
    "client_ok E s1 (b\<lparr>types := ts'\<rparr>)" "slot ts' ?i \<noteq> None"
    using type_to_string_cdt [OF pre(1,2) alloc_allD [OF assms(2)] client_ok_snoc [OF assms(4) a(2)] pre(3)] unfolding nm by metis
  have both: "cached_type ds ?t = Some ms \<and> dax_get_typesize ds ?t = type_size ?dts ?t"
    if "client_ok E s1 ds" "slot (types ds) ?i \<noteq> None" for ds
  proof -
    have ag: "agrees (length ?dts) ?dts (types ds)" using that(1) a(2) by (simp add: client_ok_def)
    then have "complete ?dts (types ds) ?i" using that(2) i unfolding agrees_def by blast
    from cached_type_slot [OF wf i this] dax_get_typesize_agrees [OF wf assms(6) ag i that(2) pos] type_size_ideal [OF wf assms(6) i]
    show ?thesis by (simp only: nth simp_thms)
  qed
  have "cdts (s1\<lparr>sent := x\<rparr>) = ?dts" using a(2) by simp
  with a(1) b(1) both [OF a(3)] both [OF b(2)] a(4) b(3) show ?thesis by auto
qed

text \<open>A server with one type; the new type has two members of it behind three bits.\<close>

definition inner_members :: "cdt_member list" where
  "inner_members = [\<lparr>m_name = ''c'', m_type = DAX_DINT, m_count = 1\<rparr>]"

definition outer_members :: "cdt_member list" where
  "outer_members = [\<lparr>m_name = ''a'', m_type = DAX_BOOL, m_count = 3\<rparr>, \<lparr>m_name = ''b'', m_type = 0x80000000, m_count = 2\<rparr>]"

definition typed_demo :: server where
  "typed_demo = demo\<lparr>cdts := [new_cdt ''Inner'' inner_members]\<rparr>"

lemmas name_eval = validate_name_def DAX_TAGNAME_SIZE_def name_char_def isalpha_def isdigit_def ccode_def

lemma type0: "CDT_TO_TYPE 0 = 0x80000000"
  by (simp add: CDT_TO_TYPE_def)

lemma inner_creatable: "creatable [] ''Inner'' inner_members"
  by (simp add: creatable_def inner_members_def wf_cdts_def MAX_CDTS_def cdt_get_type_eq_0 base_lnames cdt_ref_ok_def base_types_def
      name_eval del: map_map) (simp add: lname_def str_eval)

lemma outer_creatable: "creatable (cdts typed_demo) ''Outer'' outer_members"
proof -
  have "wf_cdts (cdts typed_demo)" using creatable_wf [OF inner_creatable] by (simp add: typed_demo_def)
  moreover have "cdt_get_type (cdts typed_demo) ''Outer'' = 0"
    unfolding cdt_get_type_eq_0 base_lnames by (simp add: typed_demo_def new_cdt_def lname_def str_eval)
  ultimately show ?thesis
    by (simp add: creatable_def outer_members_def typed_demo_def MAX_CDTS_def cdt_ref_ok_def base_types_def type0 name_eval)
      (simp add: lname_def str_eval)
qed

lemma outer_fit: "cdts_fit (cdts typed_demo @ [new_cdt ''Outer'' outer_members])"
  by (auto simp: cdts_fit_def typed_demo_def new_cdt_def outer_members_def inner_members_def ideal_bits_def ideal_size_def
      member_start_def member_bits_def round8_def TYPESIZE_def IS_CUSTOM_def CDT_TO_INDEX_def less_Suc_eq)

lemma outer_sendable: "sendable (cdts typed_demo @ [new_cdt ''Outer'' outer_members])"
  by (simp add: sendable_def cdt_str_def member_str_def type_name_def typed_demo_def new_cdt_def outer_members_def inner_members_def
      cdt_get_name_def IS_CUSTOM_def CDT_TO_INDEX_def base_names_def show_int_def show_nat.simps int_of_u32_def arr_get_def MSG_DATA_SIZE_def)

lemma demo_client_ok: "0 \<le> fd \<Longrightarrow> client_ok env0 s (demo_client fd)"
  by (simp add: client_ok_def demo_client_def agrees_def names_agree_def slot_def)

theorem client_type_roundtrip_witness:
  "\<exists>t s1 a1 s2 b1. dax_cdt_create env0 typed_demo (demo_client 3) (''Outer'', outer_members) = Some (0, t, s1, a1) \<and>
    dax_type_to_string env0 s1 (demo_client 4) t = Some (Some ''Outer'', s2, b1) \<and>
    cdts s2 = cdts typed_demo @ [new_cdt ''Outer'' outer_members] \<and>
    cached_type a1 t = Some outer_members \<and> cached_type b1 t = Some outer_members \<and>
    dax_get_typesize a1 t = type_size (cdts s2) t \<and> dax_get_typesize b1 t = type_size (cdts s2) t"
  using client_type_roundtrip [OF outer_creatable alloc_all_env0 demo_client_ok demo_client_ok outer_sendable outer_fit, of 3 4] by simp

section \<open>Parts of tags\<close>

text \<open>C40: The name of a part of a tag, such as \<^verbatim>\<open>tag[1].member[2].item\<close> with compound types nested to any depth, becomes a handle for exactly
  the items that the layout of the types on the server gives it: the tag, the first bit, the type, the count and the bytes
  that hold them, which lie within the tag. The module asks the server for the tag and the types that it does not have
  cached, and nothing on the server changes but what was sent. The index of the tag and those of the members are in range. On some paths the code does not keep to
  the layout; they are excluded by the condition that compound members on the way do not follow an incomplete byte of
  BOOLs, that a range of BOOLs starts in the byte in which its member starts, and that BOOL members have at most 248 bits.\<close>

theorem tag_handle_layout:
  assumes "types_ok (cdts s)" and "alloc E A_serialize" and "client_ok E s ds" and "named_tag s name d" and "cache_current ds name d"
    and "j < length (cdts s)" and "dt_type d = CDT_TO_TYPE (of_nat j)" and "z = ideal_size (cdts s) (dt_type d)"
    and "1 < dt_count d \<longrightarrow> k \<noteq> None" and "offset_of k < unat (dt_count d)" and "z * unat (dt_count d) < 2 ^ 31"
    and "path_ok (cdts s) c (dt_type d) path" and "path_start (cdts s) (dt_type d) path = Some (q, leaf, i)"
  shows "\<exists>h x ds1. dax_tag_handle E s ds new (path_str ((name, k) # path)) (int c) = Some (0, h, s\<lparr>sent := x\<rparr>, ds1) \<and>
    h_index h = dt_idx d \<and>
    points (cdts s) h (q + 8 * (z * offset_of k)) (m_type leaf) (item_count c leaf i) \<and>
    unat (h_byte h) + unat (h_size h) \<le> z * unat (dt_count d)"
proof -
  note path = assms(12,13) [unfolded assms(7)] and zz = assms(8) [unfolded assms(7)]
  have "z * offset_of k + z = z * (offset_of k + 1)" by simp
  also have "\<dots> \<le> z * unat (dt_count d)" using assms(10) by (intro mult_le_mono2) simp
  finally have le: "z * offset_of k + z \<le> z * unat (dt_count d)" .
  have "offset_of k * ideal_size (cdts s) (CDT_TO_TYPE (of_nat j)) < 2 ^ 31"
    using le assms(11) unfolding zz [symmetric] by (simp add: mult.commute)
  from tag_handle_member [OF assms(1-7,9) this path, of new] obtain h x ds1 where
    h: "dax_tag_handle E s ds new (path_str ((name, k) # path)) (int c) = Some (0, h, s\<lparr>sent := x\<rparr>, ds1)" "h_index h = dt_idx d"
    "points (cdts s) h (q + 8 * (z * offset_of k)) (m_type leaf) (item_count c leaf i)" unfolding zz by blast
  note b = path_bound [OF assms(1,6) path, folded zz]
  have "unat (h_byte h) + unat (h_size h) \<le> z * unat (dt_count d)"
    using b le by (intro points_inside [OF h(3)]) (linarith, blast)
  with h show ?thesis by blast
qed

text \<open>Two pumps on a server; the second item of the second one's member.\<close>

definition pump_members :: "cdt_member list" where
  "pump_members = [\<lparr>m_name = ''b'', m_type = 0x80000000, m_count = 2\<rparr>, \<lparr>m_name = ''a'', m_type = DAX_BOOL, m_count = 3\<rparr>]"

definition pump_tag :: tag_db where
  "pump_tag = tag_zero\<lparr>t_type := 0x80000001, t_count := 2, t_name := Some ''pump'', t_data := D_block (replicate 18 0)\<rparr>"

definition pump_demo :: server where
  "pump_demo = demo\<lparr>cdts := [new_cdt ''Inner'' inner_members, new_cdt ''Pump'' pump_members],
     db := pump_tag # replicate 11 tag_zero, name_index := (''pump'', 0) # replicate 11 ([], 0)\<rparr>"

lemma pump_creatable: "creatable (cdts typed_demo) ''Pump'' pump_members"
proof -
  have "wf_cdts (cdts typed_demo)" using creatable_wf [OF inner_creatable] by (simp add: typed_demo_def)
  moreover have "cdt_get_type (cdts typed_demo) ''Pump'' = 0"
    unfolding cdt_get_type_eq_0 base_lnames by (simp add: typed_demo_def new_cdt_def lname_def str_eval)
  ultimately show ?thesis
    by (simp add: creatable_def pump_members_def typed_demo_def MAX_CDTS_def cdt_ref_ok_def base_types_def type0 name_eval)
      (simp add: lname_def str_eval)
qed

lemma pump_types: "types_ok (cdts pump_demo)"
proof -
  have "wf_cdts (cdts pump_demo)" using creatable_wf [OF pump_creatable] by (simp add: typed_demo_def pump_demo_def)
  moreover have "cdts_fit (cdts pump_demo)"
    by (auto simp: cdts_fit_def pump_demo_def new_cdt_def pump_members_def inner_members_def ideal_bits_def ideal_size_def
        member_start_def member_bits_def round8_def TYPESIZE_def IS_CUSTOM_def CDT_TO_INDEX_def less_Suc_eq)
  moreover have "sendable (cdts pump_demo)"
    by (simp add: sendable_def cdt_str_def member_str_def type_name_def pump_demo_def new_cdt_def pump_members_def inner_members_def
        cdt_get_name_def IS_CUSTOM_def CDT_TO_INDEX_def base_names_def show_int_def show_nat.simps int_of_u32_def arr_get_def MSG_DATA_SIZE_def)
  ultimately show ?thesis by (simp add: types_ok_def)
qed

definition pump_desc :: dax_tag where
  "pump_desc = \<lparr>dt_idx = 0, dt_type = 0x80000001, dt_count = 2, dt_attr = 0, dt_name = ''pump''\<rparr>"

lemma pump_named: "named_tag pump_demo ''pump'' pump_desc"
proof -
  have i: "idx_inv (idx_of pump_demo)" by (simp add: idx_inv_def idx_of_def idx_entries_def pump_demo_def)
  from idx_lookup_map_of [OF this] have "idx_lookup (idx_of pump_demo) ''pump'' = Some 0"
    by (simp add: idx_of_def idx_entries_def pump_demo_def)
  with get_by_name_lookup [OF i] have "get_by_name pump_demo ''pump'' = Some 0" by simp
  moreover have "get_tag pump_demo 0 = Some pump_tag" by (simp add: get_tag_def arr_get_def pump_demo_def)
  moreover have "validate_name ''pump'' = 0" by (simp add: name_eval)
  ultimately show ?thesis
    by (simp add: named_tag_def tag_get_name_def fill_tag_def pump_tag_def pump_desc_def tag_zero_def int32_ok_def)
qed

lemma pump_sizes: "ideal_size (cdts pump_demo) 0x80000000 = 4" "ideal_size (cdts pump_demo) 0x80000001 = 9"
  by (simp_all add: ideal_size_def pump_demo_def new_cdt_def pump_members_def inner_members_def
      member_start_def member_bits_def round8_def TYPESIZE_def IS_CUSTOM_def CDT_TO_INDEX_def)

lemma pump_type_members:
  "type_members (cdts pump_demo) 0x80000000 = inner_members" "type_members (cdts pump_demo) 0x80000001 = pump_members"
  by (simp_all add: type_members_def pump_demo_def new_cdt_def CDT_TO_INDEX_def)

lemma pump_path:
  "path_start (cdts pump_demo) 0x80000001 [(''b'', Some 1), (''c'', None)] = Some (32, hd inner_members, None)"
  "path_ok (cdts pump_demo) 0 0x80000001 [(''b'', Some 1), (''c'', None)]"
  by (simp_all add: pump_type_members pump_members_def inner_members_def member_start_def round8_def offset_of_def item_bits_def
      pump_sizes in_range_def name_eval IS_CUSTOM_def)

theorem tag_handle_layout_witness:
  "\<exists>h x ds1. dax_tag_handle env0 pump_demo (demo_client 3) None ''pump[1].b[1].c'' 0 = Some (0, h, pump_demo\<lparr>sent := x\<rparr>, ds1) \<and>
    8 * unat (h_byte h) + unat (h_bit h) = 104 \<and> h_type h = DAX_DINT \<and> unat (h_count h) = 1"
proof -
  let ?path = "[(''b'', Some 1), (''c'', None)]"
  have one: "digit_char (Suc 0) = CHR ''1''" unfolding digit_char_def by code_simp
  have str: "path_str ((''pump'', Some 1) # ?path) = ''pump[1].b[1].c''" by (simp add: part_str_def show_nat.simps one)
  have cur: "cache_current (demo_client 3) ''pump'' pump_desc"
    unfolding cache_current_def demo_client_def using cache3_rep
    by (intro exI [of _ "map (cnode cache3) [0, 1, 2]"]) (simp add: cache3_def)
  have ty: "dt_type pump_desc = CDT_TO_TYPE (of_nat 1)" "dt_type pump_desc = 0x80000001"
    by (simp_all add: pump_desc_def CDT_TO_TYPE_def)
  have "1 < length (cdts pump_demo)" by (simp add: pump_demo_def)
  from tag_handle_layout [OF pump_types _ demo_client_ok pump_named cur this ty(1) refl, of "Some 1" 0 ?path 32 "hd inner_members" None None]
  obtain h x ds1 where
    "dax_tag_handle env0 pump_demo (demo_client 3) None (path_str ((''pump'', Some 1) # ?path)) (int 0) = Some (0, h, pump_demo\<lparr>sent := x\<rparr>, ds1)"
    "points (cdts pump_demo) h (32 + 8 * (9 * offset_of (Some 1))) (m_type (hd inner_members)) (item_count 0 (hd inner_members) None)"
    unfolding ty(2) pump_sizes(2) using pump_path by (auto simp: offset_of_def pump_desc_def)
  then show ?thesis unfolding str by (auto simp: points_def offset_of_def item_count_def inner_members_def)
qed

end
