(* ===== verification/Spec2Isabelle.thy ===== *)
theory Spec2Isabelle
  imports Server_Loop Core_Properties Server_Properties Client_Properties Modbus_Properties Naming_Properties
begin

text \<open>
  \<^bold>\<open>OpenDAX: tag server, client library and Modbus module\<close>

  OpenDAX is a real-time data acquisition framework.  Its centre is the tag server (directory
  \<^verbatim>\<open>src/src/server\<close>), one single-threaded process that owns a database of typed tags.
  Modules connect to it through sockets and send requests: they create, read and write tags, install
  events, mappings, overrides and groups, and run atomic operations.  They do so with the client library
  (\<^verbatim>\<open>src/src/lib\<close>), which caches descriptions of tags and types, frames the messages and waits for the answers.
  The Modbus module (\<^verbatim>\<open>src/src/modules/modbus\<close>) is one of these modules.  This
  development models the server, the part of the client library that names, reads and writes tags and their types,
  and the protocol of the Modbus module, and composes them: a request of the client is a
  message to the dispatcher of the modelled server, and a register of a Modbus slave is a part of a tag.

  \<^bold>\<open>Parts of the program and their theories.\<close>

  \<^item> Dax_Prelude: C integers, byte arrays with checked access, the little endian
    encodings, bits of byte strings, the constants of \<^verbatim>\<open>opendax.h\<close>.  C_Strings: the string functions of the
    C library that the programs call (strcmp, strcasecmp, strtok, strtol, isalpha, ...).
  \<^item> Server_State: the global variables of the server as the record server, the
    database entry tag\_db, events, mappings, modules and groups as records, and the record
    env of everything outside the program.
  \<^item> Data_Types, Type_Table: the compound data types of \<^verbatim>\<open>tagbase.c\<close>
    (cdt\_create, cdt\_append, cdt\_get\_type, serialize\_datatype, type\_size, ...).
  \<^item> Tag_Index: the sorted name index (\<^verbatim>\<open>_get_by_name\<close>,
    \<^verbatim>\<open>_add_index\<close>, \<^verbatim>\<open>_del_index\<close>).
  \<^item> Module_Ring, Module_Admin: \<^verbatim>\<open>module.c\<close>, the circular
    list of modules, registration and unregistration.
  \<^item> Tag_Basics, Tagbase, Tag_Admin: the tag database of
    \<^verbatim>\<open>tagbase.c\<close> (reading, writing, adding and deleting tags, start-up) and the
    virtual tags of \<^verbatim>\<open>virtualtag.c\<close>.
  \<^item> Tag_Queue: the circular queue behind queue tags (\<^verbatim>\<open>virtualtag.c\<close>).
  \<^item> Events, Event_Laws: \<^verbatim>\<open>events.c\<close>.
  \<^item> Overrides, Tag_Mapping, Atomic_Ops, Tag_Groups:
    the override functions of \<^verbatim>\<open>tagbase.c\<close>, \<^verbatim>\<open>mapping.c\<close>,
    \<^verbatim>\<open>atomic.c\<close> and \<^verbatim>\<open>groups.c\<close>.
  \<^item> Messages: one definition per request handler of \<^verbatim>\<open>message.c\<close>.
    Server_Loop: the connection buffers of \<^verbatim>\<open>buffer.c\<close>, the dispatcher and
    one pass of msg\_receive.
  \<^item> Tag_Cache: the tag cache of the client (\<^verbatim>\<open>lib/libdata.c\<close>), a linked ring.
    Client_Data: requests and answers (\<^verbatim>\<open>lib/libmsg.c\<close>), raw and typed reading and writing of tags
    (\<^verbatim>\<open>lib/libdata.c\<close>).  Client_Types: the type cache, creating and fetching of types
    (\<^verbatim>\<open>lib/libcdt.c\<close>, \<^verbatim>\<open>lib/libmsg.c\<close>).  Client_Handles: looking up tags and turning the name of a part of a tag into
    a handle (\<^verbatim>\<open>dax_tag_byname\<close> of \<^verbatim>\<open>lib/libmsg.c\<close>, \<^verbatim>\<open>dax_tag_handle\<close> of \<^verbatim>\<open>lib/libcdt.c\<close>).
  \<^item> Modbus_Crc: the table driven checksum of \<^verbatim>\<open>mbutil.c\<close>.  Modbus_Slave, Modbus_Master: requests and
    responses of both sides (\<^verbatim>\<open>modbus.c\<close>, \<^verbatim>\<open>database.c\<close>, \<^verbatim>\<open>mbcmds.c\<close>, \<^verbatim>\<open>mbslave.c\<close>, \<^verbatim>\<open>mbserver.c\<close>).

  \<^bold>\<open>What the lemmas show.\<close>

  \<^item> Db_View, Frames: which part of the server each operation leaves alone.  Db_Invariant, Tag_Laws,
    Server_Inv: the invariant of the database (types well-formed, index sorted and exactly the names in use, counters right,
    blocks of the size that type and count require) and that every handler and every pass of the receive loop keeps it.
  \<^item> Memory_Safety, Startup: reading, writing and adding tags stay within their blocks under stated conditions, and
    start-up succeeds.
  \<^item> Core_Properties, Server_Properties: the properties of the server.
  \<^item> Client_Laws, Client_Access, Type_Fetch: a request of the client through the dispatcher, reading and writing in several
    messages, ranges of bits, and the agreement of the types in the cache with those of the server.
    Handle_Laws: the walk over the members of nested types against their layout on the server, which decides where a handle points to.
    Client_Properties, Naming_Properties: the properties of the client and the server together.
  \<^item> Modbus_Laws, Modbus_Properties: byte order and registers as parts of tags, and the properties of the Modbus module, up to
    a master, a slave, the client library and the server in one statement.

  \<^bold>\<open>How state and operations correspond.\<close>  The globals of all server files are fields of one
  record server that every operation takes and returns; the state of a client is the record dax\_state.
  A C function becomes a function into
  an option type: the value None stands for undefined behaviour (an access outside of
  an allocated block, a read of uninitialized memory used as a pointer, a failed assert); error
  returns are ordinary results.  A buffer that the caller passes by pointer is a list of bytes that is
  passed in and returned.  Messages sent to a module are appended to the list of sent messages,
  calls of the retention layer to a list of calls.  C unsigned integers are words, C ints are
  integers with the conversions written out where the code mixes both.  Pointers in the module ring
  and in the tag cache are natural numbers into a store; the blocks behind a tag are values of a datatype
  (a plain byte block, a block of virtual functions, or the null pointer).

  \<^bold>\<open>Surroundings.\<close>  The record env holds what the program does not decide: whether an
  allocation at a given site succeeds, the contents of uninitialized memory, the clock, whether a
  write to a socket succeeds, the address of the peer, the configured list of modules without a
  tag, and IEEE addition and subtraction.  Hypotheses about them are stated in the theorems, for
  example that allocations succeed.  What a socket delivers to the client is a list of pieces; the callbacks of
  the Modbus module, which are Lua functions, are parameters.

  \<^bold>\<open>Contracts.\<close>  Four interfaces are locales, each interpreted on the definitions above:
  name\_map (a finite map from names to indices: Tag_Index), module\_list (a list with a
  current position: Module_Ring), bounded\_fifo (a first-in first-out list of
  bounded length: Tag_Queue) and lookup\_cache (lookups that only reorder: Tag_Cache).

  \<^bold>\<open>Fuel and termination.\<close>  Loops are recursive functions with termination proofs, with these exceptions.
  Sizes of compound types recurse through the type table; since a type refers only to
  earlier types, the length of the table plus one is enough fuel, on the server and on the client, and this is proved.  The same
  bound is enough for a client that fetches a type and the types of its members.  The walks
  around the module ring and the tag cache and the loops that cut a long request of the client into messages are partial
  functions whose value None includes not ending; on well-formed rings, and for ranges within a tag, they are proved to end.

  \<^bold>\<open>Simplifications.\<close>  The memset of 48 bytes into the 47 byte descriptor of an added tag is not
  modelled; reads past the end of a short name deliver arbitrary bytes instead of being undefined;
  the event handlers that send eight bytes of a four byte variable send arbitrary bytes for the
  rest; a shift count of more than 31 shifts all bits out.  Requests of a client are handled at once and
  one after the other: the locks and the thread of the client library are not modelled.

  \<^bold>\<open>Not modelled.\<close>  Socket creation and select, the SQLite file of the retention layer, option
  parsing and logging are operating system or library calls.  Of the client library, connecting, the event queue and the
  requests for events, mappings, groups and overrides are left out, as are the functions that list members and build full names; of the Modbus module, the scanning loop with its timing, the ports and the
  configuration.  The other modules and the master process mostly call third-party libraries and the operating system.
\<close>

end
